(* ===== verification/KL_Prelude.thy ===== *)
theory KL_Prelude
  imports Main "HOL-Library.Word" "HOL-Library.Sublist" "HOL-Library.AList"
begin

text \<open>
  The shared vocabulary of the development: bytes and Python strings, the exceptions the
  code can raise or catch, results with an error branch, and the list operations that the
  sources take from Python's standard library (\<^verbatim>\<open>bytes.index\<close>, \<^verbatim>\<open>str.split\<close>,
  \<^verbatim>\<open>str.join\<close>, \<^verbatim>\<open>struct.pack('>I', n)\<close>).

  A \<^verbatim>\<open>bytes\<close> object is a list of 8-bit words.  A \<^verbatim>\<open>str\<close> is a list of code points
  (natural numbers); its length is the number of code points, as in Python, not the number
  of bytes of an encoding.
\<close>

section \<open>Types\<close>

type_synonym byte = "8 word"
type_synonym bytes = "byte list"
type_synonym pystr = "nat list"

text \<open>
  The exception classes the sources raise, catch or let through.  \<open>UserError\<close> stands for
  any exception of application code that is not one of the others.  \<^verbatim>\<open>socket.error\<close> is
  an alias of \<^verbatim>\<open>OSError\<close>, and \<^verbatim>\<open>TimeoutError\<close> is a subclass of it;
  \<^verbatim>\<open>UnicodeDecodeError\<close> and \<^verbatim>\<open>UnicodeEncodeError\<close> are subclasses of
  \<^verbatim>\<open>ValueError\<close>.
\<close>

datatype exn =
    OSError
  | TimeoutError
  | ValueError
  | UnicodeEncodeError
  | UnicodeDecodeError
  | StructError
  | AttributeError
  | RuntimeError
  | UserError

type_synonym 'a res = "exn + 'a"

definition is_socket_error :: "exn \<Rightarrow> bool" where
  "is_socket_error e \<longleftrightarrow> e = OSError \<or> e = TimeoutError"

definition is_value_error :: "exn \<Rightarrow> bool" where
  "is_value_error e \<longleftrightarrow> e = ValueError \<or> e = UnicodeEncodeError \<or> e = UnicodeDecodeError"

section \<open>Collections of facts\<close>

named_theorems client_simps \<open>the small operations on the fields of a client\<close>
named_theorems qt_simps \<open>the operations that a constructor of a PyQt role runs\<close>

section \<open>Literals\<close>

text \<open>ASCII literals, as a Python \<^verbatim>\<open>str\<close> and as \<^verbatim>\<open>bytes\<close>.\<close>

definition str_lit :: "string \<Rightarrow> pystr" where
  "str_lit s = map of_char s"

definition b_lit :: "string \<Rightarrow> bytes" where
  "b_lit s = map of_char s"

lemma length_str_lit [simp]: "length (str_lit s) = length s"
  by (simp add: str_lit_def)

lemma length_b_lit [simp]: "length (b_lit s) = length s"
  by (simp add: b_lit_def)

section \<open>Searching and splitting\<close>

text \<open>
  \<^verbatim>\<open>xs.index(pat)\<close>: the least position at which \<open>pat\<close> occurs, \<open>None\<close> where Python
  raises \<^verbatim>\<open>ValueError\<close>.
\<close>

fun find_sub :: "'a list \<Rightarrow> 'a list \<Rightarrow> nat option" where
  "find_sub pat [] = (if pat = [] then Some 0 else None)"
| "find_sub pat (x # xs) =
     (if prefix pat (x # xs) then Some 0 else map_option Suc (find_sub pat xs))"

lemma find_sub_prefix: "find_sub pat (pat @ xs) = Some 0"
proof (cases "pat @ xs")
  case (Cons y ys)
  then have "prefix pat (y # ys)" by (metis prefixI)
  with Cons show ?thesis by simp
qed simp

lemma find_sub_skip:
  "\<not> prefix pat (x # xs) \<Longrightarrow> find_sub pat (x # xs) = map_option Suc (find_sub pat xs)"
  by simp

lemma find_sub_Some:
  "find_sub pat xs = Some n \<Longrightarrow>
     xs = take n xs @ pat @ drop (n + length pat) xs"
proof (induction pat xs arbitrary: n rule: find_sub.induct)
  case (1 pat)
  then show ?case by (simp split: if_splits)
next
  case (2 pat x xs)
  show ?case
  proof (cases "prefix pat (x # xs)")
    case True
    with 2 have "n = 0" by simp
    with True show ?thesis by (metis append_eq_conv_conj append_Nil prefixE add_0 take_0)
  next
    case False
    with 2 obtain m where m: "find_sub pat xs = Some m" "n = Suc m" by auto
    from 2(1) [OF False m(1)] m(2) show ?thesis by simp
  qed
qed

text \<open>
  A separator is found exactly at the end of the text before it when no occurrence starts
  earlier, in the text or across its end.
\<close>

definition clean_before :: "'a list \<Rightarrow> 'a list \<Rightarrow> bool" where
  "clean_before pat key \<longleftrightarrow> (\<forall>i < length key. \<not> prefix pat (drop i key @ pat))"

lemma clean_before_Nil [simp]: "clean_before pat []"
  by (simp add: clean_before_def)

lemma clean_before_Cons [simp]:
  "clean_before pat (x # key) \<longleftrightarrow> \<not> prefix pat (x # key @ pat) \<and> clean_before pat key"
  by (auto simp: clean_before_def less_Suc_eq_0_disj)

lemma prefix_append_long: "length pat \<le> length xs \<Longrightarrow> prefix pat (xs @ ys) = prefix pat xs"
  by (auto simp: prefix_def append_eq_append_conv2)

lemma find_sub_clean:
  "clean_before pat key \<Longrightarrow> find_sub pat (key @ pat @ xs) = Some (length key)"
proof (induction key)
  case Nil
  then show ?case by (simp add: find_sub_prefix)
next
  case (Cons x key)
  have "prefix pat (x # key @ pat @ xs) = prefix pat (x # key @ pat)"
    using prefix_append_long [of pat "x # key @ pat" xs] by simp
  with Cons show ?case by simp
qed

text \<open>\<^verbatim>\<open>s.split(c)\<close> for a one-character separator: every piece, empty ones included.\<close>

fun split_on :: "'a \<Rightarrow> 'a list \<Rightarrow> 'a list list" where
  "split_on c [] = [[]]"
| "split_on c (x # xs) =
     (if x = c then [] # split_on c xs
      else (case split_on c xs of [] \<Rightarrow> [[x]] | y # ys \<Rightarrow> (x # y) # ys))"

text \<open>\<^verbatim>\<open>s.split(c, maxsplit=1)\<close>: at most one cut, at the first separator.\<close>

fun split_once :: "'a \<Rightarrow> 'a list \<Rightarrow> 'a list list" where
  "split_once c [] = [[]]"
| "split_once c (x # xs) =
     (if x = c then [[], xs]
      else (case split_once c xs of [] \<Rightarrow> [[x]] | y # ys \<Rightarrow> (x # y) # ys))"

text \<open>\<^verbatim>\<open>sep.join(xs)\<close> for a one-character separator.\<close>

fun join_with :: "'a \<Rightarrow> 'a list list \<Rightarrow> 'a list" where
  "join_with c [] = []"
| "join_with c [x] = x"
| "join_with c (x # xs) = x @ c # join_with c xs"

lemma split_on_nonempty [simp]: "split_on c xs \<noteq> []"
  by (induction xs) (auto split: list.splits)

lemma split_on_clean: "c \<notin> set xs \<Longrightarrow> split_on c xs = [xs]"
  by (induction xs) auto

lemma split_on_append: "c \<notin> set xs \<Longrightarrow> split_on c (xs @ c # ys) = xs # split_on c ys"
  by (induction xs) auto

lemma split_on_join:
  assumes "xss \<noteq> []" and "\<forall>xs \<in> set xss. c \<notin> set xs"
  shows "split_on c (join_with c xss) = xss"
  using assms by (induction c xss rule: join_with.induct)
    (auto simp: split_on_clean split_on_append)

lemma join_split_on: "join_with c (split_on c xs) = xs"
proof (induction xs)
  case (Cons x xs)
  obtain y ys where s: "split_on c xs = y # ys"
    by (cases "split_on c xs") auto
  with Cons show ?case by (cases ys) auto
qed simp

lemma split_once_clean: "c \<notin> set xs \<Longrightarrow> split_once c xs = [xs]"
  by (induction xs) auto

lemma split_once_append: "c \<notin> set xs \<Longrightarrow> split_once c (xs @ c # ys) = [xs, ys]"
  by (induction xs) auto

lemma split_on_no_sep: "y \<in> set (split_on c xs) \<Longrightarrow> c \<notin> set y"
  by (induction xs arbitrary: y) (auto split: if_splits list.splits)

lemma split_once_decomp:
  assumes "c \<in> set xs"
  obtains ys zs where "xs = ys @ c # zs" and "c \<notin> set ys" and "split_once c xs = [ys, zs]"
proof -
  obtain ys zs where "xs = ys @ c # zs" "c \<notin> set ys"
    using assms by (meson split_list_first)
  then show ?thesis by (auto intro: that simp: split_once_append)
qed

lemma split_once_length: "length (split_once c xs) = 2 \<longleftrightarrow> c \<in> set xs"
proof (induction xs)
  case (Cons x xs)
  then show ?case by (auto split: list.splits simp: split_once_clean)
qed simp

text \<open>\<^verbatim>\<open>s.split(pat)\<close>: cuts at every occurrence, from left to right, without overlap.\<close>

lemma find_sub_shrinks:
  "find_sub pat xs = Some n \<Longrightarrow> pat \<noteq> [] \<Longrightarrow> length xs - (n + length pat) < length xs"
  by (cases xs) (auto split: if_splits)

function split_sub :: "'a list \<Rightarrow> 'a list \<Rightarrow> 'a list list" where
  "split_sub pat xs =
     (case find_sub pat xs of
        None \<Rightarrow> [xs]
      | Some n \<Rightarrow> if pat = [] then [xs] else take n xs # split_sub pat (drop (n + length pat) xs))"
  by pat_completeness auto
termination
  by (relation "measure (\<lambda>(pat, xs). length xs)") (simp_all add: find_sub_shrinks)

declare split_sub.simps [simp del]

lemma split_sub_None: "find_sub pat xs = None \<Longrightarrow> split_sub pat xs = [xs]"
  by (simp add: split_sub.simps)

lemma split_sub_nonempty [simp]: "split_sub pat xs \<noteq> []"
  by (subst split_sub.simps) (simp split: option.split)

lemma split_sub_clean:
  "clean_before pat key \<Longrightarrow> pat \<noteq> [] \<Longrightarrow> split_sub pat (key @ pat @ xs) = key # split_sub pat xs"
  by (subst split_sub.simps) (simp add: find_sub_clean)

lemma split_sub_many:
  assumes "find_sub pat xs \<noteq> None" and "pat \<noteq> []"
  shows "2 \<le> length (split_sub pat xs)"
proof -
  obtain n where "find_sub pat xs = Some n" using assms(1) by blast
  with assms(2) have "split_sub pat xs = take n xs # split_sub pat (drop (n + length pat) xs)"
    by (subst split_sub.simps) simp
  moreover have "0 < length (split_sub pat (drop (n + length pat) xs))" by simp
  ultimately show ?thesis by (simp del: length_greater_0_conv)
qed

lemma find_sub_None: "find_sub pat xs = None \<longleftrightarrow> \<not> sublist pat xs"
proof (induction pat xs rule: find_sub.induct)
  case (2 pat x xs)
  then show ?case by (auto simp: sublist_Cons_right)
qed simp

section \<open>Big-endian 32-bit lengths\<close>

text \<open>
  \<^verbatim>\<open>struct.pack('>I', n)\<close> and \<^verbatim>\<open>struct.unpack('>I', b)[0]\<close>: four bytes, most
  significant first; both raise \<^verbatim>\<open>struct.error\<close> outside their domain.
\<close>

definition struct_pack_I :: "nat \<Rightarrow> bytes res" where
  "struct_pack_I n =
     (if n < 2 ^ 32
      then Inr [of_nat (n div 2 ^ 24), of_nat (n div 2 ^ 16 mod 256),
                of_nat (n div 2 ^ 8 mod 256), of_nat (n mod 256)]
      else Inl StructError)"

fun struct_unpack_I :: "bytes \<Rightarrow> nat res" where
  "struct_unpack_I [a, b, c, d] =
     Inr (unat a * 2 ^ 24 + unat b * 2 ^ 16 + unat c * 2 ^ 8 + unat d)"
| "struct_unpack_I _ = Inl StructError"

lemma unat_of_nat_byte: "n < 256 \<Longrightarrow> unat (of_nat n :: byte) = n"
  by (simp add: unat_of_nat)

lemma unat_byte_less [simp]: "unat (b :: byte) < 256"
  using unsigned_less [of b] by simp

lemma digits_256:
  "n div 16777216 * 16777216 + n div 65536 mod 256 * 65536 + n div 256 mod 256 * 256
     + n mod 256 = (n :: nat)"
proof -
  have 1: "n div 65536 = n div 256 div 256"
    by (simp flip: div_mult2_eq)
  have 2: "n div 16777216 = n div 256 div 256 div 256"
    by (simp flip: div_mult2_eq)
  define a where "a = n div 256"
  define b where "b = a div 256"
  have "n = a * 256 + n mod 256" "a = b * 256 + a mod 256" "b = b div 256 * 256 + b mod 256"
    by (simp_all add: a_def b_def)
  then show ?thesis unfolding 1 2 a_def [symmetric] b_def [symmetric] by linarith
qed

lemma struct_pack_unpack:
  assumes "struct_pack_I n = Inr bs"
  shows "length bs = 4" and "struct_unpack_I bs = Inr n"
proof -
  have n: "n < 2 ^ 32" and bs: "bs = [of_nat (n div 2 ^ 24), of_nat (n div 2 ^ 16 mod 256),
                of_nat (n div 2 ^ 8 mod 256), of_nat (n mod 256)]"
    using assms by (auto simp: struct_pack_I_def split: if_splits)
  show "length bs = 4" using bs by simp
  have d: "n div 16777216 < 256" using n by auto
  show "struct_unpack_I bs = Inr n"
    using d digits_256 [of n] unfolding bs by (simp add: unat_of_nat)
qed

lemma struct_unpack_bound: "struct_unpack_I bs = Inr n \<Longrightarrow> n < 2 ^ 32"
proof (induction bs rule: struct_unpack_I.induct)
  case (1 a b c d)
  then show ?case
    using unat_byte_less [of a] unat_byte_less [of b] unat_byte_less [of c] unat_byte_less [of d]
    by (auto simp del: unat_byte_less)
qed auto

lemma struct_unpack_4: "length bs = 4 \<Longrightarrow> \<exists>n. struct_unpack_I bs = Inr n"
  by (cases bs rule: struct_unpack_I.cases) auto

lemma byte_digit: "(z :: nat) < 256 \<Longrightarrow> (k * 256 + z) div 256 = k \<and> (k * 256 + z) mod 256 = z"
  by simp

lemma struct_unpack_pack:
  assumes "struct_unpack_I bs = Inr n"
  shows "struct_pack_I n = Inr bs"
proof -
  obtain a b c d where bs: "bs = [a, b, c, d]"
    using assms by (cases bs rule: struct_unpack_I.cases) auto
  define w x y z where "w = unat a" and "x = unat b" and "y = unat c" and "z = unat d"
  note wxyz = w_def x_def y_def z_def
  have lt: "w < 256" "x < 256" "y < 256" "z < 256" by (simp_all add: wxyz)
  have n: "n = ((w * 256 + x) * 256 + y) * 256 + z"
    using assms by (simp add: bs wxyz)
  have d8: "n div 256 = (w * 256 + x) * 256 + y" and m: "n mod 256 = z"
    unfolding n using byte_digit [OF lt(4)] by blast+
  have e16: "n div 65536 = n div 256 div 256" and e24: "n div 16777216 = n div 65536 div 256"
    by (simp_all flip: div_mult2_eq)
  have d16: "n div 65536 = w * 256 + x"
    unfolding e16 d8 using byte_digit [OF lt(3)] by (simp only:)
  have m8: "n div 256 mod 256 = y"
    unfolding d8 using byte_digit [OF lt(3)] by (simp only:)
  have d24: "n div 16777216 = w" and m16: "n div 65536 mod 256 = x"
    unfolding e24 d16 using byte_digit [OF lt(2)] by (simp_all only:)
  have "n < 2 ^ 32" using struct_unpack_bound [OF assms] .
  then show ?thesis
    using m m8 m16 d24 by (simp add: struct_pack_I_def bs wxyz)
qed

end
