(* ===== verification/KL_Package.thy ===== *)
theory KL_Package
  imports KL_Prelude
begin

text \<open>
  \<^verbatim>\<open>__init__.py\<close>: the switch for the log output of the package.  The
  loggers of the modules have no level and no handler of their own, so what they log goes
  to the root logger of the program, which the switch configures.
\<close>

section \<open>The root logger\<close>

text \<open>The level and the handlers, each with the format of its lines and of its time stamps.\<close>

record root_logger =
  log_level :: nat
  log_handlers :: "(pystr \<times> pystr) list"

definition WARNING :: nat where
  "WARNING = 30"

text \<open>The root logger of a program that has configured nothing.\<close>

definition fresh_logger :: root_logger where
  "fresh_logger = \<lparr>log_level = WARNING, log_handlers = []\<rparr>"

text \<open>\<^verbatim>\<open>logging.basicConfig\<close> without \<^verbatim>\<open>force\<close> does nothing if there is a handler already.\<close>

definition basicConfig :: "nat \<Rightarrow> pystr \<Rightarrow> pystr \<Rightarrow> root_logger \<Rightarrow> root_logger" where
  "basicConfig level format datefmt l =
     (if log_handlers l = [] then l\<lparr>log_handlers := [(format, datefmt)], log_level := level\<rparr> else l)"

text \<open>How often a message of a module of the package is printed; without any handler the
  last resort of the library prints warnings and errors.\<close>

definition prints :: "root_logger \<Rightarrow> nat \<Rightarrow> nat" where
  "prints l severity =
     (if severity < log_level l then 0
      else if log_handlers l = [] then (if severity < WARNING then 0 else 1)
      else length (log_handlers l))"

section \<open>The package\<close>

definition enable_logging :: "nat \<Rightarrow> root_logger \<Rightarrow> root_logger" where
  "enable_logging level l =
     basicConfig level (str_lit ''[%(asctime)s] %(name)s %(levelname)s: %(message)s'') (str_lit ''%H:%M:%S'') l"

text \<open>
  The switch works once.  In a program that has configured no log output, after
  \<^verbatim>\<open>enable_logging(level)\<close> exactly the messages of at least that level are printed, once
  each, and calling it again does not print them twice.  But only the first call counts: a
  second one does not change the level, and neither does the first in a program that has a
  handler of its own.
\<close>

theorem enable_logging_works_once:
  "prints (enable_logging level fresh_logger) severity = (if level \<le> severity then 1 else 0) \<and>
   enable_logging level' (enable_logging level l) = enable_logging level l \<and>
   (if log_handlers l = [] then log_level (enable_logging level l) = level else enable_logging level l = l)"
  by (simp add: enable_logging_def basicConfig_def prints_def fresh_logger_def)

end
