(* ===== verification/KL_Kludf.thy ===== *)
theory KL_Kludf
  imports KL_Prelude
begin

text \<open>
  \<^verbatim>\<open>kludf.py\<close>: the key-value format.  A \<^verbatim>\<open>KLKVMap\<close> is a Python dict from
  strings to strings, which keeps its keys in the order of their first insertion: an
  association list with distinct keys, updated by \<open>AList.update\<close>, which replaces the value
  of a present key in place and appends a new key at the end.
\<close>

section \<open>KLKVMap\<close>

type_synonym klkvmap = "(pystr \<times> pystr) list"

definition semicolon :: nat where
  "semicolon = of_char CHR '';''"

definition equals_sign :: nat where
  "equals_sign = of_char CHR ''=''"

definition klkv_inv :: "klkvmap \<Rightarrow> bool" where
  "klkv_inv m \<longleftrightarrow> distinct (map fst m)"

text \<open>\<^verbatim>\<open>self[k] = v\<close>.\<close>

definition klkv_setitem :: "pystr \<Rightarrow> pystr \<Rightarrow> klkvmap \<Rightarrow> klkvmap" where
  "klkv_setitem k v m = AList.update k v m"

definition serialize :: "klkvmap \<Rightarrow> pystr" where
  "serialize m = join_with semicolon (map (\<lambda>(key, value). key @ equals_sign # value) m)"

text \<open>The loop of \<^verbatim>\<open>deserialize\<close> over the pieces; a piece without \<open>=\<close> is skipped.\<close>

fun deserialize_pairs :: "pystr list \<Rightarrow> klkvmap \<Rightarrow> klkvmap" where
  "deserialize_pairs [] m = m"
| "deserialize_pairs (pair # pairs) m =
     (let keyValue = split_once equals_sign pair in
      if length keyValue = 2
      then deserialize_pairs pairs (klkv_setitem (keyValue ! 0) (keyValue ! 1) m)
      else deserialize_pairs pairs m)"

text \<open>\<^verbatim>\<open>deserialize\<close> clears the map it is called on, then fills it.\<close>

definition deserialize :: "pystr \<Rightarrow> klkvmap \<Rightarrow> klkvmap" where
  "deserialize keyValueString m = deserialize_pairs (split_on semicolon keyValueString) []"

definition klkv_get :: "klkvmap \<Rightarrow> pystr \<Rightarrow> pystr \<Rightarrow> pystr" where
  "klkv_get m key defaultVal = (case map_of m key of None \<Rightarrow> defaultVal | Some v \<Rightarrow> v)"

text \<open>The strings the format can carry as a key and as a value.\<close>

definition klkv_safe :: "klkvmap \<Rightarrow> bool" where
  "klkv_safe m \<longleftrightarrow>
     list_all (\<lambda>(k, v). semicolon \<notin> set k \<and> equals_sign \<notin> set k \<and> semicolon \<notin> set v) m"

section \<open>The dict as a map\<close>

text \<open>
  What the rest of the development may rely on of a Python dict: the lookup after an
  insertion, and that insertion keeps the keys distinct.
\<close>

locale py_dict =
  fixes setitem :: "'k \<Rightarrow> 'v \<Rightarrow> 'd \<Rightarrow> 'd"
    and lookup :: "'d \<Rightarrow> 'k \<Rightarrow> 'v option"
    and inv :: "'d \<Rightarrow> bool"
    and empty :: 'd
  assumes inv_empty: "inv empty"
    and lookup_empty: "lookup empty k = None"
    and inv_setitem: "inv d \<Longrightarrow> inv (setitem k v d)"
    and lookup_setitem: "inv d \<Longrightarrow> lookup (setitem k v d) k' = (if k' = k then Some v else lookup d k')"
begin

text \<open>A run of insertions behaves as the map that the insertions describe.\<close>

lemma inv_fold: "inv d \<Longrightarrow> inv (fold (\<lambda>(k, v). setitem k v) kvs d)"
  by (induction kvs arbitrary: d) (auto simp: inv_setitem)

lemma lookup_fold:
  "inv d \<Longrightarrow> lookup (fold (\<lambda>(k, v). setitem k v) kvs d) k =
     (case map_of (rev kvs) k of None \<Rightarrow> lookup d k | Some v \<Rightarrow> Some v)"
  by (induction kvs arbitrary: d) (auto simp: inv_setitem lookup_setitem map_add_def
      split: option.splits)

end

interpretation klkv: py_dict klkv_setitem "map_of :: klkvmap \<Rightarrow> pystr \<Rightarrow> pystr option" klkv_inv "[]"
  by unfold_locales
    (auto simp: klkv_inv_def klkv_setitem_def update_conv' distinct_update map_upd_Some_unfold)

section \<open>Correctness\<close>

text \<open>The pairs a string holds: its pieces with an equals sign, cut at the first one.\<close>

fun pairs_of :: "pystr list \<Rightarrow> (pystr \<times> pystr) list" where
  "pairs_of [] = []"
| "pairs_of (p # ps) =
     (if equals_sign \<in> set p
      then (split_once equals_sign p ! 0, split_once equals_sign p ! 1) # pairs_of ps
      else pairs_of ps)"

lemma deserialize_pairs_fold:
  "deserialize_pairs ps m = fold (\<lambda>(k, v). klkv_setitem k v) (pairs_of ps) m"
  by (induction ps arbitrary: m) (auto simp: Let_def split_once_length)

lemma deserialize_inv: "klkv_inv (deserialize s m)"
  by (simp add: deserialize_def deserialize_pairs_fold klkv.inv_fold klkv.inv_empty)

lemma pairs_of_serialized:
  "klkv_safe m \<Longrightarrow> pairs_of (map (\<lambda>(key, value). key @ equals_sign # value) m) = m"
  by (induction m) (auto simp: klkv_safe_def split_once_append)

lemma fold_setitem_fresh:
  "distinct (map fst (m @ kvs)) \<Longrightarrow> fold (\<lambda>(k, v). klkv_setitem k v) kvs m = m @ kvs"
proof (induction kvs arbitrary: m)
  case (Cons kv kvs)
  obtain k v where kv: "kv = (k, v)" by fastforce
  have "k \<notin> fst ` set m" using Cons.prems kv by auto
  then have "klkv_setitem k v m = m @ [(k, v)]"
    unfolding klkv_setitem_def by (induction m) auto
  with Cons kv show ?case by simp
qed simp

lemma split_serialized:
  "klkv_safe m \<Longrightarrow> m \<noteq> [] \<Longrightarrow>
     split_on semicolon (serialize m) = map (\<lambda>(key, value). key @ equals_sign # value) m"
  unfolding serialize_def
  by (rule split_on_join) (auto simp: klkv_safe_def list_all_iff semicolon_def equals_sign_def)

lemma deserialize_serialize:
  assumes "klkv_inv m" and "klkv_safe m"
  shows "deserialize (serialize m) m' = m"
proof (cases "m = []")
  case True
  then show ?thesis by (simp add: deserialize_def serialize_def)
next
  case False
  with assms show ?thesis
    by (simp add: deserialize_def deserialize_pairs_fold split_serialized pairs_of_serialized
        fold_setitem_fresh klkv_inv_def)
qed

lemma klkv_safe_setitem:
  assumes "klkv_safe m" and "klkv_safe [(k, v)]"
  shows "klkv_safe (klkv_setitem k v m)"
  using assms unfolding klkv_setitem_def by (induction m) (auto simp: klkv_safe_def)

lemma klkv_safe_fold:
  "klkv_safe m \<Longrightarrow> klkv_safe kvs \<Longrightarrow> klkv_safe (fold (\<lambda>(k, v). klkv_setitem k v) kvs m)"
proof (induction kvs arbitrary: m)
  case (Cons kv kvs)
  obtain k v where "kv = (k, v)" by fastforce
  moreover from this Cons.prems have "klkv_safe [(k, v)]" "klkv_safe kvs"
    by (auto simp: klkv_safe_def)
  ultimately show ?case using Cons by (simp add: klkv_safe_setitem)
qed simp

lemma pairs_of_safe: "\<forall>p \<in> set ps. semicolon \<notin> set p \<Longrightarrow> klkv_safe (pairs_of ps)"
proof (induction ps)
  case (Cons p ps)
  show ?case
  proof (cases "equals_sign \<in> set p")
    case True
    then obtain ys zs where "p = ys @ equals_sign # zs" "equals_sign \<notin> set ys"
        "split_once equals_sign p = [ys, zs]"
      by (rule split_once_decomp)
    with Cons True show ?thesis by (auto simp: klkv_safe_def)
  qed (use Cons in simp)
qed (simp add: klkv_safe_def)

lemma deserialize_safe: "klkv_safe (deserialize s m)"
  unfolding deserialize_def deserialize_pairs_fold
proof (rule klkv_safe_fold)
  show "klkv_safe (pairs_of (split_on semicolon s))"
    by (rule pairs_of_safe) (auto dest: split_on_no_sep)
qed (simp add: klkv_safe_def)

text \<open>
  Claim C25 (round trip): reading back a serialized map gives the same pairs in the same order,
  whatever the target map held before, exactly when the map has distinct keys, no key holds
  a semicolon or an equals sign and no value holds a semicolon.  A value may hold equals
  signs: only the first one of a piece cuts it.
\<close>

theorem klkv_roundtrip:
  "deserialize (serialize m) m' = m \<longleftrightarrow> klkv_inv m \<and> klkv_safe m"
  by (metis deserialize_inv deserialize_safe deserialize_serialize)

text \<open>
  Claim C26 (functional behaviour): after \<^verbatim>\<open>deserialize\<close>, \<^verbatim>\<open>get\<close> returns the value of
  the last piece that has the key, and the default where no piece has it; nothing of the
  previous content is left.
\<close>

theorem deserialize_get:
  "klkv_get (deserialize s m) key d =
     (case map_of (rev (pairs_of (split_on semicolon s))) key of None \<Rightarrow> d | Some v \<Rightarrow> v)"
  by (simp add: klkv_get_def deserialize_def deserialize_pairs_fold klkv.lookup_fold
      klkv.inv_empty split: option.splits)

text \<open>
  Whatever string is read, the result has distinct keys and is
  reproduced by one more serialize and deserialize; one pass normalises.
\<close>

theorem deserialize_normalises:
  "klkv_inv (deserialize s m) \<and> deserialize (serialize (deserialize s m)) m' = deserialize s m"
  by (simp add: deserialize_inv deserialize_safe deserialize_serialize)

end
