(* ===== verification/KL_Utf8.thy ===== *)
theory KL_Utf8
  imports KL_Prelude
begin

text \<open>
  The UTF-8 codec as the SDK uses it: \<^verbatim>\<open>s.encode('utf-8')\<close>, which raises on surrogates,
  \<^verbatim>\<open>b.decode('utf-8')\<close>, which raises on the first ill-formed sequence, and
  \<^verbatim>\<open>b.decode('utf-8', errors='replace')\<close>, which never raises and puts U+FFFD in place of
  every maximal ill-formed subsequence.  The decoder reads one item at a time: a code point
  with the number of bytes it took, or an ill-formed run with its length.
\<close>

section \<open>Encoding\<close>

definition is_surrogate :: "nat \<Rightarrow> bool" where
  "is_surrogate c \<longleftrightarrow> 0xD800 \<le> c \<and> c \<le> 0xDFFF"

text \<open>Python's code points, and those UTF-8 can carry.\<close>

definition wf_pystr :: "pystr \<Rightarrow> bool" where
  "wf_pystr s \<longleftrightarrow> list_all (\<lambda>c. c < 0x110000) s"

definition is_scalar :: "nat \<Rightarrow> bool" where
  "is_scalar c \<longleftrightarrow> c < 0x110000 \<and> \<not> is_surrogate c"

definition utf8_char :: "nat \<Rightarrow> bytes" where
  "utf8_char c =
     (if c < 0x80 then [of_nat c]
      else if c < 0x800 then [of_nat (0xC0 + c div 64), of_nat (0x80 + c mod 64)]
      else if c < 0x10000
        then [of_nat (0xE0 + c div 4096), of_nat (0x80 + c div 64 mod 64),
              of_nat (0x80 + c mod 64)]
      else [of_nat (0xF0 + c div 262144), of_nat (0x80 + c div 4096 mod 64),
            of_nat (0x80 + c div 64 mod 64), of_nat (0x80 + c mod 64)])"

definition utf8_bytes :: "pystr \<Rightarrow> bytes" where
  "utf8_bytes s = concat (map utf8_char s)"

definition encode_utf8 :: "pystr \<Rightarrow> bytes res" where
  "encode_utf8 s =
     (if list_ex is_surrogate s then Inl UnicodeEncodeError else Inr (utf8_bytes s))"

lemma utf8_bytes_Nil [simp]: "utf8_bytes [] = []"
  by (simp add: utf8_bytes_def)

lemma utf8_bytes_Cons [simp]: "utf8_bytes (c # s) = utf8_char c @ utf8_bytes s"
  by (simp add: utf8_bytes_def)

lemma utf8_bytes_append [simp]: "utf8_bytes (s @ t) = utf8_bytes s @ utf8_bytes t"
  by (simp add: utf8_bytes_def)

lemma utf8_char_nonempty [simp]: "utf8_char c \<noteq> []"
  by (simp add: utf8_char_def)

lemma utf8_bytes_eq_Nil [simp]: "utf8_bytes s = [] \<longleftrightarrow> s = []"
  by (cases s) auto

lemma encode_utf8_append:
  "encode_utf8 (s @ t) =
     (case encode_utf8 s of Inl e \<Rightarrow> Inl e
      | Inr a \<Rightarrow> (case encode_utf8 t of Inl e \<Rightarrow> Inl e | Inr b \<Rightarrow> Inr (a @ b)))"
  by (simp add: encode_utf8_def)

lemma encode_utf8_Inr_iff: "encode_utf8 s = Inr b \<longleftrightarrow> \<not> list_ex is_surrogate s \<and> b = utf8_bytes s"
  by (auto simp: encode_utf8_def)

section \<open>Decoding\<close>

datatype utf8_item = Cp nat nat | Bad nat

definition cont_byte :: "byte \<Rightarrow> bool" where
  "cont_byte b \<longleftrightarrow> 0x80 \<le> unat b \<and> unat b < 0xC0"

fun utf8_item2 :: "nat \<Rightarrow> bytes \<Rightarrow> utf8_item" where
  "utf8_item2 c [] = Bad 1"
| "utf8_item2 c (b1 # bs) =
     (if \<not> cont_byte b1 then Bad 1
      else Cp ((c - 0xC0) * 64 + (unat b1 - 0x80)) 2)"

fun utf8_item3 :: "nat \<Rightarrow> bytes \<Rightarrow> utf8_item" where
  "utf8_item3 c [] = Bad 1"
| "utf8_item3 c (b1 # bs) =
     (if \<not> cont_byte b1 \<or> (if unat b1 < 0xA0 then c = 0xE0 else c = 0xED) then Bad 1
      else (case bs of [] \<Rightarrow> Bad 2
        | b2 # _ \<Rightarrow>
            if \<not> cont_byte b2 then Bad 2
            else Cp ((c - 0xE0) * 4096 + (unat b1 - 0x80) * 64 + (unat b2 - 0x80)) 3))"

fun utf8_item4 :: "nat \<Rightarrow> bytes \<Rightarrow> utf8_item" where
  "utf8_item4 c [] = Bad 1"
| "utf8_item4 c (b1 # bs) =
     (if \<not> cont_byte b1 \<or> (if unat b1 < 0x90 then c = 0xF0 else c = 0xF4) then Bad 1
      else (case bs of [] \<Rightarrow> Bad 2
        | b2 # bs2 \<Rightarrow>
            if \<not> cont_byte b2 then Bad 2
            else (case bs2 of [] \<Rightarrow> Bad 3
              | b3 # _ \<Rightarrow>
                  if \<not> cont_byte b3 then Bad 3
                  else Cp ((c - 0xF0) * 262144 + (unat b1 - 0x80) * 4096
                           + (unat b2 - 0x80) * 64 + (unat b3 - 0x80)) 4)))"

text \<open>One item from a non-empty input.\<close>

fun utf8_step :: "byte \<Rightarrow> bytes \<Rightarrow> utf8_item" where
  "utf8_step b0 bs =
     (let c = unat b0 in
      if c < 0x80 then Cp c 1
      else if c < 0xC2 then Bad 1
      else if c < 0xE0 then utf8_item2 c bs
      else if c < 0xF0 then utf8_item3 c bs
      else if c < 0xF5 then utf8_item4 c bs
      else Bad 1)"

fun item_size :: "utf8_item \<Rightarrow> nat" where
  "item_size (Cp c n) = n"
| "item_size (Bad n) = n"

lemma item_size_pos: "0 < item_size (utf8_step b bs)"
proof -
  have 2: "0 < item_size (utf8_item2 c bs)" for c by (cases bs) auto
  have 3: "0 < item_size (utf8_item3 c bs)" for c by (cases bs) (auto split: list.splits)
  have 4: "0 < item_size (utf8_item4 c bs)" for c by (cases bs) (auto split: list.splits)
  show ?thesis using 2 3 4 by (simp add: Let_def)
qed

lemma item_size_ge1: "1 \<le> item_size (utf8_step b bs)"
  using item_size_pos [of b bs] by linarith

declare utf8_step.simps [simp del]

function decode_items :: "bytes \<Rightarrow> utf8_item list" where
  "decode_items [] = []"
| "decode_items (b # bs) =
     (let it = utf8_step b bs in it # decode_items (drop (item_size it - 1) bs))"
  by pat_completeness auto
termination
  by (relation "measure length") auto

fun item_cp :: "utf8_item \<Rightarrow> nat" where
  "item_cp (Cp c n) = c"
| "item_cp (Bad n) = 0xFFFD"

fun is_cp :: "utf8_item \<Rightarrow> bool" where
  "is_cp (Cp c n) = True"
| "is_cp (Bad n) = False"

definition decode_utf8 :: "bytes \<Rightarrow> pystr res" where
  "decode_utf8 bs =
     (if list_all is_cp (decode_items bs) then Inr (map item_cp (decode_items bs))
      else Inl UnicodeDecodeError)"

definition decode_replace :: "bytes \<Rightarrow> pystr" where
  "decode_replace bs = map item_cp (decode_items bs)"

lemma decode_replace_strict: "decode_utf8 bs = Inr s \<Longrightarrow> decode_replace bs = s"
  by (auto simp: decode_utf8_def decode_replace_def split: if_splits)

section \<open>Round trip\<close>

text \<open>The bytes of an encoding, read back; stated in the form the simplifier leaves.\<close>

lemma unat_lead:
  "n < 32 \<Longrightarrow> unat (0xC0 + of_nat n :: byte) = 0xC0 + n"
  "n < 16 \<Longrightarrow> unat (0xE0 + of_nat n :: byte) = 0xE0 + n"
  "n < 8 \<Longrightarrow> unat (0xF0 + of_nat n :: byte) = 0xF0 + n"
  using unat_of_nat_byte [of "0xC0 + n"] unat_of_nat_byte [of "0xE0 + n"]
    unat_of_nat_byte [of "0xF0 + n"] by simp_all

lemma unat_cont: "n < 64 \<Longrightarrow> unat (0x80 + of_nat n :: byte) = 0x80 + n"
  using unat_of_nat_byte [of "0x80 + n"] by simp

lemma cont_byte_cont: "n < 64 \<Longrightarrow> cont_byte (0x80 + of_nat n)"
  by (simp add: cont_byte_def unat_cont)

lemma digits_64:
  "c div 64 * 64 + c mod 64 = (c::nat)"
  "c div 4096 * 4096 + c div 64 mod 64 * 64 + c mod 64 = c"
  "c div 262144 * 262144 + c div 4096 mod 64 * 4096 + c div 64 mod 64 * 64 + c mod 64 = c"
proof -
  have 1: "c div 4096 = c div 64 div 64" and 2: "c div 262144 = c div 64 div 64 div 64"
    by (simp_all flip: div_mult2_eq)
  define a where "a = c div 64"
  define b where "b = a div 64"
  have *: "c = a * 64 + c mod 64" "a = b * 64 + a mod 64" "b = b div 64 * 64 + b mod 64"
    by (simp_all add: a_def b_def)
  show "c div 64 * 64 + c mod 64 = c" by simp
  show "c div 4096 * 4096 + c div 64 mod 64 * 64 + c mod 64 = c"
    unfolding 1 a_def [symmetric] b_def [symmetric] using * by linarith
  show "c div 262144 * 262144 + c div 4096 mod 64 * 4096 + c div 64 mod 64 * 64 + c mod 64 = c"
    unfolding 1 2 a_def [symmetric] b_def [symmetric] using * by linarith
qed

lemmas utf8_bytes_read = unat_lead unat_cont cont_byte_cont utf8_step.simps Let_def

lemma utf8_step_char:
  assumes "is_scalar c" and "utf8_char c = b # bs"
  shows "utf8_step b (bs @ rest) = Cp c (length (utf8_char c))"
proof -
  have c: "c < 0x110000" "\<not> (0xD800 \<le> c \<and> c \<le> 0xDFFF)"
    using assms(1) by (auto simp: is_scalar_def is_surrogate_def)
  consider "c < 0x80" | "0x80 \<le> c" "c < 0x800" | "0x800 \<le> c" "c < 0x10000" | "0x10000 \<le> c"
    by linarith
  then show ?thesis
  proof cases
    case 1
    then show ?thesis using assms(2) by (auto simp: utf8_char_def utf8_bytes_read unat_of_nat)
  next
    case 2
    then have "c div 64 < 32" "2 \<le> c div 64" by auto
    with 2 show ?thesis using assms(2) digits_64(1) [of c]
      by (auto simp: utf8_char_def utf8_bytes_read)
  next
    case 3
    then have "c div 4096 < 16" by auto
    moreover have "c div 4096 = 0 \<Longrightarrow> 32 \<le> c div 64 mod 64"
      using 3 digits_64(2) [of c] by auto
    moreover have "c div 4096 = 13 \<Longrightarrow> c div 64 mod 64 < 32"
      using 3 c digits_64(2) [of c] by auto
    ultimately show ?thesis using 3 assms(2) digits_64(2) [of c]
      by (auto simp: utf8_char_def utf8_bytes_read)
  next
    case 4
    then have "c div 262144 < 8" "c div 262144 \<le> 4" using c by auto
    moreover have "0 < c div 262144" if "c div 4096 mod 64 < 16"
    proof (rule ccontr)
      assume "\<not> 0 < c div 262144"
      with that 4 digits_64(3) [of c] show False by auto
    qed
    moreover have "c div 262144 = 4 \<Longrightarrow> c div 4096 mod 64 < 16"
      using 4 c digits_64(3) [of c] by auto
    ultimately show ?thesis using 4 assms(2) digits_64(3) [of c]
      by (auto simp: utf8_char_def utf8_bytes_read)
  qed
qed

lemma decode_items_char:
  assumes "is_scalar c"
  shows "decode_items (utf8_char c @ rest) = Cp c (length (utf8_char c)) # decode_items rest"
proof -
  obtain b bs where b: "utf8_char c = b # bs"
    by (cases "utf8_char c") auto
  from utf8_step_char [OF assms b, of rest] b show ?thesis by simp
qed

lemma decode_items_bytes:
  "list_all is_scalar s \<Longrightarrow>
     decode_items (utf8_bytes s) = map (\<lambda>c. Cp c (length (utf8_char c))) s"
  by (induction s) (auto simp: decode_items_char)

lemma scalar_pystr: "wf_pystr s \<Longrightarrow> \<not> list_ex is_surrogate s \<Longrightarrow> list_all is_scalar s"
  by (auto simp: wf_pystr_def is_scalar_def list_all_iff list_ex_iff)

lemma decode_utf8_bytes:
  assumes "list_all is_scalar s"
  shows "decode_utf8 (utf8_bytes s) = Inr s" and "decode_replace (utf8_bytes s) = s"
  using assms by (auto simp: decode_utf8_def decode_replace_def decode_items_bytes list_all_iff
      comp_def)

lemma decode_encode:
  assumes "wf_pystr s" and "encode_utf8 s = Inr b"
  shows "decode_utf8 b = Inr s" and "decode_replace b = s"
  using assms decode_utf8_bytes scalar_pystr by (auto simp: encode_utf8_Inr_iff)

section \<open>What the decoder returns\<close>

text \<open>Every code point read is one that UTF-8 can carry, and so is U+FFFD.\<close>

lemma cont_byte_lt: "cont_byte b \<Longrightarrow> unat b - 0x80 < 64"
  unfolding cont_byte_def by linarith

lemma utf8_item2_scalar:
  assumes "utf8_item2 c bs = Cp d n" and "c < 0xE0"
  shows "is_scalar d"
  using assms by (cases bs) (auto simp: is_scalar_def is_surrogate_def dest!: cont_byte_lt split: if_splits)

lemma utf8_item3_scalar:
  assumes "utf8_item3 c bs = Cp d n" and "0xE0 \<le> c" and "c < 0xF0"
  shows "is_scalar d"
proof -
  have "c \<noteq> 0xED \<Longrightarrow> c - 0xE0 \<le> 12 \<or> 14 \<le> c - 0xE0" using assms(2,3) by linarith
  then show ?thesis
    using assms by (cases bs; cases "c = 0xED")
      (auto simp: is_scalar_def is_surrogate_def cont_byte_def split: if_splits list.splits)
qed

lemma utf8_item4_scalar:
  assumes "utf8_item4 c bs = Cp d n" and "0xF0 \<le> c" and "c < 0xF5"
  shows "is_scalar d"
  using assms by (cases bs) (auto simp: is_scalar_def is_surrogate_def cont_byte_def split: if_splits list.splits)

lemma utf8_step_scalar: "is_scalar (item_cp (utf8_step b bs))"
proof (cases "utf8_step b bs")
  case (Cp d n)
  then show ?thesis
    using utf8_item2_scalar utf8_item3_scalar utf8_item4_scalar
    by (auto simp: utf8_step.simps Let_def not_less is_scalar_def is_surrogate_def split: if_splits)
qed (simp add: is_scalar_def is_surrogate_def)

lemma decode_items_scalar: "list_all is_scalar (map item_cp (decode_items bs))"
  by (induction bs rule: decode_items.induct) (simp_all add: Let_def utf8_step_scalar)

lemma decode_scalar:
  "list_all is_scalar (decode_replace bs)" "decode_utf8 bs = Inr t \<Longrightarrow> list_all is_scalar t"
  using decode_items_scalar [of bs] by (auto simp: decode_replace_def decode_utf8_def split: if_splits)

lemma decode_replace_eq_Nil [simp]: "decode_replace bs = [] \<longleftrightarrow> bs = []"
  by (cases bs) (simp_all add: decode_replace_def Let_def)

lemma scalar_not_surrogate: "list_all is_scalar s \<Longrightarrow> \<not> list_ex is_surrogate s"
  by (auto simp: is_scalar_def list_all_iff list_ex_iff)

section \<open>ASCII in UTF-8\<close>

text \<open>
  An ASCII character is one byte, equal to it, and no byte of another character is below
  0x80.  So a search for an ASCII separator in encoded text finds what a search in the text
  finds.
\<close>

lemma utf8_char_ascii: "c < 0x80 \<Longrightarrow> utf8_char c = [of_nat c]"
  by (simp add: utf8_char_def)

lemma utf8_char_high:
  assumes "0x80 \<le> c" and "is_scalar c" and "b \<in> set (utf8_char c)"
  shows "0x80 \<le> unat b"
proof -
  have "c div 64 < 32" if "c < 0x800" using that by auto
  moreover have "c div 4096 < 16" if "c < 0x10000" using that by auto
  moreover have "c div 262144 < 8" using assms(2) by (auto simp: is_scalar_def)
  ultimately show ?thesis
    using assms(1,3) by (auto simp: utf8_char_def unat_lead unat_cont split: if_splits)
qed

lemma utf8_bytes_str_lit: "list_all (\<lambda>c. of_char c < (0x80::nat)) l \<Longrightarrow> utf8_bytes (str_lit l) = b_lit l"
  by (induction l) (auto simp: str_lit_def b_lit_def utf8_char_ascii of_nat_of_char)

end
