(* ===== verification/KL_TcpClient.thy ===== *)
theory KL_TcpClient
  imports KL_Utf8
begin

text \<open>
  \<^verbatim>\<open>tcpclient.py\<close>: the framing client that every role of the SDK is built on.  The
  first sections give the socket and the state of a \<^verbatim>\<open>TcpClient\<close>, then one definition
  per method in the order of the file.  What they compute is shown in \<^verbatim>\<open>KL_Framing\<close> and
  \<^verbatim>\<open>KL_Connection\<close>.

  Calls into the operating system have outcomes the program does not choose: whether a
  \<^verbatim>\<open>connect\<close> succeeds, how far a \<^verbatim>\<open>sendall\<close> gets, what a \<^verbatim>\<open>recv\<close> returns.  They
  are arguments of the definitions (\<open>bool\<close>, \<open>send_result\<close>, \<open>recv_result\<close>), so every
  theorem holds for all of them.
\<close>

section \<open>Sockets\<close>

datatype sock_state = Sock_New | Sock_Connected | Sock_Closed

text \<open>\<open>sk_sent\<close> is the byte stream handed to the peer so far.\<close>

record py_socket =
  sk_state :: sock_state
  sk_sent :: bytes

datatype send_result = Send_Ok | Send_Fail nat

datatype recv_result = Recv_Data bytes | Recv_Error

definition new_socket :: py_socket where
  "new_socket = \<lparr>sk_state = Sock_New, sk_sent = []\<rparr>"

text \<open>A socket that is connected or closed cannot be connected (again): \<^verbatim>\<open>OSError\<close>.\<close>

definition sock_connect :: "bool \<Rightarrow> py_socket \<Rightarrow> unit res \<times> py_socket" where
  "sock_connect ok sk =
     (if sk_state sk = Sock_New \<and> ok then (Inr (), sk\<lparr>sk_state := Sock_Connected\<rparr>)
      else (Inl OSError, sk))"

text \<open>\<^verbatim>\<open>sendall\<close>: everything is sent, or an error is raised after some part of it.\<close>

definition sock_sendall :: "send_result \<Rightarrow> bytes \<Rightarrow> py_socket \<Rightarrow> unit res \<times> py_socket" where
  "sock_sendall r data sk =
     (if sk_state sk \<noteq> Sock_Connected then (Inl OSError, sk)
      else (case r of
          Send_Ok \<Rightarrow> (Inr (), sk\<lparr>sk_sent := sk_sent sk @ data\<rparr>)
        | Send_Fail n \<Rightarrow> (Inl OSError, sk\<lparr>sk_sent := sk_sent sk @ take n data\<rparr>)))"

definition sock_recv :: "recv_result \<Rightarrow> py_socket \<Rightarrow> recv_result" where
  "sock_recv r sk = (if sk_state sk = Sock_Connected then r else Recv_Error)"

definition sock_close :: "py_socket \<Rightarrow> py_socket" where
  "sock_close sk = sk\<lparr>sk_state := Sock_Closed\<rparr>"

section \<open>State\<close>

text \<open>
  The values \<^verbatim>\<open>received_data_callback\<close> takes: the bound method each role installs, or a
  function of an application that uses the client directly.
\<close>

datatype bound_method =
    SignalSubscriber_data_recv
  | OpenSocketResponser_internal_data_recv
  | OpenSocketQuerier_internal_data_recv
  | External_callback nat

text \<open>
  The attributes of the class, then what the runtime keeps for it: the pending timers by
  number, the next free number, and how many receive threads were started.  Events, the
  lock and the interval timer are standard-library objects: the event is a flag, the lock
  only delimits atomic sections, and a started timer is a number in \<open>timers\<close> until it
  fires or is cancelled.
\<close>

record tcp_client =
  tcp_socket :: py_socket
  heart_beat_interval :: nat
  heart_beat_timer :: "nat option"
  connected_event :: bool
  received_data_callback :: "bound_method option"
  buffer :: bytes
  MAX_MSG_SIZE :: nat
  server_addr :: "(pystr \<times> nat) option"
  timers :: "nat list"
  next_timer :: nat
  receivers :: nat

definition MAGIC :: bytes where
  "MAGIC = [0x4B, 0x4B, 0x00, 0x02]"

abbreviation MAGIC_LEN :: nat where
  "MAGIC_LEN \<equiv> 4"

abbreviation HEADER_LEN :: nat where
  "HEADER_LEN \<equiv> 8"

definition HEARTBEAT :: bytes where
  "HEARTBEAT = b_lit ''heartbeat''"

definition HEARTBEAT_RESPONSE :: bytes where
  "HEARTBEAT_RESPONSE = b_lit ''heartbeat_response''"

definition new_client :: tcp_client where
  "new_client =
     \<lparr>tcp_socket = new_socket, heart_beat_interval = 180, heart_beat_timer = None,
      connected_event = False, received_data_callback = None, buffer = [],
      MAX_MSG_SIZE = 16 * 1024 * 1024, server_addr = None,
      timers = [], next_timer = 0, receivers = 0\<rparr>"

definition connected :: "tcp_client \<Rightarrow> bool" where
  "connected c = connected_event c"

definition set_connected :: "bool \<Rightarrow> tcp_client \<Rightarrow> tcp_client" where
  "set_connected value c = c\<lparr>connected_event := value\<rparr>"

section \<open>Operations\<close>

definition start_heart_beat :: "tcp_client \<Rightarrow> tcp_client" where
  "start_heart_beat c =
     (if \<not> connected c then c
      else c\<lparr>heart_beat_timer := Some (next_timer c),
             timers := timers c @ [next_timer c],
             next_timer := Suc (next_timer c)\<rparr>)"

text \<open>
  \<^verbatim>\<open>socket.error\<close> is the only exception of the connection attempt, and it is caught.
\<close>

definition connect_to_server :: "bool \<Rightarrow> pystr \<Rightarrow> nat \<Rightarrow> tcp_client \<Rightarrow> tcp_client" where
  "connect_to_server ok ip port c =
     (let c0 = c\<lparr>server_addr := Some (ip, port)\<rparr> in
      case sock_connect ok (tcp_socket c0) of
        (Inl e, sk) \<Rightarrow> c0\<lparr>tcp_socket := sk\<rparr>
      | (Inr _, sk) \<Rightarrow>
          (let c1 = set_connected True (c0\<lparr>tcp_socket := sk\<rparr>);
               c2 = start_heart_beat c1
           in c2\<lparr>receivers := Suc (receivers c2)\<rparr>))"

definition write_with_length_prefix ::
  "send_result \<Rightarrow> bytes \<Rightarrow> tcp_client \<Rightarrow> unit res \<times> tcp_client" where
  "write_with_length_prefix r data c =
     (if \<not> connected c then (Inr (), c)
      else if length data > MAX_MSG_SIZE c then (Inl ValueError, c)
      else (case struct_pack_I (length data) of
          Inl e \<Rightarrow> (Inl e, c)
        | Inr len \<Rightarrow>
            (case sock_sendall r ((MAGIC @ len) @ data) (tcp_socket c) of
               (Inr _, sk) \<Rightarrow> (Inr (), c\<lparr>tcp_socket := sk\<rparr>)
             | (Inl e, sk) \<Rightarrow>
                 (if is_socket_error e
                  then (Inr (), set_connected False (c\<lparr>tcp_socket := sk\<rparr>))
                  else (Inl e, c\<lparr>tcp_socket := sk\<rparr>)))))"

definition send_data :: "send_result \<Rightarrow> bytes \<Rightarrow> tcp_client \<Rightarrow> unit res \<times> tcp_client" where
  "send_data r data c = write_with_length_prefix r data c"

definition send_heart_beat :: "send_result \<Rightarrow> tcp_client \<Rightarrow> unit res \<times> tcp_client" where
  "send_heart_beat r c =
     (if connected c
      then (case write_with_length_prefix r HEARTBEAT c of
              (Inl e, c1) \<Rightarrow> (Inl e, c1)
            | (Inr _, c1) \<Rightarrow> (Inr (), start_heart_beat c1))
      else (Inr (), c))"

text \<open>The runtime fires a pending timer once: its thread runs \<^verbatim>\<open>send_heart_beat\<close>.\<close>

definition fire_timer :: "send_result \<Rightarrow> nat \<Rightarrow> tcp_client \<Rightarrow> unit res \<times> tcp_client" where
  "fire_timer r t c =
     (if t \<in> set (timers c) then send_heart_beat r (c\<lparr>timers := remove1 t (timers c)\<rparr>)
      else (Inr (), c))"

definition disconnect :: "tcp_client \<Rightarrow> tcp_client" where
  "disconnect c =
     (let c1 = set_connected False c;
          c2 = (case heart_beat_timer c1 of
                  None \<Rightarrow> c1
                | Some t \<Rightarrow> c1\<lparr>timers := remove1 t (timers c1), heart_beat_timer := None\<rparr>)
      in c2\<lparr>tcp_socket := sock_close (tcp_socket c2)\<rparr>)"

subsection \<open>Receiving\<close>

text \<open>
  The receive side runs inside an object that owns the client and whose method is called
  back, so it is a function of that object: \<open>get\<close> reads the client of the owner, \<open>upd\<close>
  changes it, and \<open>call m data\<close> runs the callback \<open>m\<close> on the owner, which may raise.
\<close>

definition handle_received_data ::
  "('o \<Rightarrow> tcp_client) \<Rightarrow> (bound_method \<Rightarrow> bytes \<Rightarrow> 'o \<Rightarrow> unit res \<times> 'o) \<Rightarrow>
   bytes \<Rightarrow> 'o \<Rightarrow> unit res \<times> 'o" where
  "handle_received_data get call data s =
     (case received_data_callback (get s) of
        None \<Rightarrow> (Inr (), s)
      | Some m \<Rightarrow> call m data s)"

text \<open>What the two error branches of the loop do before they return.\<close>

definition drop_connection :: "tcp_client \<Rightarrow> tcp_client" where
  "drop_connection c =
     (let c1 = set_connected False c in c1\<lparr>tcp_socket := sock_close (tcp_socket c1)\<rparr>)"

text \<open>
  The \<^verbatim>\<open>while True\<close> loop.  A callback is arbitrary code, so nothing in the loop itself
  bounds it: the result is an option, and \<open>None\<close> is a loop that never ends.
\<close>

partial_function (option) process_buffer ::
  "('o \<Rightarrow> tcp_client) \<Rightarrow> ((tcp_client \<Rightarrow> tcp_client) \<Rightarrow> 'o \<Rightarrow> 'o) \<Rightarrow>
   (bound_method \<Rightarrow> bytes \<Rightarrow> 'o \<Rightarrow> unit res \<times> 'o) \<Rightarrow> 'o \<Rightarrow> (unit res \<times> 'o) option" where
  "process_buffer get upd call s =
     (let buf = buffer (get s) in
      if length buf < HEADER_LEN then Some (Inr (), s)
      else if take MAGIC_LEN buf \<noteq> MAGIC then Some (Inr (), upd drop_connection s)
      else (case struct_unpack_I (take (HEADER_LEN - MAGIC_LEN) (drop MAGIC_LEN buf)) of
          Inl e \<Rightarrow> Some (Inl e, s)
        | Inr len \<Rightarrow>
            if len = 0 \<or> len > MAX_MSG_SIZE (get s) then Some (Inr (), upd drop_connection s)
            else if length buf < HEADER_LEN + len then Some (Inr (), s)
            else (let msg = take len (drop HEADER_LEN buf);
                      s1 = upd (\<lambda>c. c\<lparr>buffer := drop (HEADER_LEN + len) buf\<rparr>) s
                  in if msg = HEARTBEAT_RESPONSE then process_buffer get upd call s1
                     else (case handle_received_data get call msg s1 of
                             (Inl e, s2) \<Rightarrow> Some (Inl e, s2)
                           | (Inr _, s2) \<Rightarrow> process_buffer get upd call s2))))"

text \<open>How one pass of the receive loop ends: go on, leave the loop, or die of an exception.\<close>

datatype loop_outcome = Continue | Exit | Raise exn

text \<open>The handler \<^verbatim>\<open>except socket.error\<close> of the loop.\<close>

definition receive_error ::
  "('o \<Rightarrow> tcp_client) \<Rightarrow> ((tcp_client \<Rightarrow> tcp_client) \<Rightarrow> 'o \<Rightarrow> 'o) \<Rightarrow> 'o \<Rightarrow> loop_outcome \<times> 'o" where
  "receive_error get upd s =
     (if \<not> connected (get s) then (Exit, s) else (Exit, upd (set_connected False) s))"

text \<open>The body of the loop, for one outcome of \<^verbatim>\<open>recv\<close>.\<close>

definition receive_body ::
  "('o \<Rightarrow> tcp_client) \<Rightarrow> ((tcp_client \<Rightarrow> tcp_client) \<Rightarrow> 'o \<Rightarrow> 'o) \<Rightarrow>
   (bound_method \<Rightarrow> bytes \<Rightarrow> 'o \<Rightarrow> unit res \<times> 'o) \<Rightarrow> recv_result \<Rightarrow> 'o \<Rightarrow>
   (loop_outcome \<times> 'o) option" where
  "receive_body get upd call r s =
     (case sock_recv r (tcp_socket (get s)) of
        Recv_Error \<Rightarrow> Some (receive_error get upd s)
      | Recv_Data chunk \<Rightarrow>
          (if chunk = [] then Some (Exit, upd (set_connected False) s)
           else (case process_buffer get upd call
                        (upd (\<lambda>c. c\<lparr>buffer := buffer c @ chunk\<rparr>) s) of
                   None \<Rightarrow> None
                 | Some (Inr _, s1) \<Rightarrow> Some (Continue, s1)
                 | Some (Inl e, s1) \<Rightarrow>
                     Some (if is_socket_error e then receive_error get upd s1
                           else (Raise e, s1)))))"

text \<open>
  The receive thread on a list of \<^verbatim>\<open>recv\<close> outcomes.  \<open>Continue\<close> at the end of the
  list is a thread that waits in the next \<^verbatim>\<open>recv\<close>.
\<close>

fun receive_data ::
  "('o \<Rightarrow> tcp_client) \<Rightarrow> ((tcp_client \<Rightarrow> tcp_client) \<Rightarrow> 'o \<Rightarrow> 'o) \<Rightarrow>
   (bound_method \<Rightarrow> bytes \<Rightarrow> 'o \<Rightarrow> unit res \<times> 'o) \<Rightarrow> recv_result list \<Rightarrow> 'o \<Rightarrow>
   (loop_outcome \<times> 'o) option" where
  "receive_data get upd call [] s =
     Some (if connected (get s) then Continue else Exit, s)"
| "receive_data get upd call (r # rs) s =
     (if \<not> connected (get s) then Some (Exit, s)
      else (case receive_body get upd call r s of
              None \<Rightarrow> None
            | Some (Continue, s1) \<Rightarrow> receive_data get upd call rs s1
            | Some (Exit, s1) \<Rightarrow> Some (Exit, s1)
            | Some (Raise e, s1) \<Rightarrow> Some (Raise e, s1)))"

end
