(* ===== verification/KL_Framing.thy ===== *)
theory KL_Framing
  imports KL_TcpClient
begin

text \<open>
  The wire format and the receive side.  \<open>frame\<close> is the encoding of one message and
  \<open>parse_stream\<close> a reference parser: a pure, total function from a byte stream to the
  messages in it, the bytes left over, and why it stopped.  The buffer loop of
  \<^verbatim>\<open>tcpclient.py\<close> is shown to refine it for every owner object, through the interface
  \<open>client_lens\<close>, and from that follow the round trip and the independence of how the
  stream is cut into chunks.
\<close>

section \<open>Frames\<close>

definition frame :: "bytes \<Rightarrow> bytes" where
  "frame m = MAGIC @ (case struct_pack_I (length m) of Inl _ \<Rightarrow> [] | Inr len \<Rightarrow> len) @ m"

definition valid_msg :: "nat \<Rightarrow> bytes \<Rightarrow> bool" where
  "valid_msg mx m \<longleftrightarrow> 0 < length m \<and> length m \<le> mx"

definition frames :: "bytes list \<Rightarrow> bytes" where
  "frames ms = concat (map frame ms)"

datatype frame_result = Incomplete | Invalid | Frame bytes bytes

text \<open>The first frame of a stream.\<close>

definition next_frame :: "nat \<Rightarrow> bytes \<Rightarrow> frame_result" where
  "next_frame mx buf =
     (if length buf < HEADER_LEN then Incomplete
      else if take MAGIC_LEN buf \<noteq> MAGIC then Invalid
      else (case struct_unpack_I (take 4 (drop MAGIC_LEN buf)) of
          Inl _ \<Rightarrow> Invalid
        | Inr len \<Rightarrow>
            if len = 0 \<or> len > mx then Invalid
            else if length buf < HEADER_LEN + len then Incomplete
            else Frame (take len (drop HEADER_LEN buf)) (drop (HEADER_LEN + len) buf)))"

lemma length_MAGIC [simp]: "length MAGIC = 4"
  by (simp add: MAGIC_def)

lemma frames_simps [simp]:
  "frames [] = []" "frames (m # ms) = frame m @ frames ms" "frames (ms @ ms') = frames ms @ frames ms'"
  by (simp_all add: frames_def)

lemma frame_pack: "length m < 2 ^ 32 \<Longrightarrow>
    \<exists>len. struct_pack_I (length m) = Inr len \<and> length len = 4 \<and> frame m = MAGIC @ len @ m"
  using struct_pack_unpack(1) by (auto simp: frame_def struct_pack_I_def)

lemma frame_nonempty [simp]: "frame m \<noteq> []"
  by (simp add: frame_def MAGIC_def)

lemma length_frame: "length m < 2 ^ 32 \<Longrightarrow> length (frame m) = HEADER_LEN + length m"
  using frame_pack [of m] by auto

lemma next_frame_frame:
  assumes "mx < 2 ^ 32" and "valid_msg mx m"
  shows "next_frame mx (frame m @ rest) = Frame m rest"
proof -
  have m: "0 < length m" "length m \<le> mx" "length m < 2 ^ 32"
    using assms by (auto simp: valid_msg_def)
  then obtain len where len: "struct_pack_I (length m) = Inr len" "length len = 4"
      "frame m = MAGIC @ len @ m"
    using frame_pack by blast
  with m show ?thesis
    by (simp add: next_frame_def struct_pack_unpack(2) [OF len(1)])
qed

lemma next_frame_Frame:
  assumes "next_frame mx buf = Frame m rest"
  shows "buf = frame m @ rest" and "valid_msg mx m" and "length m < 2 ^ 32"
proof -
  obtain len where len: "struct_unpack_I (take 4 (drop 4 buf)) = Inr len"
      "take 4 buf = MAGIC" "0 < len" "len \<le> mx" "8 + len \<le> length buf"
      "m = take len (drop 8 buf)" "rest = drop (8 + len) buf"
    using assms by (auto simp: next_frame_def split: if_splits sum.splits)
  have l: "length m = len" using len by simp
  show "valid_msg mx m" using l len by (simp add: valid_msg_def)
  show "length m < 2 ^ 32" using l struct_unpack_bound [OF len(1)] by simp
  have "frame m = take 4 buf @ take 4 (drop 4 buf) @ take len (drop 8 buf)"
    using struct_unpack_pack [OF len(1)] l len by (simp add: frame_def)
  also have "\<dots> = take (8 + len) buf"
    using take_add [of 4 4 buf] take_add [of 8 len buf] by simp
  finally show "buf = frame m @ rest" using len(7) by simp
qed

lemma next_frame_append:
  "next_frame mx a = Frame m rest \<Longrightarrow> next_frame mx (a @ b) = Frame m (rest @ b)"
  "next_frame mx a = Invalid \<Longrightarrow> next_frame mx (a @ b) = Invalid"
  by (auto simp: next_frame_def split: if_splits sum.splits)

section \<open>The reference parser\<close>

datatype parse_end = Need_More | Bad_Frame

function parse_stream :: "nat \<Rightarrow> bytes \<Rightarrow> bytes list \<times> bytes \<times> parse_end" where
  "parse_stream mx buf =
     (case next_frame mx buf of
        Incomplete \<Rightarrow> ([], buf, Need_More)
      | Invalid \<Rightarrow> ([], buf, Bad_Frame)
      | Frame m rest \<Rightarrow> (let (ms, left, e) = parse_stream mx rest in (m # ms, left, e)))"
  by pat_completeness auto
termination
proof (relation "measure (\<lambda>(mx, buf). length buf)", goal_cases)
  case (2 mx buf m rest)
  from next_frame_Frame(1,3) [OF this] show ?case by (simp add: length_frame)
qed simp

declare parse_stream.simps [simp del]

lemma parse_stream_unfold:
  "next_frame mx buf = Incomplete \<Longrightarrow> parse_stream mx buf = ([], buf, Need_More)"
  "next_frame mx buf = Invalid \<Longrightarrow> parse_stream mx buf = ([], buf, Bad_Frame)"
  "next_frame mx buf = Frame m rest \<Longrightarrow>
     parse_stream mx buf = (let (ms, left, e) = parse_stream mx rest in (m # ms, left, e))"
  by (subst parse_stream.simps; simp)+

lemma parse_stream_sound:
  "parse_stream mx buf = (ms, left, e) \<Longrightarrow>
     buf = frames ms @ left \<and> list_all (valid_msg mx) ms \<and>
     next_frame mx left = (case e of Need_More \<Rightarrow> Incomplete | Bad_Frame \<Rightarrow> Invalid)"
proof (induction mx buf arbitrary: ms rule: parse_stream.induct)
  case (1 mx buf)
  show ?case
  proof (cases "next_frame mx buf")
    case (Frame m rest)
    obtain ms' where p: "parse_stream mx rest = (ms', left, e)" "ms = m # ms'"
      using 1(2) Frame by (auto simp: parse_stream_unfold(3) [OF Frame] split: prod.splits)
    from 1(1) [OF Frame p(1)] next_frame_Frame [OF Frame] p(2) show ?thesis by simp
  qed (use 1(2) parse_stream_unfold in auto)
qed

lemma parse_stream_frames:
  assumes "mx < 2 ^ 32" and "list_all (valid_msg mx) ms"
  shows "parse_stream mx (frames ms @ left) =
           (let (ms', left', e) = parse_stream mx left in (ms @ ms', left', e))"
  using assms(2)
proof (induction ms)
  case (Cons m ms)
  then have "next_frame mx (frames (m # ms) @ left) = Frame m (frames ms @ left)"
    using next_frame_frame [OF assms(1)] by simp
  from parse_stream_unfold(3) [OF this] Cons show ?case by (auto split: prod.splits)
qed simp

lemma parse_stream_append:
  "parse_stream mx a = (ms, left, e) \<Longrightarrow>
     parse_stream mx (a @ b) =
       (case e of
          Bad_Frame \<Rightarrow> (ms, left @ b, Bad_Frame)
        | Need_More \<Rightarrow> (let (ms', left', e') = parse_stream mx (left @ b) in (ms @ ms', left', e')))"
proof (induction mx a arbitrary: ms rule: parse_stream.induct)
  case (1 mx a)
  show ?case
  proof (cases "next_frame mx a")
    case (Frame m rest)
    obtain ms' where p: "parse_stream mx rest = (ms', left, e)" "ms = m # ms'"
      using 1(2) Frame by (auto simp: parse_stream_unfold(3) [OF Frame] split: prod.splits)
    from 1(1) [OF Frame p(1)] p(2) parse_stream_unfold(3) [OF next_frame_append(1) [OF Frame]]
    show ?thesis by (auto split: prod.splits parse_end.splits)
  next
    case Invalid
    from 1(2) parse_stream_unfold(2) [OF Invalid]
      parse_stream_unfold(2) [OF next_frame_append(2) [OF Invalid, of b]]
    show ?thesis by auto
  qed (use 1(2) parse_stream_unfold(1) in auto)
qed

lemma parse_stream_lengths:
  "parse_stream mx buf = (ms, left, e) \<Longrightarrow> list_all (\<lambda>m. length m < 2 ^ 32) ms"
proof (induction mx buf arbitrary: ms rule: parse_stream.induct)
  case (1 mx buf)
  show ?case
  proof (cases "next_frame mx buf")
    case (Frame m rest)
    obtain ms' where p: "parse_stream mx rest = (ms', left, e)" "ms = m # ms'"
      using 1(2) Frame by (auto simp: parse_stream_unfold(3) [OF Frame] split: prod.splits)
    from 1(1) [OF Frame p(1)] next_frame_Frame(3) [OF Frame] p(2) show ?thesis by simp
  qed (use 1(2) parse_stream_unfold in auto)
qed

text \<open>An incomplete frame is shorter than the longest legal one.\<close>

lemma next_frame_Incomplete: "next_frame mx buf = Incomplete \<Longrightarrow> length buf < HEADER_LEN + mx"
  by (auto simp: next_frame_def split: if_splits sum.splits)

section \<open>The buffer loop refines the parser\<close>

text \<open>Handing parsed messages to the callback one by one, each taken off the buffer first.\<close>

definition consume :: "bytes \<Rightarrow> tcp_client \<Rightarrow> tcp_client" where
  "consume m c = c\<lparr>buffer := drop (HEADER_LEN + length m) (buffer c)\<rparr>"

fun deliver ::
  "('o \<Rightarrow> tcp_client) \<Rightarrow> ((tcp_client \<Rightarrow> tcp_client) \<Rightarrow> 'o \<Rightarrow> 'o) \<Rightarrow>
   (bound_method \<Rightarrow> bytes \<Rightarrow> 'o \<Rightarrow> unit res \<times> 'o) \<Rightarrow> bytes list \<Rightarrow> 'o \<Rightarrow> unit res \<times> 'o" where
  "deliver get upd call [] s = (Inr (), s)"
| "deliver get upd call (m # ms) s =
     (let s1 = upd (consume m) s in
      if m = HEARTBEAT_RESPONSE then deliver get upd call ms s1
      else (case handle_received_data get call m s1 of
              (Inl e, s2) \<Rightarrow> (Inl e, s2)
            | (Inr _, s2) \<Rightarrow> deliver get upd call ms s2))"

definition process_spec ::
  "('o \<Rightarrow> tcp_client) \<Rightarrow> ((tcp_client \<Rightarrow> tcp_client) \<Rightarrow> 'o \<Rightarrow> 'o) \<Rightarrow>
   (bound_method \<Rightarrow> bytes \<Rightarrow> 'o \<Rightarrow> unit res \<times> 'o) \<Rightarrow> 'o \<Rightarrow> unit res \<times> 'o" where
  "process_spec get upd call s =
     (let (ms, left, e) = parse_stream (MAX_MSG_SIZE (get s)) (buffer (get s)) in
      case deliver get upd call ms s of
        (Inl x, s1) \<Rightarrow> (Inl x, s1)
      | (Inr _, s1) \<Rightarrow>
          (Inr (), case e of Need_More \<Rightarrow> s1 | Bad_Frame \<Rightarrow> upd drop_connection s1))"

text \<open>What a callback must leave alone: the private buffer and the size limit.\<close>

definition keeps_buffer ::
  "('o \<Rightarrow> tcp_client) \<Rightarrow> (bound_method \<Rightarrow> bytes \<Rightarrow> 'o \<Rightarrow> unit res \<times> 'o) \<Rightarrow> bool" where
  "keeps_buffer get call \<longleftrightarrow>
     (\<forall>m d s. buffer (get (snd (call m d s))) = buffer (get s)
            \<and> MAX_MSG_SIZE (get (snd (call m d s))) = MAX_MSG_SIZE (get s))"

lemma process_buffer_step:
  "process_buffer get upd call s =
     (case next_frame (MAX_MSG_SIZE (get s)) (buffer (get s)) of
        Incomplete \<Rightarrow> Some (Inr (), s)
      | Invalid \<Rightarrow> Some (Inr (), upd drop_connection s)
      | Frame m rest \<Rightarrow>
          (let s1 = upd (\<lambda>c. c\<lparr>buffer := rest\<rparr>) s in
           if m = HEARTBEAT_RESPONSE then process_buffer get upd call s1
           else (case handle_received_data get call m s1 of
                   (Inl e, s2) \<Rightarrow> Some (Inl e, s2)
                 | (Inr _, s2) \<Rightarrow> process_buffer get upd call s2)))"
proof (cases "length (buffer (get s)) < HEADER_LEN \<or> take MAGIC_LEN (buffer (get s)) \<noteq> MAGIC")
  case True
  then show ?thesis
    by (subst process_buffer.simps) (auto simp: next_frame_def Let_def)
next
  case False
  then obtain n where "struct_unpack_I (take 4 (drop 4 (buffer (get s)))) = Inr n"
    using struct_unpack_4 [of "take 4 (drop 4 (buffer (get s)))"] by auto
  with False show ?thesis
    by (subst process_buffer.simps) (auto simp: next_frame_def Let_def)
qed

text \<open>
  The interface between a client and the object that owns it: reading and changing the
  client inside the owner.  It is interpreted for every owner class of the SDK.
\<close>

locale client_lens =
  fixes get :: "'o \<Rightarrow> tcp_client"
    and upd :: "(tcp_client \<Rightarrow> tcp_client) \<Rightarrow> 'o \<Rightarrow> 'o"
  assumes get_upd: "get (upd f s) = f (get s)"
    and upd_upd: "upd f (upd g s) = upd (\<lambda>c. f (g c)) s"
    and upd_same: "f (get s) = get s \<Longrightarrow> upd f s = s"
begin

lemma consume_rest:
  assumes "next_frame mx (buffer (get s)) = Frame m rest"
  shows "upd (consume m) s = upd (\<lambda>c. c\<lparr>buffer := rest\<rparr>) s"
proof -
  have b: "drop (HEADER_LEN + length m) (buffer (get s)) = rest"
    using next_frame_Frame(1,3) [OF assms] length_frame [of m] by simp
  have 1: "(\<lambda>c. consume m ((\<lambda>_. get s) c)) = (\<lambda>c. (get s)\<lparr>buffer := rest\<rparr>)"
    using b by (simp add: consume_def)
  have s: "upd (\<lambda>_. get s) s = s" by (rule upd_same) simp
  have "upd (consume m) (upd (\<lambda>_. get s) s) = upd (\<lambda>c. c\<lparr>buffer := rest\<rparr>) (upd (\<lambda>_. get s) s)"
    unfolding upd_upd 1 by simp
  then show ?thesis unfolding s .
qed

lemma keeps_handle:
  assumes "keeps_buffer get call" and "handle_received_data get call m s = (r, s')"
  shows "buffer (get s') = buffer (get s)" and "MAX_MSG_SIZE (get s') = MAX_MSG_SIZE (get s)"
  using assms
  by (auto simp: keeps_buffer_def handle_received_data_def split: option.splits)
    (metis snd_conv)+

lemma process_buffer_refines:
  assumes "keeps_buffer get call"
  shows "process_buffer get upd call s = Some (process_spec get upd call s)"
proof (induction "length (buffer (get s))" arbitrary: s rule: less_induct)
  case less
  let ?mx = "MAX_MSG_SIZE (get s)"
  show ?case
  proof (cases "next_frame ?mx (buffer (get s))")
    case (Frame m rest)
    define s1 where "s1 = upd (\<lambda>c. c\<lparr>buffer := rest\<rparr>) s"
    have s1: "buffer (get s1) = rest" "MAX_MSG_SIZE (get s1) = ?mx"
      by (simp_all add: s1_def get_upd)
    have lt: "length rest < length (buffer (get s))"
      using next_frame_Frame(1,3) [OF Frame] by (simp add: length_frame)
    have eq: "process_spec get upd call s =
        (if m = HEARTBEAT_RESPONSE then process_spec get upd call s1
         else case handle_received_data get call m s1 of
                (Inl e, s2) \<Rightarrow> (Inl e, s2) | (Inr _, s2) \<Rightarrow> process_spec get upd call s2)"
      using parse_stream_unfold(3) [OF Frame] consume_rest [OF Frame] s1
      by (auto simp: process_spec_def Let_def keeps_handle [OF assms]
          simp flip: s1_def split: prod.splits sum.splits)
    have IH: "process_buffer get upd call s' = Some (process_spec get upd call s')"
      if "buffer (get s') = rest" for s'
      using less lt that by simp
    have IH2: "process_buffer get upd call s2 = Some (process_spec get upd call s2)"
      if "handle_received_data get call m s1 = (r, s2)" for r s2
      using IH keeps_handle(1) [OF assms that] s1(1) by simp
    show ?thesis
      by (subst process_buffer_step, unfold eq)
        (auto simp: Frame IH [OF s1(1)] IH2 Let_def simp flip: s1_def split: prod.splits sum.splits)
  qed (subst process_buffer_step, simp add: process_spec_def parse_stream_unfold)+
qed

lemma deliver_buffer:
  assumes "keeps_buffer get call" and "list_all (\<lambda>m. length m < 2 ^ 32) ms"
    and "buffer (get s) = frames ms @ left" and "deliver get upd call ms s = (Inr x, s')"
  shows "buffer (get s') = left \<and> MAX_MSG_SIZE (get s') = MAX_MSG_SIZE (get s)"
  using assms(2-4)
proof (induction ms arbitrary: s)
  case (Cons m ms)
  define s1 where "s1 = upd (consume m) s"
  have b1: "buffer (get s1) = frames ms @ left" "MAX_MSG_SIZE (get s1) = MAX_MSG_SIZE (get s)"
    using Cons.prems(1,2) by (simp_all add: s1_def get_upd consume_def length_frame)
  show ?case
  proof (cases "m = HEARTBEAT_RESPONSE")
    case True
    then have "deliver get upd call ms s1 = (Inr x, s')" using Cons.prems(3) by (simp add: s1_def)
    from Cons.IH [OF _ b1(1) this] Cons.prems(1) b1(2) show ?thesis by simp
  next
    case False
    then obtain y s2 where h: "handle_received_data get call m s1 = (Inr y, s2)"
        and d: "deliver get upd call ms s2 = (Inr x, s')"
      using Cons.prems(3) by (auto simp flip: s1_def split: prod.splits sum.splits)
    from Cons.IH [OF _ _ d] Cons.prems(1) b1 keeps_handle [OF assms(1) h] show ?thesis by simp
  qed
qed simp

lemma process_buffer_bound:
  assumes "keeps_buffer get call" and "process_buffer get upd call s = Some (Inr (), s')"
    and "connected (get s')"
  shows "length (buffer (get s')) < HEADER_LEN + MAX_MSG_SIZE (get s')"
proof -
  obtain ms left e where p: "parse_stream (MAX_MSG_SIZE (get s)) (buffer (get s)) = (ms, left, e)"
    by (metis prod_cases3)
  note ps = parse_stream_sound [OF p]
  have lens: "list_all (\<lambda>m. length m < 2 ^ 32) ms"
    using parse_stream_lengths [OF p] .
  obtain s1 where d: "deliver get upd call ms s = (Inr (), s1)"
      "s' = (case e of Need_More \<Rightarrow> s1 | Bad_Frame \<Rightarrow> upd drop_connection s1)"
    using assms(2) by (auto simp: process_buffer_refines [OF assms(1)] process_spec_def p
        split: prod.splits sum.splits)
  have "e = Need_More"
    using d(2) assms(3) by (cases e) (simp_all add: get_upd drop_connection_def set_connected_def
        connected_def Let_def)
  then have "next_frame (MAX_MSG_SIZE (get s)) left = Incomplete" "s' = s1" using ps d(2) by simp_all
  with deliver_buffer [OF assms(1) lens _ d(1)] ps show ?thesis
    using next_frame_Incomplete by auto
qed

end

section \<open>Chunks\<close>

text \<open>
  An owner whose callback does not raise and does not reach back into the client: it only
  acts on what the application sees of the owner (\<open>view\<close>), by \<open>act\<close>.
\<close>

locale quiet_owner = client_lens get upd
  for get :: "'o \<Rightarrow> tcp_client" and upd :: "(tcp_client \<Rightarrow> tcp_client) \<Rightarrow> 'o \<Rightarrow> 'o" +
  fixes call :: "bound_method \<Rightarrow> bytes \<Rightarrow> 'o \<Rightarrow> unit res \<times> 'o"
    and cb :: bound_method
    and view :: "'o \<Rightarrow> 'v"
    and act :: "bytes \<Rightarrow> 'v \<Rightarrow> 'v"
  assumes call_client: "get (snd (call m d s)) = get s"
    and call_ok: "fst (call cb d s) = Inr ()"
    and call_view: "view (snd (call cb d s)) = act d (view s)"
    and upd_view: "view (upd g s) = view s"
begin

lemma keeps: "keeps_buffer get call"
  by (simp add: keeps_buffer_def call_client)

lemma deliver_quiet:
  "received_data_callback (get s) = Some cb \<Longrightarrow>
   \<exists>s'. deliver get upd call ms s = (Inr (), s') \<and> get s' = fold consume ms (get s) \<and>
        view s' = fold act (filter (\<lambda>m. m \<noteq> HEARTBEAT_RESPONSE) ms) (view s)"
proof (induction ms arbitrary: s)
  case (Cons m ms)
  define s1 where "s1 = upd (consume m) s"
  have g1: "get s1 = consume m (get s)" and v1: "view s1 = view s"
    by (simp_all add: s1_def get_upd upd_view)
  with Cons.prems have cb1: "received_data_callback (get s1) = Some cb"
    by (simp add: consume_def)
  define s2 where "s2 = snd (call cb m s1)"
  have h: "handle_received_data get call m s1 = (Inr (), s2)"
    using cb1 call_ok [of m s1] by (simp add: handle_received_data_def s2_def prod_eq_iff)
  have g2: "get s2 = get s1" and v2: "view s2 = act m (view s1)"
    by (simp_all add: s2_def call_client call_view)
  show ?case
    using Cons.IH [of s1] Cons.IH [of s2] cb1 g2 g1 v1 v2 h
    by (auto simp: Let_def simp flip: s1_def)
qed simp

lemma fold_consume: "list_all (valid_msg mx) ms \<Longrightarrow> mx < 2 ^ 32 \<Longrightarrow> buffer c = frames ms @ left \<Longrightarrow>
    fold consume ms c = c\<lparr>buffer := left\<rparr>"
  by (induction ms arbitrary: c) (auto simp: consume_def valid_msg_def length_frame)

lemma process_quiet:
  assumes cb: "received_data_callback (get s) = Some cb"
    and mx: "MAX_MSG_SIZE (get s) < 2 ^ 32"
    and p: "parse_stream (MAX_MSG_SIZE (get s)) (buffer (get s)) = (ms, left, e)"
  obtains s' where
    "process_buffer get upd call s = Some (Inr (), s')"
    "view s' = fold act (filter (\<lambda>m. m \<noteq> HEARTBEAT_RESPONSE) ms) (view s)"
    "get s' = (case e of Need_More \<Rightarrow> (get s)\<lparr>buffer := left\<rparr>
                       | Bad_Frame \<Rightarrow> drop_connection ((get s)\<lparr>buffer := left\<rparr>))"
proof -
  note ps = parse_stream_sound [OF p]
  obtain s1 where s1: "deliver get upd call ms s = (Inr (), s1)"
      "get s1 = fold consume ms (get s)"
      "view s1 = fold act (filter (\<lambda>m. m \<noteq> HEARTBEAT_RESPONSE) ms) (view s)"
    using deliver_quiet [OF cb] by blast
  have g: "get s1 = (get s)\<lparr>buffer := left\<rparr>"
    using s1(2) fold_consume [OF _ mx] ps by simp
  let ?s' = "case e of Need_More \<Rightarrow> s1 | Bad_Frame \<Rightarrow> upd drop_connection s1"
  have "process_buffer get upd call s = Some (Inr (), ?s')"
    by (simp add: process_buffer_refines [OF keeps] process_spec_def p s1(1))
  moreover have "view ?s' = view s1" by (simp add: upd_view split: parse_end.split)
  moreover have "get ?s' = (case e of Need_More \<Rightarrow> (get s)\<lparr>buffer := left\<rparr>
                       | Bad_Frame \<Rightarrow> drop_connection ((get s)\<lparr>buffer := left\<rparr>))"
    by (simp add: get_upd g split: parse_end.split)
  ultimately show ?thesis using that [of ?s'] s1(3) by simp
qed

text \<open>One chunk: the loop consumes it and is where the parser is on the bytes so far.\<close>

lemma receive_chunk:
  assumes "received_data_callback (get s) = Some cb"
    and "connected (get s)" and "sk_state (tcp_socket (get s)) = Sock_Connected"
    and "MAX_MSG_SIZE (get s) < 2 ^ 32" and "c \<noteq> []"
    and p: "parse_stream (MAX_MSG_SIZE (get s)) (buffer (get s) @ c) = (ms, left, e)"
  obtains s' where
    "receive_data get upd call (Recv_Data c # rs) s = receive_data get upd call rs s'"
    "view s' = fold act (filter (\<lambda>m. m \<noteq> HEARTBEAT_RESPONSE) ms) (view s)"
    "get s' = (case e of Need_More \<Rightarrow> (get s)\<lparr>buffer := left\<rparr>
                       | Bad_Frame \<Rightarrow> drop_connection ((get s)\<lparr>buffer := left\<rparr>))"
proof -
  define s0 where "s0 = upd (\<lambda>cl. cl\<lparr>buffer := buffer cl @ c\<rparr>) s"
  have g0: "get s0 = (get s)\<lparr>buffer := buffer (get s) @ c\<rparr>" and v0: "view s0 = view s"
    by (simp_all add: s0_def get_upd upd_view)
  have pre: "received_data_callback (get s0) = Some cb" "MAX_MSG_SIZE (get s0) < 2 ^ 32"
      "parse_stream (MAX_MSG_SIZE (get s0)) (buffer (get s0)) = (ms, left, e)"
    using assms by (simp_all add: g0)
  obtain s1 where s1: "process_buffer get upd call s0 = Some (Inr (), s1)"
      "view s1 = fold act (filter (\<lambda>m. m \<noteq> HEARTBEAT_RESPONSE) ms) (view s0)"
      "get s1 = (case e of Need_More \<Rightarrow> (get s0)\<lparr>buffer := left\<rparr>
                       | Bad_Frame \<Rightarrow> drop_connection ((get s0)\<lparr>buffer := left\<rparr>))"
    by (rule process_quiet [OF pre])
  have "receive_data get upd call (Recv_Data c # rs) s = receive_data get upd call rs s1"
    using assms s1(1) by (auto simp: receive_body_def sock_recv_def simp flip: s0_def)
  with s1 that [of s1] show ?thesis by (cases e) (simp_all add: g0 v0)
qed

lemma receive_off: "\<not> connected (get s) \<Longrightarrow> receive_data get upd call rs s = Some (Exit, s)"
  by (cases rs) auto

lemma receive_chunks:
  assumes "received_data_callback (get s) = Some cb"
    and "connected (get s)" and "sk_state (tcp_socket (get s)) = Sock_Connected"
    and "MAX_MSG_SIZE (get s) < 2 ^ 32"
    and "next_frame (MAX_MSG_SIZE (get s)) (buffer (get s)) = Incomplete"
    and "[] \<notin> set cs"
    and "parse_stream (MAX_MSG_SIZE (get s)) (buffer (get s) @ concat cs) = (ms, left, e)"
  shows "\<exists>s'. receive_data get upd call (map Recv_Data cs) s =
            Some (case e of Need_More \<Rightarrow> Continue | Bad_Frame \<Rightarrow> Exit, s') \<and>
          view s' = fold act (filter (\<lambda>m. m \<noteq> HEARTBEAT_RESPONSE) ms) (view s) \<and>
          (e = Need_More \<longrightarrow> get s' = (get s)\<lparr>buffer := left\<rparr>) \<and>
          (e = Bad_Frame \<longrightarrow> \<not> connected (get s') \<and> sk_state (tcp_socket (get s')) = Sock_Closed)"
  using assms
proof (induction cs arbitrary: s ms)
  case Nil
  then show ?case by (auto simp: parse_stream_unfold(1))
next
  case (Cons c cs)
  obtain ms1 left1 e1 where p1:
    "parse_stream (MAX_MSG_SIZE (get s)) (buffer (get s) @ c) = (ms1, left1, e1)"
    by (metis prod_cases3)
  have c: "c \<noteq> []" using Cons.prems by auto
  obtain s1 where s1:
      "receive_data get upd call (Recv_Data c # map Recv_Data cs) s =
         receive_data get upd call (map Recv_Data cs) s1"
      "view s1 = fold act (filter (\<lambda>m. m \<noteq> HEARTBEAT_RESPONSE) ms1) (view s)"
      "get s1 = (case e1 of Need_More \<Rightarrow> (get s)\<lparr>buffer := left1\<rparr>
                       | Bad_Frame \<Rightarrow> drop_connection ((get s)\<lparr>buffer := left1\<rparr>))"
    by (rule receive_chunk [OF Cons.prems(1-4) c p1])
  note app = parse_stream_append [OF p1, of "concat cs"]
  show ?case
  proof (cases e1)
    case Bad_Frame
    then have "e = Bad_Frame" "ms = ms1" and off: "\<not> connected (get s1)"
        and closed: "sk_state (tcp_socket (get s1)) = Sock_Closed"
      using app Cons.prems(7) s1(3)
      by (auto simp: drop_connection_def set_connected_def connected_def sock_close_def Let_def)
    then show ?thesis using s1(1,2) receive_off [OF off] by (simp del: receive_data.simps)
  next
    case Need_More
    obtain ms' where p': "parse_stream (MAX_MSG_SIZE (get s)) (left1 @ concat cs) = (ms', left, e)"
        and ms: "ms = ms1 @ ms'"
      using app Need_More Cons.prems(7) by (auto split: prod.splits)
    have g1: "get s1 = (get s)\<lparr>buffer := left1\<rparr>" using s1(3) Need_More by simp
    have inc: "next_frame (MAX_MSG_SIZE (get s1)) (buffer (get s1)) = Incomplete"
      using parse_stream_sound [OF p1] Need_More by (simp add: g1)
    have pre: "received_data_callback (get s1) = Some cb" "connected (get s1)"
        "sk_state (tcp_socket (get s1)) = Sock_Connected" "MAX_MSG_SIZE (get s1) < 2 ^ 32"
        "[] \<notin> set cs"
        "parse_stream (MAX_MSG_SIZE (get s1)) (buffer (get s1) @ concat cs) = (ms', left, e)"
      using Cons.prems p' by (simp_all add: g1 connected_def)
    show ?thesis
      using Cons.IH [OF pre(1-4) inc pre(5,6)] s1(1,2) ms g1 by (auto simp del: receive_data.simps)
  qed
qed

end

section \<open>An application that uses the client directly\<close>

record 'w client_app =
  client :: tcp_client
  app :: 'w

text \<open>A callback that updates the state of the application.\<close>

definition app_callback ::
  "(bytes \<Rightarrow> 'w \<Rightarrow> 'w) \<Rightarrow> bound_method \<Rightarrow> bytes \<Rightarrow> 'w client_app \<Rightarrow> unit res \<times> 'w client_app" where
  "app_callback f m d s = (Inr (), s\<lparr>app := f d (app s)\<rparr>)"

interpretation direct: client_lens client client_update
  by unfold_locales simp_all

interpretation direct_app: quiet_owner client client_update "app_callback f" cb app f
  for f :: "bytes \<Rightarrow> 'w \<Rightarrow> 'w" and cb
  by unfold_locales (simp_all add: app_callback_def)

text \<open>A client as it is after a successful connection, with a callback installed.\<close>

definition online :: "tcp_client \<Rightarrow> bool" where
  "online c \<longleftrightarrow> connected c \<and> sk_state (tcp_socket c) = Sock_Connected \<and>
     received_data_callback c \<noteq> None \<and> MAX_MSG_SIZE c < 2 ^ 32 \<and>
     next_frame (MAX_MSG_SIZE c) (buffer c) = Incomplete"

definition fresh_online :: tcp_client where
  "fresh_online = (connect_to_server True (str_lit ''127.0.0.1'') 6370 new_client)
     \<lparr>received_data_callback := Some (External_callback 0)\<rparr>"

lemmas fresh_online_simps = fresh_online_def connect_to_server_def start_heart_beat_def
  sock_connect_def new_client_def new_socket_def set_connected_def connected_def Let_def

lemma fresh_online: "online fresh_online" "buffer fresh_online = []"
    "MAX_MSG_SIZE fresh_online = 16777216" "connected fresh_online"
    "sk_state (tcp_socket fresh_online) = Sock_Connected" "sk_sent (tcp_socket fresh_online) = []"
    "received_data_callback fresh_online = Some (External_callback 0)"
  by (simp_all add: fresh_online_simps online_def next_frame_def)

lemma app_callback_keeps: "keeps_buffer client (app_callback f)"
  by (rule direct_app.keeps)

text \<open>
  Claim C1 (refinement): the receive loop on any sequence of non-empty chunks computes what the
  reference parser finds in the whole stream, wherever the chunk boundaries fall.  Every
  message but the heartbeat responses reaches the callback once and in order.  If the
  stream ends inside a frame the client goes on with exactly the unparsed bytes buffered;
  if it holds a bad frame the client is disconnected, its socket is closed and the thread
  ends.
\<close>

theorem receive_data_refines_parser:
  assumes "online (client s)" and "[] \<notin> set cs"
    and "parse_stream (MAX_MSG_SIZE (client s)) (buffer (client s) @ concat cs) = (ms, left, e)"
  shows "\<exists>s'. receive_data client client_update (app_callback f) (map Recv_Data cs) s =
            Some (case e of Need_More \<Rightarrow> Continue | Bad_Frame \<Rightarrow> Exit, s') \<and>
          app s' = fold f (filter (\<lambda>m. m \<noteq> HEARTBEAT_RESPONSE) ms) (app s) \<and>
          (e = Need_More \<longrightarrow> client s' = (client s)\<lparr>buffer := left\<rparr>) \<and>
          (e = Bad_Frame \<longrightarrow>
             \<not> connected (client s') \<and> sk_state (tcp_socket (client s')) = Sock_Closed)"
  using assms direct_app.receive_chunks [of s _ cs ms left e f] by (auto simp: online_def)

theorem receive_data_refines_parser_witness:
  "\<exists>s'. receive_data client client_update (app_callback (\<lambda>m w. w @ [m]))
           (map Recv_Data [take 3 (frames [b_lit ''hi''] @ frame []), drop 3 (frames [b_lit ''hi''] @ frame [])])
           \<lparr>client = fresh_online, app = []\<rparr> = Some (Exit, s') \<and>
        app s' = [b_lit ''hi''] \<and> \<not> connected (client s')"
proof -
  let ?s = "\<lparr>client = fresh_online, app = [] :: bytes list\<rparr>"
  let ?x = "frames [b_lit ''hi''] @ frame []"
  have v: "list_all (valid_msg 16777216) [b_lit ''hi'']" by (simp add: valid_msg_def)
  have "next_frame 16777216 (frame []) = Invalid"
    by (simp add: next_frame_def frame_def struct_pack_I_def MAGIC_def)
  then have "parse_stream (MAX_MSG_SIZE (client ?s)) (buffer (client ?s) @ concat [take 3 ?x, drop 3 ?x])
      = ([b_lit ''hi''], frame [], Bad_Frame)"
    using parse_stream_frames [OF _ v, of "frame []"]
    by (simp only: client_app.simps fresh_online concat.simps append_Nil append_Nil2
        append_take_drop_id) (simp add: parse_stream_unfold(2))
  from receive_data_refines_parser [OF _ _ this, of "\<lambda>m w. w @ [m]"] show ?thesis
    by (auto simp: fresh_online frame_def MAGIC_def HEARTBEAT_RESPONSE_def b_lit_def)
qed

text \<open>
  Claim C2 (round trip): messages of legal size, framed as \<^verbatim>\<open>_write_with_length_prefix\<close>
  frames them and cut into chunks in any way, are handed to the callback unchanged, all of
  them and in order, except the heartbeat responses; nothing stays in the buffer and the
  client stays connected.
\<close>

theorem framing_roundtrip:
  assumes "online (client s)" and "buffer (client s) = []" and "[] \<notin> set cs"
    and "list_all (valid_msg (MAX_MSG_SIZE (client s))) ms" and "concat cs = frames ms"
  shows "\<exists>s'. receive_data client client_update (app_callback f) (map Recv_Data cs) s =
            Some (Continue, s') \<and>
          app s' = fold f (filter (\<lambda>m. m \<noteq> HEARTBEAT_RESPONSE) ms) (app s) \<and>
          client s' = client s"
proof -
  have "parse_stream (MAX_MSG_SIZE (client s)) (frames ms @ []) = (ms, [], Need_More)"
    using assms(1,4) by (subst parse_stream_frames)
      (auto simp: online_def parse_stream_unfold(1) next_frame_def)
  with assms direct_app.receive_chunks [of s _ cs ms "[]" Need_More f] show ?thesis
    by (auto simp: online_def)
qed

theorem framing_roundtrip_witness:
  "\<exists>s'. receive_data client client_update (app_callback (\<lambda>m w. w @ [m]))
           (map Recv_Data [take 3 (frames [b_lit ''hi'', HEARTBEAT_RESPONSE, b_lit ''x'']),
                           drop 3 (frames [b_lit ''hi'', HEARTBEAT_RESPONSE, b_lit ''x''])])
           \<lparr>client = fresh_online, app = []\<rparr> = Some (Continue, s') \<and>
        app s' = [b_lit ''hi'', b_lit ''x''] \<and> client s' = fresh_online"
proof -
  let ?s = "\<lparr>client = fresh_online, app = [] :: bytes list\<rparr>"
  let ?ms = "[b_lit ''hi'', HEARTBEAT_RESPONSE, b_lit ''x'']"
  have "[] \<notin> set [take 3 (frames ?ms), drop 3 (frames ?ms)]"
    by (simp add: frame_def MAGIC_def)
  moreover have "list_all (valid_msg (MAX_MSG_SIZE (client ?s))) ?ms"
    by (simp add: valid_msg_def fresh_online HEARTBEAT_RESPONSE_def)
  moreover have "filter (\<lambda>m. m \<noteq> HEARTBEAT_RESPONSE) ?ms = [b_lit ''hi'', b_lit ''x'']"
    by (simp add: HEARTBEAT_RESPONSE_def b_lit_def)
  ultimately show ?thesis
    using framing_roundtrip [of ?s "[take 3 (frames ?ms), drop 3 (frames ?ms)]" ?ms "\<lambda>m w. w @ [m]"]
    by (simp add: fresh_online del: frames_simps)
qed

text \<open>
  Claim C13 (termination): the buffer loop ends for every buffer content and every callback
  that leaves the private buffer and the size limit alone, also one that raises or calls
  back into the client, and its result is that of the reference parser.
\<close>

theorem process_buffer_terminates:
  assumes "keeps_buffer client call"
  shows "process_buffer client client_update call s = Some (process_spec client client_update call s)"
  by (rule direct.process_buffer_refines [OF assms])

theorem process_buffer_terminates_witness:
  "process_buffer client client_update (\<lambda>m d s. (Inl UserError, s\<lparr>app := app s @ [d]\<rparr>))
     \<lparr>client = fresh_online\<lparr>buffer := frames [b_lit ''hi'', b_lit ''x'']\<rparr>, app = []\<rparr> =
   Some (process_spec client client_update (\<lambda>m d s. (Inl UserError, s\<lparr>app := app s @ [d]\<rparr>))
     \<lparr>client = fresh_online\<lparr>buffer := frames [b_lit ''hi'', b_lit ''x'']\<rparr>, app = []\<rparr>)"
  by (rule process_buffer_terminates) (simp add: keeps_buffer_def)

text \<open>
  Claim C40 (bounds): the buffer of a connected client is bounded.  After every pass of the
  buffer loop that returns normally and leaves the client connected, less than a header
  and one message of maximal size is buffered.
\<close>

theorem buffer_bounded:
  assumes "keeps_buffer client call" and "process_buffer client client_update call s = Some (Inr (), s')"
    and "connected (client s')"
  shows "length (buffer (client s')) < HEADER_LEN + MAX_MSG_SIZE (client s')"
  by (rule direct.process_buffer_bound [OF assms])

theorem buffer_bounded_witness:
  "length (buffer (fresh_online\<lparr>buffer := MAGIC\<rparr>)) < HEADER_LEN + MAX_MSG_SIZE (fresh_online\<lparr>buffer := MAGIC\<rparr>)"
proof -
  let ?s = "\<lparr>client = fresh_online\<lparr>buffer := MAGIC\<rparr>, app = [] :: bytes list\<rparr>"
  have "process_buffer client client_update (app_callback (\<lambda>m w. w @ [m])) ?s = Some (Inr (), ?s)"
    by (subst process_buffer_step) (simp add: next_frame_def)
  moreover have "connected (client ?s)" using fresh_online(4) by (simp add: connected_def)
  ultimately have "length (buffer (client ?s)) < HEADER_LEN + MAX_MSG_SIZE (client ?s)"
    by (rule buffer_bounded [OF app_callback_keeps])
  then show ?thesis by simp
qed

text \<open>
  A bad header is never waited out.  As soon as eight bytes are buffered
  that do not start with the magic number, or announce an empty or an oversized message,
  the loop closes the socket and marks the client as disconnected, runs no callback and
  leaves the buffer as it is.
\<close>

theorem bad_header_disconnects:
  assumes "HEADER_LEN \<le> length (buffer (client s))"
    and "take MAGIC_LEN (buffer (client s)) \<noteq> MAGIC \<or>
         (\<exists>n. struct_unpack_I (take 4 (drop 4 (buffer (client s)))) = Inr n \<and>
              (n = 0 \<or> MAX_MSG_SIZE (client s) < n))"
  shows "process_buffer client client_update call s =
           Some (Inr (), s\<lparr>client := (client s)\<lparr>connected_event := False,
              tcp_socket := sock_close (tcp_socket (client s))\<rparr>\<rparr>)"
proof -
  have "next_frame (MAX_MSG_SIZE (client s)) (buffer (client s)) = Invalid"
    using assms by (auto simp: next_frame_def)
  then show ?thesis
    by (subst process_buffer_step) (simp add: drop_connection_def set_connected_def Let_def)
qed

theorem bad_header_disconnects_witness:
  "process_buffer client client_update (app_callback (\<lambda>m w. w @ [m]))
     \<lparr>client = fresh_online\<lparr>buffer := b_lit ''GET / HTTP/1.1''\<rparr>, app = []\<rparr> =
   Some (Inr (), \<lparr>client = (fresh_online\<lparr>buffer := b_lit ''GET / HTTP/1.1''\<rparr>)\<lparr>connected_event := False,
     tcp_socket := sock_close (tcp_socket fresh_online)\<rparr>, app = []\<rparr>)"
  using bad_header_disconnects [of "\<lparr>client = fresh_online\<lparr>buffer := b_lit ''GET / HTTP/1.1''\<rparr>, app = []\<rparr>"
      "app_callback (\<lambda>m w. w @ [m])"]
  by (simp add: b_lit_def MAGIC_def)

text \<open>
  An exception of a callback that is not a socket error ends the receive
  thread.  The message is off the buffer, the ones after it are not handled, and the client
  is left as the callback left it: still marked as connected, if the callback did not
  change that.
\<close>

theorem callback_exception_ends_thread:
  assumes "online (client s)" and "buffer (client s) = []"
    and "received_data_callback (client s) = Some cb"
    and "valid_msg (MAX_MSG_SIZE (client s)) m" and "m \<noteq> HEARTBEAT_RESPONSE"
    and "call cb m (s\<lparr>client := (client s)\<lparr>buffer := rest\<rparr>\<rparr>) = (Inl e, s')" and "\<not> is_socket_error e"
  shows "receive_data client client_update call (Recv_Data (frame m @ rest) # rs) s = Some (Raise e, s')"
proof -
  let ?s = "s\<lparr>client := (client s)\<lparr>buffer := frame m @ rest\<rparr>\<rparr>"
  have "next_frame (MAX_MSG_SIZE (client s)) (frame m @ rest) = Frame m rest"
    using assms(1,4) next_frame_frame by (simp add: online_def)
  then have "process_buffer client client_update call ?s = Some (Inl e, s')"
    using assms(3,5,6) by (subst process_buffer_step) (simp add: handle_received_data_def Let_def comp_def)
  moreover have "frame m @ rest \<noteq> []" by (simp add: frame_def MAGIC_def)
  moreover have "client_update (\<lambda>c. c\<lparr>buffer := buffer c @ (frame m @ rest)\<rparr>) s = ?s"
    using assms(2) by (cases s) simp
  ultimately show ?thesis
    using assms(1,7) by (simp add: receive_body_def sock_recv_def online_def)
qed

theorem callback_exception_ends_thread_witness:
  "receive_data client client_update (\<lambda>m d s. (Inl UserError, s))
     [Recv_Data (frame (b_lit ''a'') @ frame (b_lit ''b''))] \<lparr>client = fresh_online, app = ()\<rparr> =
   Some (Raise UserError, \<lparr>client = fresh_online\<lparr>buffer := frame (b_lit ''b'')\<rparr>, app = ()\<rparr>)"
  by (rule callback_exception_ends_thread)
    (simp_all add: fresh_online valid_msg_def HEARTBEAT_RESPONSE_def b_lit_def is_socket_error_def)

end
