(* ===== verification/KL_Connection.thy ===== *)
theory KL_Connection
  imports KL_Framing
begin

text \<open>
  The life of one \<^verbatim>\<open>TcpClient\<close>: any sequence of its operations, of timer firings and of
  receive-thread passes, in any order, from the constructor on.  The invariants say what is
  on the wire, how many heartbeat timers are pending, and that a connection once lost is
  never used again.
\<close>

section \<open>Histories\<close>

datatype client_op =
    Op_connect bool pystr nat
  | Op_send send_result bytes
  | Op_fire send_result nat
  | Op_recv recv_result
  | Op_set_callback "bound_method option"
  | Op_disconnect

text \<open>
  A pass of the receive thread, seen from the client: the callback's own effect on the
  client is a sequence of the other operations, so here it does nothing.  The pass is not
  guarded by \<^verbatim>\<open>connected\<close>, since the thread may have been waiting in \<^verbatim>\<open>recv\<close> when
  another thread cleared the flag.
\<close>

definition recv_pass :: "recv_result \<Rightarrow> tcp_client \<Rightarrow> tcp_client" where
  "recv_pass r c =
     (case receive_body (\<lambda>c. c) (\<lambda>f. f) (\<lambda>_ _ c. (Inr (), c)) r c of
        None \<Rightarrow> c | Some (_, c') \<Rightarrow> c')"

fun client_exec :: "client_op \<Rightarrow> tcp_client \<Rightarrow> tcp_client" where
  "client_exec (Op_connect ok ip port) c = connect_to_server ok ip port c"
| "client_exec (Op_send r d) c = snd (send_data r d c)"
| "client_exec (Op_fire r t) c = snd (fire_timer r t c)"
| "client_exec (Op_recv r) c = (if 0 < receivers c then recv_pass r c else c)"
| "client_exec (Op_set_callback m) c = c\<lparr>received_data_callback := m\<rparr>"
| "client_exec Op_disconnect c = disconnect c"

text \<open>The messages an operation puts on the wire completely.\<close>

definition accepted_write :: "send_result \<Rightarrow> bytes \<Rightarrow> tcp_client \<Rightarrow> bytes list" where
  "accepted_write r d c =
     (if connected c \<and> length d \<le> MAX_MSG_SIZE c \<and> r = Send_Ok
         \<and> sk_state (tcp_socket c) = Sock_Connected then [d] else [])"

fun accepted :: "client_op \<Rightarrow> tcp_client \<Rightarrow> bytes list" where
  "accepted (Op_send r d) c = accepted_write r d c"
| "accepted (Op_fire r t) c = (if t \<in> set (timers c) then accepted_write r HEARTBEAT c else [])"
| "accepted _ c = []"

text \<open>States reached, with the messages sent so far.\<close>

inductive client_trace :: "tcp_client \<Rightarrow> bytes list \<Rightarrow> bool" where
  start: "client_trace new_client []"
| step: "client_trace c ms \<Longrightarrow> client_trace (client_exec op c) (ms @ accepted op c)"

fun accepted_all :: "client_op list \<Rightarrow> tcp_client \<Rightarrow> bytes list" where
  "accepted_all [] c = []"
| "accepted_all (op # ops) c = accepted op c @ accepted_all ops (client_exec op c)"

lemma client_trace_run:
  "client_trace c ms \<Longrightarrow> client_trace (fold client_exec ops c) (ms @ accepted_all ops c)"
proof (induction ops arbitrary: c ms)
  case (Cons op ops)
  from Cons.IH [OF client_trace.step [OF Cons.prems, of op]] show ?case by simp
qed simp

text \<open>A short history: connect, one message, the first heartbeat, a send that fails midway.\<close>

definition sample_ops :: "client_op list" where
  "sample_ops = [Op_connect True (str_lit ''127.0.0.1'') 6370, Op_send Send_Ok (b_lit ''hi''),
     Op_fire Send_Ok 0]"

definition failing_ops :: "client_op list" where
  "failing_ops = sample_ops @ [Op_send (Send_Fail 3) (b_lit ''lost'')]"

section \<open>The operations, in terms of frames\<close>

definition add_sent :: "bytes \<Rightarrow> tcp_client \<Rightarrow> tcp_client" where
  "add_sent bs c = c\<lparr>tcp_socket := (tcp_socket c)\<lparr>sk_sent := sk_sent (tcp_socket c) @ bs\<rparr>\<rparr>"

lemma write_eq:
  assumes "MAX_MSG_SIZE c < 2 ^ 32"
  shows "write_with_length_prefix r data c =
     (if \<not> connected c then (Inr (), c)
      else if length data > MAX_MSG_SIZE c then (Inl ValueError, c)
      else if sk_state (tcp_socket c) \<noteq> Sock_Connected then (Inr (), set_connected False c)
      else (case r of
          Send_Ok \<Rightarrow> (Inr (), add_sent (frame data) c)
        | Send_Fail n \<Rightarrow> (Inr (), set_connected False (add_sent (take n (frame data)) c))))"
proof (cases "length data > MAX_MSG_SIZE c")
  case False
  with assms obtain len where "struct_pack_I (length data) = Inr len" "frame data = MAGIC @ len @ data"
    using frame_pack [of data] by fastforce
  then show ?thesis
    by (auto simp: write_with_length_prefix_def sock_sendall_def is_socket_error_def add_sent_def
        set_connected_def split: send_result.splits)
qed (simp add: write_with_length_prefix_def)

interpretation self: client_lens "\<lambda>c. c" "\<lambda>f. f"
  by unfold_locales simp_all

lemma deliver_self: "deliver (\<lambda>c. c) (\<lambda>f. f) (\<lambda>_ _ c. (Inr (), c)) ms c = (Inr (), fold consume ms c)"
  by (induction ms arbitrary: c) (auto simp: handle_received_data_def Let_def split: option.splits)

lemma fold_consume_buffer: "\<exists>b. fold consume ms c = c\<lparr>buffer := b\<rparr>"
proof (induction ms arbitrary: c)
  case Nil
  then show ?case by (metis fold_simps(1) tcp_client.cases tcp_client.update_convs(6))
next
  case (Cons m ms)
  obtain b where "fold consume ms (consume m c) = (consume m c)\<lparr>buffer := b\<rparr>"
    using Cons by blast
  moreover have "(consume m c)\<lparr>buffer := b\<rparr> = c\<lparr>buffer := b\<rparr>" by (simp add: consume_def)
  ultimately show ?case by auto
qed

lemma recv_pass_cases:
  obtains b where "recv_pass r c = c\<lparr>buffer := b\<rparr>"
  | b where "recv_pass r c = set_connected False (c\<lparr>buffer := b\<rparr>)"
  | b where "recv_pass r c = drop_connection (c\<lparr>buffer := b\<rparr>)"
proof -
  have same: "c = c\<lparr>buffer := buffer c\<rparr>" by simp
  show ?thesis
  proof (cases "sock_recv r (tcp_socket c)")
    case Recv_Error
    then have "recv_pass r c = (if connected c then set_connected False c else c)"
      by (simp add: recv_pass_def receive_body_def receive_error_def)
    then show ?thesis using that(1,2) [of "buffer c"] by (cases "connected c") auto
  next
    case (Recv_Data chunk)
    show ?thesis
    proof (cases "chunk = []")
      case True
      with Recv_Data show ?thesis using that(2) [of "buffer c"]
        by (simp add: recv_pass_def receive_body_def)
    next
      case False
      let ?c = "c\<lparr>buffer := buffer c @ chunk\<rparr>"
      obtain ms left e where p: "parse_stream (MAX_MSG_SIZE ?c) (buffer ?c) = (ms, left, e)"
        by (metis prod_cases3)
      obtain b where b: "fold consume ms ?c = c\<lparr>buffer := b\<rparr>"
        using fold_consume_buffer [of ms ?c] by auto
      have k: "keeps_buffer (\<lambda>c. c) (\<lambda>_ _ c. (Inr (), c))" by (simp add: keeps_buffer_def)
      have "recv_pass r c =
          (case e of Need_More \<Rightarrow> c\<lparr>buffer := b\<rparr> | Bad_Frame \<Rightarrow> drop_connection (c\<lparr>buffer := b\<rparr>))"
        using Recv_Data False p b
        by (simp add: recv_pass_def receive_body_def self.process_buffer_refines [OF k]
            process_spec_def deliver_self split: parse_end.split)
      then show ?thesis using that(1,3) [of b] by (cases e) auto
    qed
  qed
qed

lemmas client_field_defs [client_simps] = connected_def set_connected_def drop_connection_def sock_close_def
  add_sent_def start_heart_beat_def Let_def

lemmas sample_simps = sample_ops_def failing_ops_def accepted_write_def send_data_def
  fire_timer_def send_heart_beat_def write_eq connect_to_server_def sock_connect_def
  new_client_def new_socket_def HEARTBEAT_def client_simps

lemma sample_state:
  "accepted_all sample_ops new_client = [b_lit ''hi'', HEARTBEAT]"
  "connected (fold client_exec sample_ops new_client)"
  "timers (fold client_exec sample_ops new_client) = [1]"
  "MAX_MSG_SIZE (fold client_exec sample_ops new_client) = 16777216"
  by (simp_all add: sample_simps)

lemma failing_state:
  "accepted_all failing_ops new_client = [b_lit ''hi'', HEARTBEAT]"
  "\<not> connected (fold client_exec failing_ops new_client)"
  "sk_state (tcp_socket (fold client_exec failing_ops new_client)) = Sock_Connected"
  by (simp_all add: sample_simps)

lemma sample_trace: "client_trace (fold client_exec sample_ops new_client) [b_lit ''hi'', HEARTBEAT]"
  using client_trace_run [OF client_trace.start, of sample_ops] by (simp add: sample_state)

lemma failing_trace: "client_trace (fold client_exec failing_ops new_client) [b_lit ''hi'', HEARTBEAT]"
  using client_trace_run [OF client_trace.start, of failing_ops] by (simp add: failing_state)

section \<open>What is on the wire\<close>

text \<open>
  The stream sent is the frames of the accepted messages, followed by at most one cut-off
  frame, and only on a connection that is marked as lost for good.
\<close>

definition wire_inv :: "tcp_client \<Rightarrow> bytes list \<Rightarrow> bool" where
  "wire_inv c ms \<longleftrightarrow>
     MAX_MSG_SIZE c = 16777216 \<and>
     list_all (\<lambda>m. length m \<le> 16777216) ms \<and>
     (connected c \<longrightarrow> sk_state (tcp_socket c) = Sock_Connected) \<and>
     (\<exists>p. sk_sent (tcp_socket c) = frames ms @ p \<and>
        (p \<noteq> [] \<longrightarrow> \<not> connected c \<and> sk_state (tcp_socket c) \<noteq> Sock_New \<and>
           (\<exists>m. length m \<le> 16777216 \<and> prefix p (frame m))))"

lemma wire_inv_new: "wire_inv new_client []"
  by (simp add: wire_inv_def new_client_def new_socket_def connected_def)

lemma wire_inv_cong:
  assumes "wire_inv c ms" and "tcp_socket c' = tcp_socket c" and "MAX_MSG_SIZE c' = MAX_MSG_SIZE c"
    and "connected c' \<longrightarrow> connected c"
  shows "wire_inv c' ms"
  using assms unfolding wire_inv_def by auto

lemma wire_inv_lose:
  assumes "wire_inv c ms" and "sk_sent (tcp_socket c') = sk_sent (tcp_socket c)"
    and "MAX_MSG_SIZE c' = MAX_MSG_SIZE c" and "\<not> connected c'"
    and "sk_state (tcp_socket c') = Sock_New \<longrightarrow> sk_state (tcp_socket c) = Sock_New"
  shows "wire_inv c' ms"
  using assms unfolding wire_inv_def by auto

lemma wire_inv_write:
  assumes "wire_inv c ms" and "write_with_length_prefix r d c = (x, c')"
  shows "wire_inv c' (ms @ accepted_write r d c)"
proof -
  have mx: "MAX_MSG_SIZE c < 2 ^ 32" using assms(1) by (simp add: wire_inv_def)
  show ?thesis
  proof (cases "connected c \<and> length d \<le> MAX_MSG_SIZE c")
    case False
    with assms show ?thesis by (auto simp: write_eq [OF mx] accepted_write_def split: if_splits)
  next
    case True
    then have st: "sk_state (tcp_socket c) = Sock_Connected" and out: "sk_sent (tcp_socket c) = frames ms"
      using assms(1) by (auto simp: wire_inv_def)
    show ?thesis
    proof (cases r)
      case Send_Ok
      with True st out assms show ?thesis
        by (auto simp: write_eq [OF mx] accepted_write_def wire_inv_def client_simps)
    next
      case (Send_Fail n)
      with True st assms(2) have "c' = set_connected False (add_sent (take n (frame d)) c)"
        by (simp add: write_eq [OF mx])
      moreover have "prefix (take n (frame d)) (frame d)" by (rule take_is_prefix)
      ultimately show ?thesis using True st out assms(1) Send_Fail
        by (auto simp: wire_inv_def client_simps accepted_write_def)
    qed
  qed
qed

lemma wire_inv_fire:
  assumes "wire_inv c ms" and "fire_timer r t c = (x, c')"
  shows "wire_inv c' (ms @ accepted (Op_fire r t) c)"
proof (cases "t \<in> set (timers c) \<and> connected c")
  case False
  with assms show ?thesis
    by (auto simp: fire_timer_def send_heart_beat_def accepted_write_def connected_def
        elim!: wire_inv_cong split: if_splits)
next
  case True
  let ?c = "c\<lparr>timers := remove1 t (timers c)\<rparr>"
  obtain y c1 where w: "write_with_length_prefix r HEARTBEAT ?c = (y, c1)" by fastforce
  have "wire_inv ?c ms" using assms(1) by (rule wire_inv_cong) (simp_all add: connected_def)
  then have w1: "wire_inv c1 (ms @ accepted_write r HEARTBEAT ?c)" using w by (rule wire_inv_write)
  have "c' = c1 \<or> c' = start_heart_beat c1"
    using assms(2) True w by (auto simp: fire_timer_def send_heart_beat_def connected_def split: sum.splits)
  then have "wire_inv c' (ms @ accepted_write r HEARTBEAT ?c)"
    using w1 by (auto elim!: wire_inv_cong simp: client_simps split: if_splits)
  moreover have "accepted_write r HEARTBEAT ?c = accepted_write r HEARTBEAT c"
    by (simp add: accepted_write_def connected_def)
  ultimately show ?thesis using True by simp
qed

lemma wire_inv_recv:
  assumes "wire_inv c ms"
  shows "wire_inv (recv_pass r c) ms"
proof (cases rule: recv_pass_cases [of r c])
  case (1 b)
  with assms show ?thesis by (auto elim!: wire_inv_cong simp: client_simps)
next
  case (2 b)
  with assms show ?thesis by (auto elim!: wire_inv_lose simp: client_simps)
next
  case (3 b)
  with assms show ?thesis by (auto elim!: wire_inv_lose simp: client_simps)
qed

lemma wire_inv_connect: "wire_inv c ms \<Longrightarrow> wire_inv (connect_to_server ok ip port c) ms"
  by (auto simp: connect_to_server_def sock_connect_def client_simps wire_inv_def
      split: prod.splits sum.splits if_splits)

lemma disconnect_sent: "sk_sent (tcp_socket (disconnect c)) = sk_sent (tcp_socket c)"
  by (simp add: disconnect_def set_connected_def sock_close_def Let_def split: option.splits)

lemma wire_inv_disconnect: "wire_inv c ms \<Longrightarrow> wire_inv (disconnect c) ms"
  by (erule wire_inv_lose) (auto simp: disconnect_def client_simps split: option.splits)

lemma wire_inv_exec: "wire_inv c ms \<Longrightarrow> wire_inv (client_exec op c) (ms @ accepted op c)"
proof (cases op)
  case (Op_send r d)
  moreover assume "wire_inv c ms"
  ultimately show ?thesis
    by (simp add: send_data_def wire_inv_write [of c ms r d "fst (write_with_length_prefix r d c)"])
next
  case (Op_fire r t)
  moreover assume "wire_inv c ms"
  ultimately show ?thesis
    using wire_inv_fire [of c ms r t "fst (fire_timer r t c)" "snd (fire_timer r t c)"] by simp
qed (auto simp: wire_inv_recv wire_inv_connect wire_inv_disconnect connected_def elim: wire_inv_cong)

lemma client_trace_wire: "client_trace c ms \<Longrightarrow> wire_inv c ms"
  by (induction rule: client_trace.induct) (simp_all add: wire_inv_new wire_inv_exec)



text \<open>
  A peer that parses the stream of a connected client with the same size
  limit reads exactly the accepted messages, with nothing left over, if none of them is
  empty.
\<close>

theorem peer_reads_accepted:
  assumes "client_trace c ms" and "connected c" and "[] \<notin> set ms"
  shows "parse_stream (MAX_MSG_SIZE c) (sk_sent (tcp_socket c)) = (ms, [], Need_More)"
proof -
  have w: "wire_inv c ms" by (rule client_trace_wire [OF assms(1)])
  have "list_all (valid_msg 16777216) ms"
    using w assms(3) by (auto simp: wire_inv_def list_all_iff valid_msg_def)
  then have "parse_stream 16777216 (frames ms @ []) = (ms, [], Need_More)"
    by (subst parse_stream_frames) (auto simp: parse_stream_unfold(1) next_frame_def)
  with w assms(2) show ?thesis by (auto simp: wire_inv_def)
qed

theorem peer_reads_accepted_witness:
  "parse_stream 16777216 (sk_sent (tcp_socket (fold client_exec sample_ops new_client))) =
     ([b_lit ''hi'', HEARTBEAT], [], Need_More)"
  using peer_reads_accepted [OF sample_trace sample_state(2)]
  by (simp add: sample_state(4) b_lit_def HEARTBEAT_def)

section \<open>Lost connections\<close>

text \<open>A client that lost its connection, or closed it, whatever the way.\<close>

definition lost :: "tcp_client \<Rightarrow> bool" where
  "lost c \<longleftrightarrow> \<not> connected c \<and> sk_state (tcp_socket c) \<noteq> Sock_New"

lemma write_lost: "\<not> connected c \<Longrightarrow> write_with_length_prefix r d c = (Inr (), c)"
  by (simp add: write_with_length_prefix_def)

lemma lost_exec:
  assumes "lost c"
  shows "lost (client_exec op c) \<and> sk_sent (tcp_socket (client_exec op c)) = sk_sent (tcp_socket c) \<and>
         set (timers (client_exec op c)) \<subseteq> set (timers c)"
proof (cases op)
  case (Op_recv r)
  show ?thesis
  proof (cases rule: recv_pass_cases [of r c])
    case (1 b)
    with Op_recv assms show ?thesis by (auto simp: lost_def client_simps)
  next
    case (2 b)
    with Op_recv assms show ?thesis by (auto simp: lost_def client_simps)
  next
    case (3 b)
    with Op_recv assms show ?thesis by (auto simp: lost_def client_simps)
  qed
next
  case Op_disconnect
  with assms show ?thesis
    by (auto simp: lost_def disconnect_def client_simps dest: set_remove1_subset [THEN subsetD]
        split: option.splits)
qed (use assms in \<open>auto simp: lost_def send_data_def write_lost fire_timer_def
      send_heart_beat_def connect_to_server_def sock_connect_def client_simps
      dest: set_remove1_subset [THEN subsetD]\<close>)

lemma lost_run:
  "lost c \<Longrightarrow> lost (fold client_exec ops c) \<and>
     sk_sent (tcp_socket (fold client_exec ops c)) = sk_sent (tcp_socket c) \<and>
     set (timers (fold client_exec ops c)) \<subseteq> set (timers c)"
proof (induction ops arbitrary: c)
  case (Cons op ops)
  from lost_exec [OF Cons.prems, of op] Cons.IH [of "client_exec op c"] show ?case by auto
qed simp

text \<open>
  Losing the connection is final.  Once a client that was connected is marked
  as disconnected, by \<^verbatim>\<open>disconnect\<close>, by a failed send, by the peer or by a bad frame, no
  operation marks it connected again, not even \<^verbatim>\<open>connect_to_server\<close>, no further byte is
  sent, and no new heartbeat timer is started.
\<close>

theorem lost_is_final:
  assumes "lost c"
  shows "\<not> connected (fold client_exec ops c) \<and>
         sk_sent (tcp_socket (fold client_exec ops c)) = sk_sent (tcp_socket c) \<and>
         set (timers (fold client_exec ops c)) \<subseteq> set (timers c)"
  using lost_run [OF assms, of ops] by (simp add: lost_def)

theorem lost_is_final_witness:
  "\<not> connected (fold client_exec [Op_connect True (str_lit ''127.0.0.1'') 6370, Op_send Send_Ok HEARTBEAT]
       (fold client_exec failing_ops new_client))"
  using lost_is_final [of "fold client_exec failing_ops new_client"
      "[Op_connect True (str_lit ''127.0.0.1'') 6370, Op_send Send_Ok HEARTBEAT]"]
  by (simp add: lost_def failing_state)

section \<open>Heartbeat timers\<close>

definition timer_inv :: "tcp_client \<Rightarrow> bool" where
  "timer_inv c \<longleftrightarrow>
     (timers c = [] \<or> (\<exists>t. timers c = [t] \<and> heart_beat_timer c = Some t)) \<and>
     (connected c \<longrightarrow> timers c \<noteq> [] \<and> sk_state (tcp_socket c) = Sock_Connected) \<and>
     (sk_state (tcp_socket c) = Sock_New \<longrightarrow> timers c = []) \<and>
     MAX_MSG_SIZE c = 16777216"

lemma write_frame:
  assumes "write_with_length_prefix r d c = (x, c')"
  shows "timers c' = timers c" and "heart_beat_timer c' = heart_beat_timer c"
    and "next_timer c' = next_timer c" and "MAX_MSG_SIZE c' = MAX_MSG_SIZE c"
    and "sk_state (tcp_socket c') = sk_state (tcp_socket c)" and "connected c' \<longrightarrow> connected c"
  using assms by (auto simp: write_with_length_prefix_def sock_sendall_def client_simps
      split: if_splits sum.splits prod.splits send_result.splits)

lemma timer_inv_write:
  "timer_inv c \<Longrightarrow> write_with_length_prefix r d c = (x, c') \<Longrightarrow> timer_inv c'"
  using write_frame [of r d c x c'] by (auto simp: timer_inv_def)

lemma write_heartbeat_ok:
  "MAX_MSG_SIZE c = 16777216 \<Longrightarrow> fst (write_with_length_prefix r HEARTBEAT c) = Inr ()"
  by (simp add: write_eq HEARTBEAT_def split: send_result.split)

lemma timer_inv_fire:
  assumes "timer_inv c" and "fire_timer r t c = (x, c')"
  shows "timer_inv c'"
proof (cases "t \<in> set (timers c)")
  case False
  with assms show ?thesis by (simp add: fire_timer_def)
next
  case True
  then have ts: "timers c = [t]" using assms(1) by (auto simp: timer_inv_def)
  let ?c = "c\<lparr>timers := []\<rparr>"
  obtain c1 where w: "write_with_length_prefix r HEARTBEAT ?c = (Inr (), c1)"
    using write_heartbeat_ok [of ?c r] assms(1) by (metis prod.collapse timer_inv_def
        tcp_client.select_convs(7) tcp_client.surjective tcp_client.update_convs(9))
  have "c' = (if connected c then start_heart_beat c1 else ?c)"
    using assms(2) ts w by (simp add: fire_timer_def send_heart_beat_def connected_def
        split: if_splits)
  then show ?thesis
    using assms(1) write_frame [OF w] by (auto simp: timer_inv_def client_simps split: if_splits)
qed

lemma timer_inv_exec: "timer_inv c \<Longrightarrow> timer_inv (client_exec op c)"
proof (cases op)
  case (Op_fire r t)
  moreover assume "timer_inv c"
  ultimately show ?thesis
    using timer_inv_fire [of c r t "fst (fire_timer r t c)" "snd (fire_timer r t c)"] by simp
next
  case (Op_send r d)
  moreover assume "timer_inv c"
  ultimately show ?thesis
    by (simp add: send_data_def timer_inv_write [of c r d "fst (write_with_length_prefix r d c)"])
next
  case (Op_recv r)
  moreover assume "timer_inv c"
  ultimately show ?thesis
    by (cases rule: recv_pass_cases [of r c]) (auto simp: timer_inv_def client_simps)
qed (auto simp: timer_inv_def disconnect_def connect_to_server_def sock_connect_def client_simps
    split: option.splits)

lemma client_trace_timer: "client_trace c ms \<Longrightarrow> timer_inv c"
proof (induction rule: client_trace.induct)
  case start
  then show ?case by (simp add: timer_inv_def new_client_def connected_def)
qed (rule timer_inv_exec)



section \<open>Empty messages\<close>

lemma next_frame_empty: "next_frame mx (frame [] @ rest) = Invalid"
  by (simp add: next_frame_def frame_def struct_pack_I_def MAGIC_def)

text \<open>
  The two ends disagree on empty messages.  \<^verbatim>\<open>send_data\<close> accepts an empty
  message and sends its frame without an error, and any client that reads that frame
  rejects it as invalid, runs no callback, closes its socket and disconnects.
\<close>

theorem empty_message_disconnects_peer:
  assumes "connected c" and "sk_state (tcp_socket c) = Sock_Connected" and "MAX_MSG_SIZE c < 2 ^ 32"
    and "online (client s)" and "buffer (client s) = []"
  shows "send_data Send_Ok [] c = (Inr (), add_sent (frame []) c) \<and>
     receive_data client client_update call [Recv_Data (frame [])] s =
       Some (Exit, s\<lparr>client := drop_connection ((client s)\<lparr>buffer := frame []\<rparr>)\<rparr>)"
proof -
  have "process_buffer client client_update call
      (client_update (\<lambda>c. c\<lparr>buffer := buffer c @ frame []\<rparr>) s) =
      Some (Inr (), s\<lparr>client := drop_connection ((client s)\<lparr>buffer := frame []\<rparr>)\<rparr>)"
    using assms(5) next_frame_empty [of _ "[]"] by (subst process_buffer_step) (simp add: comp_def)
  moreover have "frame [] \<noteq> []" by (simp add: frame_def MAGIC_def)
  ultimately show ?thesis
    using assms by (simp add: send_data_def write_eq receive_body_def sock_recv_def online_def
        drop_connection_def client_simps)
qed

theorem empty_message_disconnects_peer_witness:
  "send_data Send_Ok [] fresh_online = (Inr (), add_sent (frame []) fresh_online) \<and>
   receive_data client client_update (app_callback (\<lambda>m w. w @ [m])) [Recv_Data (frame [])]
     \<lparr>client = fresh_online, app = []\<rparr> =
     Some (Exit, \<lparr>client = drop_connection (fresh_online\<lparr>buffer := frame []\<rparr>), app = []\<rparr>)"
  using empty_message_disconnects_peer [of fresh_online "\<lparr>client = fresh_online, app = [] :: bytes list\<rparr>"
      "app_callback (\<lambda>m w. w @ [m])"]
  by (simp add: fresh_online)

section \<open>Disconnecting from inside a callback\<close>

text \<open>A callback that handles a message and then disconnects the client.\<close>

definition disconnecting_callback ::
  "(bytes \<Rightarrow> 'w \<Rightarrow> 'w) \<Rightarrow> bound_method \<Rightarrow> bytes \<Rightarrow> 'w client_app \<Rightarrow> unit res \<times> 'w client_app" where
  "disconnecting_callback f m d s =
     (Inr (), s\<lparr>app := f d (app s), client := disconnect (client s)\<rparr>)"

lemma disconnect_frame:
  "buffer (disconnect c) = buffer c" "MAX_MSG_SIZE (disconnect c) = MAX_MSG_SIZE c"
  "received_data_callback (disconnect c) = received_data_callback c" "\<not> connected (disconnect c)"
  by (simp_all add: disconnect_def client_simps split: option.split)

lemma disconnecting_keeps: "keeps_buffer client (disconnecting_callback f)"
  by (simp add: keeps_buffer_def disconnecting_callback_def disconnect_frame)

lemma deliver_disconnecting:
  "received_data_callback (client s) \<noteq> None \<Longrightarrow>
   \<exists>s'. deliver client client_update (disconnecting_callback f) ms s = (Inr (), s') \<and>
      app s' = fold f (filter (\<lambda>m. m \<noteq> HEARTBEAT_RESPONSE) ms) (app s)"
proof (induction ms arbitrary: s)
  case (Cons m ms)
  let ?s1 = "client_update (consume m) s"
  let ?s2 = "?s1\<lparr>app := f m (app s), client := disconnect (client ?s1)\<rparr>"
  have h: "handle_received_data client (disconnecting_callback f) m ?s1 = (Inr (), ?s2)"
    using Cons.prems by (auto simp: handle_received_data_def disconnecting_callback_def consume_def)
  from Cons.IH [of ?s1] Cons.IH [of ?s2] Cons.prems h show ?case
    by (auto simp: Let_def consume_def disconnect_frame simp del: client_app.update_convs)
qed simp

text \<open>
  \<^verbatim>\<open>disconnect\<close> does not stop the delivery of what is already
  buffered.  When a callback disconnects the client on the first message of a buffer, all
  other complete messages of that buffer are still delivered, in order, before the loop
  returns; the client is disconnected then.
\<close>

theorem buffered_messages_survive_disconnect:
  assumes "received_data_callback (client s) \<noteq> None"
    and "parse_stream (MAX_MSG_SIZE (client s)) (buffer (client s)) = (ms, left, Need_More)"
  shows "\<exists>s'. process_buffer client client_update (disconnecting_callback f) s = Some (Inr (), s') \<and>
      app s' = fold f (filter (\<lambda>m. m \<noteq> HEARTBEAT_RESPONSE) ms) (app s)"
  using deliver_disconnecting [OF assms(1), of f ms] assms(2)
  by (auto simp: direct.process_buffer_refines [OF disconnecting_keeps] process_spec_def)

theorem buffered_messages_survive_disconnect_witness:
  "\<exists>s'. process_buffer client client_update (disconnecting_callback (\<lambda>m w. w @ [m]))
       \<lparr>client = fresh_online\<lparr>buffer := frames [b_lit ''a'', b_lit ''b'']\<rparr>, app = []\<rparr> = Some (Inr (), s') \<and>
      app s' = [b_lit ''a'', b_lit ''b'']"
proof -
  let ?s = "\<lparr>client = fresh_online\<lparr>buffer := frames [b_lit ''a'', b_lit ''b'']\<rparr>, app = [] :: bytes list\<rparr>"
  have v: "list_all (valid_msg 16777216) [b_lit ''a'', b_lit ''b'']" by (simp add: valid_msg_def)
  have p: "parse_stream (MAX_MSG_SIZE (client ?s)) (buffer (client ?s)) = ([b_lit ''a'', b_lit ''b''], [], Need_More)"
    using parse_stream_frames [OF _ v, of "[]"]
    by (simp add: fresh_online parse_stream_unfold(1) next_frame_def)
  have cb: "received_data_callback (client ?s) \<noteq> None" by (simp add: fresh_online)
  from buffered_messages_survive_disconnect [OF cb p, of "\<lambda>m w. w @ [m]"]
  show ?thesis by (simp add: HEARTBEAT_RESPONSE_def b_lit_def)
qed

end
