(* ===== verification/KL_Threads.thy ===== *)
theory KL_Threads
  imports KL_Connection
begin

text \<open>
  The threads of one \<^verbatim>\<open>TcpClient\<close>, at the grain of single accesses to what they share: the
  flag, the socket, the attribute \<^verbatim>\<open>heart_beat_timer\<close> and the timers.  Every call of a
  method and every timer that fires is a thread of its own, at a point of the code given by
  \<open>pc\<close>; a schedule picks which thread makes its next step.  \<^verbatim>\<open>sendall\<close> is a loop of
  sends, each of which takes a part of what is left, so other threads may send in between:
  the lock of the class is only held around the receive buffer.

  The receive thread appears with its effect on the flag and the socket; what it does with
  the bytes is the subject of \<^verbatim>\<open>KL_Framing\<close>.
\<close>

section \<open>Program points\<close>

text \<open>Who called \<^verbatim>\<open>start_heart_beat\<close>, and who called \<^verbatim>\<open>_write_with_length_prefix\<close>.\<close>

datatype starter = From_connect | From_heartbeat

datatype writer = From_send | From_timer

datatype pc =
    Connect_call pystr nat
  | Connect_flag
  | Connect_thread
  | Start_check starter
  | Start_create starter
  | Start_daemon starter
  | Start_start starter
  | Write_check bytes writer
  | Write_sending bytes writer
  | Write_error writer
  | Heartbeat_check
  | Recv_check
  | Recv_wait
  | Recv_lost
  | Recv_bad
  | Recv_close
  | Disc_flag
  | Disc_check
  | Disc_cancel
  | Disc_none
  | Disc_close
  | Finished
  | Crashed exn

text \<open>What the operating system does at a call: it works (and a send takes so many bytes), it
  fails, or what arrives holds a bad frame.\<close>

datatype outcome = Works nat | Fails | Bad_input

text \<open>
  \<open>cancelled\<close> and \<open>started\<close> are the timers on which \<^verbatim>\<open>cancel\<close> and \<^verbatim>\<open>start\<close> were called.  The
  last two fields record the run: the payload each thread was called with, and who sent
  which bytes.
\<close>

record conc =
  cl :: tcp_client
  cancelled :: "nat list"
  started :: "nat list"
  threads :: "pc list"
  payloads :: "bytes option list"
  chunks :: "(nat \<times> bytes) list"

section \<open>Steps of one thread\<close>

fun after_start :: "starter \<Rightarrow> pc" where
  "after_start From_connect = Connect_thread"
| "after_start From_heartbeat = Finished"

fun after_write :: "writer \<Rightarrow> pc" where
  "after_write From_send = Finished"
| "after_write From_timer = Start_check From_heartbeat"

text \<open>\<^verbatim>\<open>connect_to_server\<close> and \<^verbatim>\<open>start_heart_beat\<close>.\<close>

fun connect_step :: "outcome \<Rightarrow> pc \<Rightarrow> conc \<Rightarrow> pc \<times> conc" where
  "connect_step ch (Connect_call ip port) s =
     (case sock_connect (ch \<noteq> Fails) (tcp_socket (cl s)) of
        (Inl e, sk) \<Rightarrow> (Finished, s\<lparr>cl := (cl s)\<lparr>server_addr := Some (ip, port), tcp_socket := sk\<rparr>\<rparr>)
      | (Inr _, sk) \<Rightarrow> (Connect_flag, s\<lparr>cl := (cl s)\<lparr>server_addr := Some (ip, port), tcp_socket := sk\<rparr>\<rparr>))"
| "connect_step ch Connect_flag s = (Start_check From_connect, s\<lparr>cl := set_connected True (cl s)\<rparr>)"
| "connect_step ch (Start_check a) s = (if connected (cl s) then Start_create a else after_start a, s)"
| "connect_step ch (Start_create a) s =
     (Start_daemon a, s\<lparr>cl := (cl s)\<lparr>heart_beat_timer := Some (next_timer (cl s)),
                                     next_timer := Suc (next_timer (cl s))\<rparr>\<rparr>)"
| "connect_step ch (Start_daemon a) s =
     (if heart_beat_timer (cl s) = None then Crashed AttributeError else Start_start a, s)"
| "connect_step ch (Start_start a) s =
     (case heart_beat_timer (cl s) of
        None \<Rightarrow> (Crashed AttributeError, s)
      | Some t \<Rightarrow>
          (if t \<in> set (started s) then (Crashed RuntimeError, s)
           else (after_start a,
                 s\<lparr>started := t # started s,
                   cl := (if t \<in> set (cancelled s) then cl s else (cl s)\<lparr>timers := timers (cl s) @ [t]\<rparr>)\<rparr>)))"
| "connect_step ch Connect_thread s =
     (Finished, s\<lparr>cl := (cl s)\<lparr>receivers := Suc (receivers (cl s))\<rparr>,
                  threads := threads s @ [Recv_check], payloads := payloads s @ [None]\<rparr>)"
| "connect_step ch p s = (p, s)"

text \<open>\<^verbatim>\<open>_write_with_length_prefix\<close> and \<^verbatim>\<open>send_heart_beat\<close>; \<open>i\<close> is the number of the thread.\<close>

fun write_step :: "nat \<Rightarrow> outcome \<Rightarrow> pc \<Rightarrow> conc \<Rightarrow> pc \<times> conc" where
  "write_step i ch (Write_check data w) s =
     (if \<not> connected (cl s) then (after_write w, s)
      else if length data > MAX_MSG_SIZE (cl s) then (Crashed ValueError, s)
      else (case struct_pack_I (length data) of
          Inl e \<Rightarrow> (Crashed e, s)
        | Inr len \<Rightarrow> (Write_sending ((MAGIC @ len) @ data) w, s)))"
| "write_step i ch (Write_sending rest w) s =
     (if rest = [] then (after_write w, s)
      else (case ch of
          Works n \<Rightarrow>
            (if sk_state (tcp_socket (cl s)) \<noteq> Sock_Connected then (Write_error w, s)
             else (let part = take (Suc n) rest in
                   (Write_sending (drop (Suc n) rest) w,
                    s\<lparr>cl := add_sent part (cl s), chunks := chunks s @ [(i, part)]\<rparr>)))
        | _ \<Rightarrow> (Write_error w, s)))"
| "write_step i ch (Write_error w) s = (after_write w, s\<lparr>cl := set_connected False (cl s)\<rparr>)"
| "write_step i ch Heartbeat_check s =
     (if connected (cl s) then Write_check HEARTBEAT From_timer else Finished, s)"
| "write_step i ch p s = (p, s)"

text \<open>\<^verbatim>\<open>receive_data\<close>, up to what it does to the flag and the socket.\<close>

fun recv_step :: "outcome \<Rightarrow> pc \<Rightarrow> conc \<Rightarrow> pc \<times> conc" where
  "recv_step ch Recv_check s = (if connected (cl s) then Recv_wait else Finished, s)"
| "recv_step ch Recv_wait s =
     (if sk_state (tcp_socket (cl s)) \<noteq> Sock_Connected then Recv_lost
      else (case ch of Works n \<Rightarrow> Recv_check | Fails \<Rightarrow> Recv_lost | Bad_input \<Rightarrow> Recv_bad), s)"
| "recv_step ch Recv_lost s = (Finished, s\<lparr>cl := set_connected False (cl s)\<rparr>)"
| "recv_step ch Recv_bad s = (Recv_close, s\<lparr>cl := set_connected False (cl s)\<rparr>)"
| "recv_step ch Recv_close s = (Recv_check, s\<lparr>cl := (cl s)\<lparr>tcp_socket := sock_close (tcp_socket (cl s))\<rparr>\<rparr>)"
| "recv_step ch p s = (p, s)"

text \<open>\<^verbatim>\<open>disconnect\<close>: the attribute is read anew at each of its occurrences.\<close>

fun disc_step :: "pc \<Rightarrow> conc \<Rightarrow> pc \<times> conc" where
  "disc_step Disc_flag s = (Disc_check, s\<lparr>cl := set_connected False (cl s)\<rparr>)"
| "disc_step Disc_check s = (if heart_beat_timer (cl s) = None then Disc_close else Disc_cancel, s)"
| "disc_step Disc_cancel s =
     (case heart_beat_timer (cl s) of
        None \<Rightarrow> (Crashed AttributeError, s)
      | Some t \<Rightarrow> (Disc_none, s\<lparr>cancelled := t # cancelled s,
                               cl := (cl s)\<lparr>timers := remove1 t (timers (cl s))\<rparr>\<rparr>))"
| "disc_step Disc_none s = (Disc_close, s\<lparr>cl := (cl s)\<lparr>heart_beat_timer := None\<rparr>\<rparr>)"
| "disc_step Disc_close s = (Finished, s\<lparr>cl := (cl s)\<lparr>tcp_socket := sock_close (tcp_socket (cl s))\<rparr>\<rparr>)"
| "disc_step p s = (p, s)"

text \<open>A thread at \<open>Finished\<close> or \<open>Crashed\<close> makes no further step.\<close>

definition pc_step :: "nat \<Rightarrow> outcome \<Rightarrow> pc \<Rightarrow> conc \<Rightarrow> pc \<times> conc" where
  "pc_step i ch p s =
     (case p of
        Write_check _ _ \<Rightarrow> write_step i ch p s
      | Write_sending _ _ \<Rightarrow> write_step i ch p s
      | Write_error _ \<Rightarrow> write_step i ch p s
      | Heartbeat_check \<Rightarrow> write_step i ch p s
      | Recv_check \<Rightarrow> recv_step ch p s
      | Recv_wait \<Rightarrow> recv_step ch p s
      | Recv_lost \<Rightarrow> recv_step ch p s
      | Recv_bad \<Rightarrow> recv_step ch p s
      | Recv_close \<Rightarrow> recv_step ch p s
      | Disc_flag \<Rightarrow> disc_step p s
      | Disc_check \<Rightarrow> disc_step p s
      | Disc_cancel \<Rightarrow> disc_step p s
      | Disc_none \<Rightarrow> disc_step p s
      | Disc_close \<Rightarrow> disc_step p s
      | _ \<Rightarrow> connect_step ch p s)"

section \<open>Schedules\<close>

datatype event =
    Ev_connect pystr nat
  | Ev_send bytes
  | Ev_disconnect
  | Ev_fire nat
  | Ev_step nat outcome

definition spawn :: "pc \<Rightarrow> bytes option \<Rightarrow> conc \<Rightarrow> conc" where
  "spawn p d s = s\<lparr>threads := threads s @ [p], payloads := payloads s @ [d]\<rparr>"

definition thread_step :: "nat \<Rightarrow> outcome \<Rightarrow> conc \<Rightarrow> conc" where
  "thread_step i ch s =
     (if i < length (threads s)
      then (case pc_step i ch (threads s ! i) s of (p', s') \<Rightarrow> s'\<lparr>threads := (threads s')[i := p']\<rparr>)
      else s)"

text \<open>A call starts a thread; a pending timer fires once and starts one as well.\<close>

fun conc_exec :: "event \<Rightarrow> conc \<Rightarrow> conc" where
  "conc_exec (Ev_connect ip port) s = spawn (Connect_call ip port) None s"
| "conc_exec (Ev_send d) s = spawn (Write_check d From_send) (Some d) s"
| "conc_exec Ev_disconnect s = spawn Disc_flag None s"
| "conc_exec (Ev_fire t) s =
     (if t \<in> set (timers (cl s))
      then spawn Heartbeat_check (Some HEARTBEAT) (s\<lparr>cl := (cl s)\<lparr>timers := remove1 t (timers (cl s))\<rparr>\<rparr>)
      else s)"
| "conc_exec (Ev_step i ch) s = thread_step i ch s"

definition conc_init :: conc where
  "conc_init = \<lparr>cl = new_client, cancelled = [], started = [], threads = [], payloads = [], chunks = []\<rparr>"

inductive conc_reach :: "conc \<Rightarrow> bool" where
  init: "conc_reach conc_init"
| exec: "conc_reach s \<Longrightarrow> conc_reach (conc_exec ev s)"

lemma conc_reach_run: "conc_reach s \<Longrightarrow> conc_reach (fold conc_exec evs s)"
  by (induction evs arbitrary: s) (auto intro: conc_reach.exec simp del: conc_exec.simps)

section \<open>Invariants of the state\<close>

text \<open>Updating one thread, in sums over all threads.\<close>

definition tally :: "(pc \<Rightarrow> nat) \<Rightarrow> conc \<Rightarrow> nat" where
  "tally f s = sum_list (map f (threads s))"

lemma tally_simps [simp]:
  "tally f (spawn p d s) = tally f s + f p" "tally f (s\<lparr>cl := c\<rparr>) = tally f s"
  by (simp_all add: tally_def spawn_def)

lemma spawn_simps [simp]:
  "cl (spawn p d s) = cl s" "threads (spawn p d s) = threads s @ [p]" "payloads (spawn p d s) = payloads s @ [d]"
  "chunks (spawn p d s) = chunks s" "started (spawn p d s) = started s" "cancelled (spawn p d s) = cancelled s"
  by (simp_all add: spawn_def)

lemma sum_list_set: "i < length xs \<Longrightarrow> sum_list (map f (xs[i := y])) + f (xs ! i) = sum_list (map f xs) + (f y :: nat)"
  by (induction xs arbitrary: i) (auto simp: nth_Cons split: nat.splits)

lemma pc_step_threads:
  "pc_step i ch p s = (p', s') \<Longrightarrow>
     threads s' = threads s @ (if p = Connect_thread then [Recv_check] else []) \<and>
     payloads s' = payloads s @ (if p = Connect_thread then [None] else [])"
  by (cases p) (auto simp: pc_step_def Let_def split: if_splits option.splits sum.splits outcome.splits prod.splits)

lemma tally_thread_step:
  assumes "i < length (threads s)" and "pc_step i ch (threads s ! i) s = (p', s')" and "f Recv_check = 0"
  shows "tally f (thread_step i ch s) + f (threads s ! i) = tally f s + f p'"
proof -
  have "threads (thread_step i ch s) = (threads s)[i := p'] @ (if threads s ! i = Connect_thread then [Recv_check] else [])"
    using assms(1,2) pc_step_threads [OF assms(2)] by (simp add: thread_step_def list_update_append1)
  with sum_list_set [OF assms(1), of f p'] assms(3) show ?thesis by (auto simp: tally_def)
qed

subsection \<open>One heartbeat\<close>

text \<open>A thread that is going to start a timer, or to send a heartbeat and then start one.\<close>

fun beats :: "pc \<Rightarrow> nat" where
  "beats Connect_flag = 1"
| "beats (Start_check a) = 1"
| "beats (Start_create a) = 1"
| "beats (Start_daemon a) = 1"
| "beats (Start_start a) = 1"
| "beats (Write_check d From_timer) = 1"
| "beats (Write_sending d From_timer) = 1"
| "beats (Write_error From_timer) = 1"
| "beats Heartbeat_check = 1"
| "beats p = 0"

definition beat_inv :: "conc \<Rightarrow> bool" where
  "beat_inv s \<longleftrightarrow> length (timers (cl s)) + tally beats s \<le> 1 \<and>
     (sk_state (tcp_socket (cl s)) = Sock_New \<longrightarrow> length (timers (cl s)) + tally beats s = 0)"

lemmas step_simps = pc_step_def Let_def set_connected_def connected_def sock_close_def add_sent_def sock_connect_def

lemma length_remove1_le: "length (remove1 t ts) \<le> length ts"
  by (simp add: length_remove1)

lemma pc_step_beats:
  assumes "pc_step i ch p s = (p', s')"
  shows "length (timers (cl s')) + beats p' \<le> length (timers (cl s)) + beats p \<and>
           (sk_state (tcp_socket (cl s')) = Sock_New \<longrightarrow> sk_state (tcp_socket (cl s)) = Sock_New) \<or>
         sk_state (tcp_socket (cl s)) = Sock_New \<and> sk_state (tcp_socket (cl s')) = Sock_Connected \<and>
           length (timers (cl s')) = length (timers (cl s)) \<and> beats p = 0 \<and> beats p' = 1"
proof (cases p)
  case (Start_check a)
  with assms show ?thesis by (cases a) (auto simp: step_simps split: if_splits)
next
  case (Start_start a)
  with assms show ?thesis by (cases a) (auto simp: step_simps split: if_splits option.splits)
next
  case (Write_check d w)
  with assms show ?thesis by (cases w) (auto simp: step_simps split: if_splits sum.splits)
next
  case (Write_sending d w)
  with assms show ?thesis by (cases w) (auto simp: step_simps split: if_splits outcome.splits)
next
  case (Write_error w)
  with assms show ?thesis by (cases w) (auto simp: step_simps)
next
  case Disc_cancel
  with assms show ?thesis using length_remove1_le by (auto simp: step_simps split: option.splits)
qed (use assms in \<open>auto simp: step_simps split: if_splits option.splits sum.splits outcome.splits prod.splits\<close>)

lemma beat_inv_reach: "conc_reach s \<Longrightarrow> beat_inv s"
proof (induction rule: conc_reach.induct)
  case init
  show ?case by (simp add: beat_inv_def conc_init_def tally_def new_client_def)
next
  case (exec s ev)
  show ?case
  proof (cases ev)
    case (Ev_fire t)
    with exec.IH show ?thesis
      by (cases "timers (cl s)") (auto simp: beat_inv_def length_remove1)
  next
    case (Ev_step i ch)
    show ?thesis
    proof (cases "i < length (threads s)")
      case True
      obtain p' s' where p: "pc_step i ch (threads s ! i) s = (p', s')" by fastforce
      have eq: "cl (thread_step i ch s) = cl s'" using True p by (simp add: thread_step_def)
      define n n' where "n = length (timers (cl s))" and "n' = length (timers (cl s'))"
      from tally_thread_step [OF True p, of beats] pc_step_beats [OF p] exec.IH show ?thesis
        unfolding Ev_step beat_inv_def conc_exec.simps eq n_def [symmetric] n'_def [symmetric] by auto
    qed (use exec.IH Ev_step in \<open>simp add: thread_step_def\<close>)
  qed (use exec.IH in \<open>simp_all add: beat_inv_def\<close>)
qed

text \<open>A thread that has created a timer and not yet started it.\<close>

fun starting :: "pc \<Rightarrow> nat" where
  "starting (Start_daemon a) = 1"
| "starting (Start_start a) = 1"
| "starting p = 0"

lemma starting_le_beats: "starting p \<le> beats p"
  by (cases p) auto

lemma tally_mono: "(\<And>p. f p \<le> g p) \<Longrightarrow> tally f s \<le> tally g s"
  unfolding tally_def by (rule sum_list_mono) simp

definition start_inv :: "conc \<Rightarrow> bool" where
  "start_inv s \<longleftrightarrow> (\<forall>t \<in> set (started s). t < next_timer (cl s)) \<and>
     (\<forall>t. heart_beat_timer (cl s) = Some t \<longrightarrow> t < next_timer (cl s)) \<and>
     (\<forall>t. heart_beat_timer (cl s) = Some t \<longrightarrow> 0 < tally starting s \<longrightarrow> t \<notin> set (started s))"

lemma pc_step_start:
  assumes "pc_step i ch p s = (p', s')"
  shows "started s' = started s \<and> (heart_beat_timer (cl s') = heart_beat_timer (cl s) \<or> heart_beat_timer (cl s') = None) \<and>
           next_timer (cl s') = next_timer (cl s) \<and> starting p' \<le> starting p \<or>
         (\<exists>t. heart_beat_timer (cl s) = Some t \<and> started s' = t # started s \<and> t \<notin> set (started s) \<and>
            starting p = 1 \<and> starting p' = 0 \<and>
            heart_beat_timer (cl s') = heart_beat_timer (cl s) \<and> next_timer (cl s') = next_timer (cl s)) \<or>
         (heart_beat_timer (cl s') = Some (next_timer (cl s)) \<and> next_timer (cl s') = Suc (next_timer (cl s)) \<and>
            started s' = started s)"
proof (cases p)
  case (Start_check a)
  with assms show ?thesis by (cases a) (auto simp: step_simps split: if_splits)
next
  case (Start_start a)
  with assms show ?thesis by (cases a) (auto simp: step_simps split: if_splits option.splits)
next
  case (Write_check d w)
  with assms show ?thesis by (cases w) (auto simp: step_simps split: if_splits sum.splits)
next
  case (Write_sending d w)
  with assms show ?thesis by (cases w) (auto simp: step_simps split: if_splits outcome.splits)
next
  case (Write_error w)
  with assms show ?thesis by (cases w) (auto simp: step_simps)
qed (use assms in \<open>auto simp: step_simps split: if_splits option.splits sum.splits outcome.splits prod.splits\<close>)

lemma start_inv_step:
  assumes "start_inv s" and "beat_inv s" and "i < length (threads s)"
  shows "start_inv (thread_step i ch s)"
proof -
  obtain p' s' where p: "pc_step i ch (threads s ! i) s = (p', s')" by fastforce
  have eq: "cl (thread_step i ch s) = cl s'" "started (thread_step i ch s) = started s'"
    using assms(3) p by (simp_all add: thread_step_def)
  have t: "tally starting (thread_step i ch s) + starting (threads s ! i) = tally starting s + starting p'"
    using tally_thread_step [OF assms(3) p] by simp
  have le: "tally starting s \<le> 1"
    using tally_mono [of starting beats s] starting_le_beats assms(2) by (auto simp: beat_inv_def intro: order_trans)
  from pc_step_start [OF p] show ?thesis
  proof (elim disjE exE conjE)
    fix tm
    assume "heart_beat_timer (cl s) = Some tm" "started s' = tm # started s" "starting (threads s ! i) = 1"
      "starting p' = 0" "heart_beat_timer (cl s') = heart_beat_timer (cl s)" "next_timer (cl s') = next_timer (cl s)"
    with assms(1) t le show ?thesis by (simp add: start_inv_def eq)
  qed (use assms(1) t le in \<open>auto simp: start_inv_def eq less_Suc_eq\<close>)
qed

lemma start_inv_reach: "conc_reach s \<Longrightarrow> start_inv s"
proof (induction rule: conc_reach.induct)
  case init
  show ?case by (simp add: start_inv_def conc_init_def new_client_def)
next
  case (exec s ev)
  show ?case
  proof (cases ev)
    case (Ev_step i ch)
    with exec start_inv_step [OF exec.IH beat_inv_reach] show ?thesis
      by (cases "i < length (threads s)") (auto simp: thread_step_def)
  qed (use exec.IH in \<open>auto simp: start_inv_def\<close>)
qed

lemma tally_member:
  assumes "i < length (threads s)"
  shows "f (threads s ! i) \<le> tally f s"
  using assms member_le_sum_list [of "f (threads s ! i)" "map f (threads s)"] by (simp add: tally_def)

lemma no_RuntimeError: "conc_reach s \<Longrightarrow> Crashed RuntimeError \<notin> set (threads s)"
proof (induction rule: conc_reach.induct)
  case init
  show ?case by (simp add: conc_init_def)
next
  case (exec s ev)
  show ?case
  proof (cases ev)
    case (Ev_step i ch)
    show ?thesis
    proof (cases "i < length (threads s)")
      case True
      obtain p' s' where p: "pc_step i ch (threads s ! i) s = (p', s')" by fastforce
      have fresh: "t \<notin> set (started s)" if "threads s ! i = Start_start a" "heart_beat_timer (cl s) = Some t" for a t
        using start_inv_reach [OF exec.hyps] tally_member [OF True, of starting] that by (simp add: start_inv_def)
      have "p' \<noteq> Crashed RuntimeError"
      proof (cases "threads s ! i")
        case (Start_start a)
        with p fresh show ?thesis by (cases a) (auto simp: step_simps split: if_splits option.splits)
      next
        case (Start_check a)
        with p show ?thesis by (cases a) (auto simp: step_simps split: if_splits)
      next
        case (Write_check d w)
        with p show ?thesis by (cases w) (auto simp: step_simps struct_pack_I_def split: if_splits sum.splits)
      next
        case (Write_sending d w)
        with p show ?thesis by (cases w) (auto simp: step_simps split: if_splits outcome.splits)
      next
        case (Write_error w)
        with p show ?thesis by (cases w) (auto simp: step_simps)
      next
        case (Crashed e)
        with p exec.IH nth_mem [OF True] show ?thesis by (auto simp: step_simps)
      qed (use p in \<open>auto simp: step_simps split: if_splits option.splits sum.splits outcome.splits prod.splits\<close>)
      moreover have "set (threads (thread_step i ch s)) \<subseteq> insert p' (insert Recv_check (set (threads s)))"
        using True p pc_step_threads [OF p] by (auto simp: thread_step_def list_update_append1 dest: set_update_subset_insert [THEN subsetD])
      ultimately show ?thesis using exec.IH Ev_step by auto
    qed (use exec.IH Ev_step in \<open>simp add: thread_step_def\<close>)
  qed (use exec.IH in auto)
qed

text \<open>
  Claim C18 (invariant): however the threads of a client interleave, at most one heartbeat timer is pending,
  and none while a thread is about to send a heartbeat or to start a timer; and no thread
  ever starts a timer a second time.
\<close>

theorem one_timer_under_races:
  assumes "conc_reach s"
  shows "length (timers (cl s)) \<le> 1 \<and> (0 < tally beats s \<longrightarrow> timers (cl s) = []) \<and> tally beats s \<le> 1 \<and>
         Crashed RuntimeError \<notin> set (threads s)"
  using beat_inv_reach [OF assms] no_RuntimeError [OF assms] unfolding beat_inv_def
  by (cases "timers (cl s)") auto

section \<open>Who sent what\<close>

definition sent_by :: "nat \<Rightarrow> conc \<Rightarrow> bytes" where
  "sent_by i s = concat (map snd (filter (\<lambda>(j, _). j = i) (chunks s)))"

text \<open>How far a thread that was called with a payload has come, given the bytes it sent.\<close>

fun progress :: "pc \<Rightarrow> bytes option \<Rightarrow> bytes \<Rightarrow> bool" where
  "progress (Write_check d w) m b \<longleftrightarrow> m = Some d \<and> b = []"
| "progress Heartbeat_check m b \<longleftrightarrow> m = Some HEARTBEAT \<and> b = []"
| "progress (Write_sending rest w) m b \<longleftrightarrow> (\<exists>d. m = Some d \<and> length d \<le> 16777216 \<and> b @ rest = frame d)"
| "progress p m b \<longleftrightarrow> b = [] \<or> (\<exists>d. m = Some d \<and> length d \<le> 16777216 \<and> prefix b (frame d))"

lemma progress_weak: "progress p m b \<Longrightarrow> b = [] \<or> (\<exists>d. m = Some d \<and> length d \<le> 16777216 \<and> prefix b (frame d))"
  by (cases p) (auto intro: prefixI [OF sym])

definition shuffle_inv :: "conc \<Rightarrow> bool" where
  "shuffle_inv s \<longleftrightarrow> MAX_MSG_SIZE (cl s) = 16777216 \<and> length (payloads s) = length (threads s) \<and>
     sk_sent (tcp_socket (cl s)) = concat (map snd (chunks s)) \<and>
     (\<forall>c \<in> set (chunks s). fst c < length (threads s)) \<and>
     (\<forall>i < length (threads s). progress (threads s ! i) (payloads s ! i) (sent_by i s))"

lemma frame_struct: "length d \<le> 16777216 \<Longrightarrow> struct_pack_I (length d) = Inr len \<Longrightarrow> (MAGIC @ len) @ d = frame d"
  by (simp add: frame_def)

text \<open>The effect of one step on the wire and on the progress of its own thread.\<close>

lemma pc_step_progress:
  assumes "pc_step i ch p s = (p', s')" and "MAX_MSG_SIZE (cl s) = 16777216" and "progress p m b"
  shows "\<exists>part. chunks s' = chunks s @ (if part = [] then [] else [(i, part)]) \<and>
           sk_sent (tcp_socket (cl s')) = sk_sent (tcp_socket (cl s)) @ part \<and>
           MAX_MSG_SIZE (cl s') = 16777216 \<and> progress p' m (b @ part)"
proof (cases p)
  case (Start_check a)
  with assms show ?thesis by (cases a) (auto simp: step_simps split: if_splits intro!: exI [of _ "[]"])
next
  case (Start_start a)
  with assms show ?thesis by (cases a) (auto simp: step_simps split: if_splits option.splits intro!: exI [of _ "[]"])
next
  case (Write_check d w)
  with assms frame_struct show ?thesis
    by (cases w) (auto simp: step_simps split: if_splits sum.splits intro!: exI [of _ "[]"])
next
  case (Write_error w)
  with assms show ?thesis by (cases w) (auto simp: step_simps intro!: exI [of _ "[]"])
next
  case (Write_sending rest w)
  then obtain d where d: "m = Some d" "length d \<le> 16777216" "b @ rest = frame d" using assms(3) by auto
  show ?thesis
  proof (cases "rest \<noteq> [] \<and> (\<exists>n. ch = Works n) \<and> sk_state (tcp_socket (cl s)) = Sock_Connected")
    case True
    then obtain n where "ch = Works n" by blast
    with True Write_sending assms(1,2) d show ?thesis
      by (intro exI [of _ "take (Suc n) rest"]) (auto simp: step_simps)
  next
    case False
    have "prefix b (frame d)" using d(3) by (metis prefixI)
    with False Write_sending assms(1,2) d(1,2) show ?thesis
      by (cases w) (auto simp: step_simps split: if_splits outcome.splits intro!: exI [of _ "[]"])
  qed
qed (use assms in \<open>auto simp: step_simps split: if_splits option.splits sum.splits outcome.splits prod.splits
       intro!: exI [of _ "[]"]\<close>)

lemma sent_by_append:
  "chunks s' = chunks s @ (if part = [] then [] else [(i, part)]) \<Longrightarrow>
     sent_by j s' = sent_by j s @ (if j = i then part else [])"
  by (auto simp: sent_by_def)

lemma sent_by_cong: "chunks s' = chunks s \<Longrightarrow> sent_by i s' = sent_by i s"
  by (simp add: sent_by_def)

lemma sent_by_new: "\<forall>c \<in> set (chunks s). fst c < n \<Longrightarrow> sent_by n s = []"
  by (auto simp: sent_by_def filter_empty_conv)

lemma shuffle_spawn:
  assumes "shuffle_inv s" and "progress p d []"
  shows "shuffle_inv (spawn p d s)"
proof -
  have "progress ((threads s @ [p]) ! i) ((payloads s @ [d]) ! i) (sent_by i (spawn p d s))"
    if "i < Suc (length (threads s))" for i
    using assms that sent_by_new [of s "length (threads s)"] sent_by_cong [of "spawn p d s" s]
    by (cases "i < length (threads s)") (auto simp: shuffle_inv_def nth_append less_Suc_eq)
  with assms(1) show ?thesis by (auto simp: shuffle_inv_def less_Suc_eq)
qed

lemma shuffle_step:
  assumes "shuffle_inv s" and "i < length (threads s)"
  shows "shuffle_inv (thread_step i ch s)"
proof -
  obtain p' s' where p: "pc_step i ch (threads s ! i) s = (p', s')" by fastforce
  let ?s = "thread_step i ch s" and ?new = "threads s ! i = Connect_thread"
  have s: "?s = s'\<lparr>threads := (threads s')[i := p']\<rparr>" using assms(2) p by (simp add: thread_step_def)
  note th = pc_step_threads [OF p]
  have pr: "progress (threads s ! i) (payloads s ! i) (sent_by i s)" and mx: "MAX_MSG_SIZE (cl s) = 16777216"
    using assms by (simp_all add: shuffle_inv_def)
  obtain part where part: "chunks s' = chunks s @ (if part = [] then [] else [(i, part)])"
      "sk_sent (tcp_socket (cl s')) = sk_sent (tcp_socket (cl s)) @ part" "MAX_MSG_SIZE (cl s') = 16777216"
      "progress p' (payloads s ! i) (sent_by i s @ part)"
    using pc_step_progress [OF p mx pr] by blast
  have sb: "sent_by j ?s = sent_by j s @ (if j = i then part else [])" for j
    using sent_by_append [of ?s s part i] part(1) by (simp add: s)
  have thr: "threads ?s = (threads s)[i := p'] @ (if ?new then [Recv_check] else [])"
      and pay: "payloads ?s = payloads s @ (if ?new then [None] else [])"
      and cls: "cl ?s = cl s'" "chunks ?s = chunks s'"
    using th assms(2) by (auto simp: s list_update_append1)
  have "progress (threads ?s ! j) (payloads ?s ! j) (sent_by j ?s)" if j: "j < length (threads ?s)" for j
  proof (cases "j < length (threads s)")
    case True
    then show ?thesis
      using assms part(4) by (auto simp: thr pay sb shuffle_inv_def nth_append nth_list_update)
  next
    case False
    then have "?new" "j = length (threads s)" using j by (auto simp: thr split: if_splits)
    then show ?thesis
      using assms sent_by_new [of s j] by (auto simp: thr pay sb shuffle_inv_def nth_append)
  qed
  with assms part show ?thesis
    by (auto simp: shuffle_inv_def thr pay cls)
qed

lemma shuffle_inv_reach: "conc_reach s \<Longrightarrow> shuffle_inv s"
proof (induction rule: conc_reach.induct)
  case init
  show ?case by (simp add: shuffle_inv_def conc_init_def new_client_def new_socket_def)
next
  case (exec s ev)
  show ?case
  proof (cases ev)
    case (Ev_fire t)
    let ?s = "s\<lparr>cl := (cl s)\<lparr>timers := remove1 t (timers (cl s))\<rparr>\<rparr>"
    have "shuffle_inv ?s" using exec.IH by (simp add: shuffle_inv_def sent_by_def)
    from shuffle_spawn [OF this] exec.IH Ev_fire show ?thesis by simp
  next
    case (Ev_step i ch)
    with exec.IH shuffle_step [OF exec.IH, of i ch] show ?thesis
      by (cases "i < length (threads s)") (simp_all add: thread_step_def)
  qed (use shuffle_spawn [OF exec.IH] in simp_all)
qed

text \<open>
  Claim C19 (invariant): whatever the schedule, what is on the wire is a shuffle of frames.  The bytes are
  those that the threads sent, in the order in which they sent them; a thread that was
  called to send a message has sent the beginning of its frame, in order, and nothing
  else; the other threads send nothing.
\<close>

theorem wire_is_shuffle:
  assumes "conc_reach s" and "i < length (threads s)"
  shows "sk_sent (tcp_socket (cl s)) = concat (map snd (chunks s)) \<and>
         (case payloads s ! i of
            None \<Rightarrow> sent_by i s = []
          | Some d \<Rightarrow> prefix (sent_by i s) (frame d) \<and> (16777216 < length d \<longrightarrow> sent_by i s = []))"
proof -
  have inv: "shuffle_inv s" using assms(1) by (rule shuffle_inv_reach)
  with assms(2) have "progress (threads s ! i) (payloads s ! i) (sent_by i s)" by (simp add: shuffle_inv_def)
  from progress_weak [OF this] inv show ?thesis by (auto simp: shuffle_inv_def split: option.splits)
qed

end
