(* ===== verification/KL_ThreadRaces.thy ===== *)
theory KL_ThreadRaces
  imports KL_Threads
begin

text \<open>
  What the interleaving of threads can and cannot do to a client: a lost connection stays
  lost; the stream is a sequence of frames if no two threads are inside a write at a time;
  and the code does not ensure that, so that there are schedules in which two sends corrupt
  the stream and in which \<^verbatim>\<open>disconnect\<close> misses a timer.
\<close>

section \<open>The connection is made once\<close>

fun connecting :: "pc \<Rightarrow> nat" where
  "connecting Connect_flag = 1"
| "connecting p = 0"

text \<open>Threads between the check of the flag and the end of \<^verbatim>\<open>_write_with_length_prefix\<close>.\<close>

fun in_write :: "pc \<Rightarrow> nat" where
  "in_write (Write_sending rest w) = 1"
| "in_write (Write_error w) = 1"
| "in_write p = 0"

fun rest_len :: "pc \<Rightarrow> nat" where
  "rest_len (Write_sending rest w) = length rest"
| "rest_len p = 0"

lemma connecting_le_beats: "connecting p \<le> beats p"
  by (cases p) auto

text \<open>One step, seen from the flag, the socket and the writers.\<close>

lemma pc_step_flag:
  assumes "pc_step i ch p s = (p', s')"
  shows "(connected (cl s') \<longrightarrow> connected (cl s) \<or> p = Connect_flag) \<and>
         (connecting p' = 1 \<longrightarrow> sk_state (tcp_socket (cl s)) = Sock_New \<and> connecting p = 0) \<and>
         (sk_state (tcp_socket (cl s')) = Sock_New \<longrightarrow> sk_state (tcp_socket (cl s)) = Sock_New) \<and>
         (in_write p' = 1 \<longrightarrow> in_write p = 1 \<or> connected (cl s)) \<and>
         (in_write p = 0 \<longrightarrow> sk_sent (tcp_socket (cl s')) = sk_sent (tcp_socket (cl s)))"
proof (cases p)
  case (Start_check a)
  with assms show ?thesis by (cases a) (auto simp: step_simps split: if_splits)
next
  case (Start_start a)
  with assms show ?thesis by (cases a) (auto simp: step_simps split: if_splits option.splits)
next
  case (Write_check d w)
  with assms show ?thesis by (cases w) (auto simp: step_simps split: if_splits sum.splits)
next
  case (Write_error w)
  with assms show ?thesis by (cases w) (auto simp: step_simps)
next
  case (Write_sending rest w)
  with assms show ?thesis by (cases w) (auto simp: step_simps split: if_splits outcome.splits)
qed (use assms in \<open>auto simp: step_simps split: if_splits option.splits sum.splits outcome.splits prod.splits\<close>)

definition conn_inv :: "conc \<Rightarrow> bool" where
  "conn_inv s \<longleftrightarrow> (sk_state (tcp_socket (cl s)) = Sock_New \<or> 0 < tally connecting s \<longrightarrow>
     \<not> connected (cl s) \<and> tally in_write s = 0 \<and> sk_sent (tcp_socket (cl s)) = [])"

lemma connecting_01: "connecting p = 0 \<or> connecting p = 1" and in_write_01: "in_write p = 0 \<or> in_write p = 1"
  by (cases p; simp)+

lemma conn_inv_step:
  assumes "conn_inv s" and "beat_inv s" and "i < length (threads s)"
  shows "conn_inv (thread_step i ch s)"
proof -
  let ?p = "threads s ! i"
  obtain p' s' where p: "pc_step i ch ?p s = (p', s')" by fastforce
  have eq: "cl (thread_step i ch s) = cl s'" using assms(3) p by (simp add: thread_step_def)
  have t: "tally connecting (thread_step i ch s) + connecting ?p = tally connecting s + connecting p'"
      "tally in_write (thread_step i ch s) + in_write ?p = tally in_write s + in_write p'"
    using tally_thread_step [OF assms(3) p] by simp_all
  have le: "tally connecting s \<le> tally beats s" by (rule tally_mono [OF connecting_le_beats])
  have b: "tally connecting s \<le> 1" "sk_state (tcp_socket (cl s)) = Sock_New \<Longrightarrow> tally connecting s = 0"
    using assms(2) le by (auto simp: beat_inv_def)
  have m: "connecting ?p \<le> tally connecting s" "in_write ?p \<le> tally in_write s"
    using tally_member [OF assms(3)] by auto
  have cf: "?p = Connect_flag \<Longrightarrow> connecting ?p = 1" by simp
  note f = pc_step_flag [OF p]
  show ?thesis
    unfolding conn_inv_def eq
  proof
    assume new: "sk_state (tcp_socket (cl s')) = Sock_New \<or> 0 < tally connecting (thread_step i ch s)"
    have pre: "sk_state (tcp_socket (cl s)) = Sock_New \<or> 0 < tally connecting s" and np: "?p \<noteq> Connect_flag"
      using new f t(1) b m(1) cf connecting_01 [of p'] by auto
    with assms(1) f t(2) m(2) in_write_01 [of ?p] in_write_01 [of p']
    show "\<not> connected (cl s') \<and> tally in_write (thread_step i ch s) = 0 \<and> sk_sent (tcp_socket (cl s')) = []"
      by (auto simp: conn_inv_def)
  qed
qed

lemma conn_inv_reach: "conc_reach s \<Longrightarrow> conn_inv s"
proof (induction rule: conc_reach.induct)
  case init
  show ?case by (simp add: conn_inv_def conc_init_def new_client_def new_socket_def connected_def tally_def)
next
  case (exec s ev)
  show ?case
  proof (cases ev)
    case (Ev_step i ch)
    with exec.IH conn_inv_step [OF exec.IH beat_inv_reach [OF exec.hyps], of i ch] show ?thesis
      by (cases "i < length (threads s)") (simp_all add: thread_step_def)
  qed (use exec.IH in \<open>simp_all add: conn_inv_def connected_def\<close>)
qed

section \<open>A lost connection\<close>

text \<open>Not connected, and no attempt to connect that could still succeed.\<close>

definition lost_conn :: "conc \<Rightarrow> bool" where
  "lost_conn s \<longleftrightarrow> \<not> connected (cl s) \<and> sk_state (tcp_socket (cl s)) \<noteq> Sock_New \<and> tally connecting s = 0"

fun to_start :: "pc \<Rightarrow> nat" where
  "to_start (Start_create a) = 1"
| "to_start (Start_daemon a) = 1"
| "to_start (Start_start a) = 1"
| "to_start p = 0"

lemma pc_step_lost:
  assumes "pc_step i ch p s = (p', s')" and "\<not> connected (cl s)"
  shows "(\<exists>x. sk_sent (tcp_socket (cl s')) = sk_sent (tcp_socket (cl s)) @ x \<and> length x + rest_len p' \<le> rest_len p) \<and>
         length (timers (cl s')) + to_start p' \<le> length (timers (cl s)) + to_start p"
proof (cases p)
  case (Start_check a)
  with assms show ?thesis by (cases a) (auto simp: step_simps split: if_splits)
next
  case (Start_start a)
  with assms show ?thesis by (cases a) (auto simp: step_simps split: if_splits option.splits)
next
  case (Write_check d w)
  with assms show ?thesis by (cases w) (auto simp: step_simps split: if_splits sum.splits)
next
  case (Write_error w)
  with assms show ?thesis by (cases w) (auto simp: step_simps)
next
  case (Write_sending rest w)
  with assms show ?thesis by (cases w) (auto simp: step_simps split: if_splits outcome.splits)
next
  case Disc_cancel
  with assms show ?thesis using length_remove1_le by (auto simp: step_simps split: option.splits)
qed (use assms in \<open>auto simp: step_simps split: if_splits option.splits sum.splits outcome.splits prod.splits\<close>)

definition lost_bound :: "conc \<Rightarrow> conc \<Rightarrow> bool" where
  "lost_bound s s' \<longleftrightarrow>
     (\<exists>x. sk_sent (tcp_socket (cl s')) = sk_sent (tcp_socket (cl s)) @ x \<and> length x + tally rest_len s' \<le> tally rest_len s) \<and>
     length (timers (cl s')) + tally to_start s' \<le> length (timers (cl s)) + tally to_start s"

lemma lost_step:
  assumes "lost_conn s" and i: "i < length (threads s)"
  shows "lost_conn (thread_step i ch s) \<and> lost_bound s (thread_step i ch s)"
proof -
  let ?p = "threads s ! i" and ?s = "thread_step i ch s"
  obtain p' s' where p: "pc_step i ch ?p s = (p', s')" by fastforce
  have eq: "cl ?s = cl s'" using i p by (simp add: thread_step_def)
  have off: "\<not> connected (cl s)" using assms(1) by (simp add: lost_conn_def)
  note t = tally_thread_step [OF i p]
  have "?p \<noteq> Connect_flag" using assms(1) tally_member [OF i, of connecting] by (auto simp: lost_conn_def)
  then have "lost_conn ?s"
    using assms(1) pc_step_flag [OF p] t [of connecting] connecting_01 [of p'] by (auto simp: lost_conn_def eq)
  moreover obtain x where x: "sk_sent (tcp_socket (cl s')) = sk_sent (tcp_socket (cl s)) @ x"
      "length x + rest_len p' \<le> rest_len ?p"
      "length (timers (cl s')) + to_start p' \<le> length (timers (cl s)) + to_start ?p"
    using pc_step_lost [OF p off] by blast
  moreover have "length x + tally rest_len ?s \<le> tally rest_len s"
    using x(2) t [of rest_len] by simp
  moreover have "length (timers (cl s')) + tally to_start ?s \<le> length (timers (cl s)) + tally to_start s"
    using x(3) t [of to_start] by simp
  ultimately show ?thesis by (auto simp: lost_bound_def eq)
qed

lemma lost_conc_exec: "lost_conn s \<Longrightarrow> lost_conn (conc_exec ev s) \<and> lost_bound s (conc_exec ev s)"
proof (cases ev)
  case (Ev_step i ch)
  moreover assume "lost_conn s"
  ultimately show ?thesis
    using lost_step [of s i ch] by (cases "i < length (threads s)") (auto simp: thread_step_def lost_bound_def)
qed (auto simp: lost_conn_def lost_bound_def connected_def length_remove1)

lemma lost_bound_trans: "lost_bound a b \<Longrightarrow> lost_bound b c \<Longrightarrow> lost_bound a c"
  unfolding lost_bound_def by auto

text \<open>
  Claim C17 (safety): a lost connection stays lost under every schedule.  No thread makes the flag true again;
  apart from the rest of frames that were already being sent not a byte is sent; and no
  timer is started except by threads that had already passed the check in
  \<^verbatim>\<open>start_heart_beat\<close>.
\<close>

theorem lost_is_final_under_races:
  assumes "lost_conn s" and "s' = fold conc_exec evs s"
  shows "lost_conn s' \<and>
         (\<exists>x. sk_sent (tcp_socket (cl s')) = sk_sent (tcp_socket (cl s)) @ x \<and> length x \<le> tally rest_len s) \<and>
         length (timers (cl s')) \<le> length (timers (cl s)) + tally to_start s"
proof -
  have "lost_conn s' \<and> lost_bound s s'"
    using assms
  proof (induction evs arbitrary: s)
    case Nil
    then show ?case by (simp add: lost_bound_def)
  next
    case (Cons ev evs)
    from Cons.IH [of "conc_exec ev s"] Cons.prems lost_conc_exec [of s ev] lost_bound_trans show ?case
      by (auto simp del: conc_exec.simps)
  qed
  then show ?thesis by (force simp: lost_bound_def)
qed

section \<open>Writers that exclude each other\<close>

text \<open>Runs in which at most one thread is inside a write at any time.\<close>

inductive locked_reach :: "conc \<Rightarrow> bool" where
  init: "locked_reach conc_init"
| exec: "locked_reach s \<Longrightarrow> tally in_write (conc_exec ev s) \<le> 1 \<Longrightarrow> locked_reach (conc_exec ev s)"

lemma locked_reachable: "locked_reach s \<Longrightarrow> conc_reach s"
  by (induction rule: locked_reach.induct) (auto intro: conc_reach.intros simp del: conc_exec.simps)

lemma locked_one: "locked_reach s \<Longrightarrow> tally in_write s \<le> 1"
  by (induction rule: locked_reach.induct) (auto simp: conc_init_def tally_def simp del: conc_exec.simps)

definition lock_inv :: "conc \<Rightarrow> bytes list \<Rightarrow> bytes \<Rightarrow> bool" where
  "lock_inv s ms q \<longleftrightarrow> sk_sent (tcp_socket (cl s)) = frames ms @ q \<and> list_all (\<lambda>m. length m \<le> 16777216) ms \<and>
     (q \<noteq> [] \<longrightarrow> (\<exists>m. length m \<le> 16777216 \<and> prefix q (frame m)) \<and> (lost_conn s \<or> 0 < tally in_write s)) \<and>
     (\<forall>i < length (threads s). \<forall>rest w. threads s ! i = Write_sending rest w \<longrightarrow>
        (\<exists>m. length m \<le> 16777216 \<and> q @ rest = frame m))"

lemma tally_two:
  assumes "i < length (threads s)" and "j < length (threads s)" and "i \<noteq> j" and "f Finished = 0"
  shows "f (threads s ! i) + f (threads s ! j) \<le> tally f s"
proof -
  let ?t = "s\<lparr>threads := (threads s)[i := Finished]\<rparr>"
  have "tally f ?t + f (threads s ! i) = tally f s"
    using sum_list_set [OF assms(1), of f Finished] assms(4) by (simp add: tally_def)
  moreover have "f (threads ?t ! j) \<le> tally f ?t" by (rule tally_member) (simp add: assms(2))
  ultimately show ?thesis using assms(3) by simp
qed

lemma in_write_after [simp]: "in_write (after_write w) = 0"
  by (cases w) simp_all

lemma pc_step_enter:
  assumes "pc_step i ch p s = (p', s')" and "in_write p = 0" and "MAX_MSG_SIZE (cl s) = 16777216"
  shows "in_write p' = 0 \<or> (\<exists>d w. p' = Write_sending (frame d) w \<and> length d \<le> 16777216 \<and> connected (cl s))"
proof (cases p)
  case (Start_check a)
  with assms show ?thesis by (cases a) (auto simp: step_simps split: if_splits)
next
  case (Start_start a)
  with assms show ?thesis by (cases a) (auto simp: step_simps split: if_splits option.splits)
next
  case (Write_check d w)
  with assms frame_struct show ?thesis by (auto simp: step_simps split: if_splits sum.splits)
qed (use assms in \<open>auto simp: step_simps split: if_splits option.splits sum.splits outcome.splits prod.splits\<close>)

lemma pc_step_sending:
  assumes "pc_step i ch (Write_sending rest w) s = (p', s')"
  shows "rest = [] \<and> p' = after_write w \<and> s' = s \<or> p' = Write_error w \<and> s' = s \<or>
         (\<exists>part rest'. rest = part @ rest' \<and> p' = Write_sending rest' w \<and> part \<noteq> [] \<and>
            s' = s\<lparr>cl := add_sent part (cl s), chunks := chunks s @ [(i, part)]\<rparr>)"
proof -
  have "rest = take (Suc n) rest @ drop (Suc n) rest" for n by simp
  with assms show ?thesis
    by (auto simp: pc_step_def Let_def split: if_splits outcome.splits) (metis append_take_drop_id take_eq_Nil nat.distinct(1))+
qed

text \<open>A step from inside a write leaves no other thread there.\<close>

lemma threads_after:
  assumes "i < length (threads s)" and "pc_step i ch (threads s ! i) s = (p', s')"
    and "j < length (threads (thread_step i ch s))" and "threads (thread_step i ch s) ! j = Write_sending rest w"
  shows "j = i \<and> p' = Write_sending rest w \<or> j \<noteq> i \<and> j < length (threads s) \<and> threads s ! j = Write_sending rest w"
  using assms pc_step_threads [OF assms(2)]
  by (auto simp: thread_step_def list_update_append1 nth_append nth_list_update split: if_splits)

lemma lock_invI:
  assumes "sk_sent (tcp_socket (cl s)) = frames ms @ q" and "list_all (\<lambda>m. length m \<le> 16777216) ms"
    and "q \<noteq> [] \<Longrightarrow> (\<exists>m. length m \<le> 16777216 \<and> prefix q (frame m)) \<and> (lost_conn s \<or> 0 < tally in_write s)"
    and "\<And>j rest w. j < length (threads s) \<Longrightarrow> threads s ! j = Write_sending rest w \<Longrightarrow>
           \<exists>m. length m \<le> 16777216 \<and> q @ rest = frame m"
  shows "lock_inv s ms q"
  using assms unfolding lock_inv_def by blast

text \<open>A step from outside: it enters a write only if nobody is in one.\<close>

lemma lock_step_out:
  assumes inv: "lock_inv s ms q" and one: "tally in_write (thread_step i ch s) \<le> 1" and i: "i < length (threads s)"
    and mx: "MAX_MSG_SIZE (cl s) = 16777216" and p: "pc_step i ch (threads s ! i) s = (p', s')"
    and out: "in_write (threads s ! i) = 0"
  shows "lock_inv (thread_step i ch s) ms q"
proof -
  let ?s = "thread_step i ch s"
  have eq: "cl ?s = cl s'" using i p by (simp add: thread_step_def)
  have t: "tally in_write ?s = tally in_write s + in_write p'" using tally_thread_step [OF i p, of in_write] out by simp
  have sent: "sk_sent (tcp_socket (cl ?s)) = frames ms @ q"
    using pc_step_flag [OF p] out inv by (simp add: lock_inv_def eq)
  have q: "lost_conn ?s \<or> 0 < tally in_write ?s" if "q \<noteq> []"
    using inv that lost_step [OF _ i] t by (auto simp: lock_inv_def)
  note after = threads_after [OF i p]
  note old = inv [unfolded lock_inv_def, THEN conjunct2, THEN conjunct2, THEN conjunct2, rule_format]
  have ws: "\<exists>m. length m \<le> 16777216 \<and> q @ rest = frame m"
    if j: "j < length (threads ?s)" "threads ?s ! j = Write_sending rest w" for j rest w
    using after [OF j]
  proof
    assume new: "j = i \<and> p' = Write_sending rest w"
    then obtain d where d: "rest = frame d" "length d \<le> 16777216" "connected (cl s)"
      using pc_step_enter [OF p out mx] by auto
    have "tally in_write s = 0" using t one new by auto
    then have "q = []" using inv d(3) by (auto simp: lock_inv_def lost_conn_def)
    with d show ?thesis by auto
  qed (use old in blast)
  show ?thesis
    by (rule lock_invI) (use inv sent q ws in \<open>auto simp: lock_inv_def\<close>)
qed

text \<open>The two steps inside.\<close>

lemma lock_step_err:
  assumes inv: "lock_inv s ms q" and one: "tally in_write s \<le> 1" and i: "i < length (threads s)"
    and r: "conc_reach s" and p: "pc_step i ch (threads s ! i) s = (p', s')" and err: "threads s ! i = Write_error w"
  shows "lock_inv (thread_step i ch s) ms q"
proof -
  let ?s = "thread_step i ch s"
  have eq: "cl ?s = cl s'" using i p by (simp add: thread_step_def)
  have p': "p' = after_write w" "s' = s\<lparr>cl := set_connected False (cl s)\<rparr>" using p err by (auto simp: pc_step_def)
  have "lost_conn ?s"
    using conn_inv_reach [OF r] tally_member [OF i, of in_write] err p' tally_thread_step [OF i p, of connecting]
    by (cases w) (auto simp: lost_conn_def conn_inv_def eq set_connected_def connected_def)
  moreover have False if j: "j < length (threads ?s)" "threads ?s ! j = Write_sending rest w'" for j rest w'
    using threads_after [OF i p j]
  proof
    assume "j \<noteq> i \<and> j < length (threads s) \<and> threads s ! j = Write_sending rest w'"
    with tally_two [OF i, of j in_write] one err show False by simp
  qed (use p'(1) in \<open>cases w; simp\<close>)
  ultimately show ?thesis
    by (intro lock_invI) (use inv p'(2) in \<open>auto simp: lock_inv_def eq set_connected_def\<close>)
qed

lemma lock_step_send:
  assumes inv: "lock_inv s ms q" and one: "tally in_write s \<le> 1" and i: "i < length (threads s)"
    and p: "pc_step i ch (threads s ! i) s = (p', s')" and send: "threads s ! i = Write_sending rest w"
  shows "\<exists>ms' q'. lock_inv (thread_step i ch s) ms' q'"
proof -
  let ?s = "thread_step i ch s"
  have eq: "cl ?s = cl s'" using i p by (simp add: thread_step_def)
  obtain m where m: "length m \<le> 16777216" "q @ rest = frame m" using inv i send by (auto simp: lock_inv_def)
  have t: "tally in_write ?s + 1 = tally in_write s + in_write p'" using tally_thread_step [OF i p, of in_write] send by simp
  have pos: "0 < tally in_write ?s" if "in_write p' = 1" using t that tally_member [OF i, of in_write] send by simp
  have only: "j = i \<and> p' = Write_sending rest' w'"
    if j: "j < length (threads ?s)" "threads ?s ! j = Write_sending rest' w'" for j rest' w'
    using threads_after [OF i p j] tally_two [OF i, of j in_write] one send by auto
  have ms: "sk_sent (tcp_socket (cl s)) = frames ms @ q" "list_all (\<lambda>m. length m \<le> 16777216) ms"
    using inv by (auto simp: lock_inv_def)
  from pc_step_sending [OF p [unfolded send]] show ?thesis
  proof (elim disjE exE conjE)
    assume a: "rest = []" "p' = after_write w" "s' = s"
    have "p' \<noteq> Write_sending rest' w'" for rest' w' using a(2) by (cases w) auto
    then have "threads ?s ! j \<noteq> Write_sending rest' w'" if "j < length (threads ?s)" for j rest' w'
      using only that by blast
    then have "lock_inv ?s (ms @ [m]) []"
      using ms m a by (intro lock_invI) (auto simp: eq)
    then show ?thesis by blast
  next
    assume a: "p' = Write_error w" "s' = s"
    moreover have "prefix q (frame m)" using m(2) by (metis prefixI)
    ultimately have "lock_inv ?s ms q"
      using ms m(1) only pos by (intro lock_invI) (auto simp: eq)
    then show ?thesis by blast
  next
    fix part rest'
    assume c: "rest = part @ rest'" "p' = Write_sending rest' w"
      "s' = s\<lparr>cl := add_sent part (cl s), chunks := chunks s @ [(i, part)]\<rparr>"
    have f: "(q @ part) @ rest' = frame m" using m(2) c(1) by simp
    then have "prefix (q @ part) (frame m)" by (metis prefixI)
    with f have "lock_inv ?s ms (q @ part)"
      using ms m(1) c only pos by (intro lock_invI) (auto simp: eq add_sent_def)
    then show ?thesis by blast
  qed
qed

lemma lock_step:
  assumes "lock_inv s ms q" and "tally in_write s \<le> 1" and "tally in_write (thread_step i ch s) \<le> 1"
    and "conc_reach s" and "i < length (threads s)"
  shows "\<exists>ms' q'. lock_inv (thread_step i ch s) ms' q'"
proof -
  obtain p' s' where p: "pc_step i ch (threads s ! i) s = (p', s')" by fastforce
  have mx: "MAX_MSG_SIZE (cl s) = 16777216" using shuffle_inv_reach [OF assms(4)] by (simp add: shuffle_inv_def)
  consider "in_write (threads s ! i) = 0" | w where "threads s ! i = Write_error w"
    | rest w where "threads s ! i = Write_sending rest w"
    by (cases "threads s ! i") auto
  then show ?thesis
    using lock_step_out [OF assms(1,3,5) mx p] lock_step_err [OF assms(1,2,5,4) p] lock_step_send [OF assms(1,2,5) p]
    by cases blast+
qed

text \<open>New threads that are not inside a write, and a connection that may have been lost, change nothing.\<close>

lemma lock_inv_spawn:
  assumes inv: "lock_inv s ms q" and "lost_conn s \<longrightarrow> lost_conn s'" and "tally in_write s' = tally in_write s"
    and "sk_sent (tcp_socket (cl s')) = sk_sent (tcp_socket (cl s))" and new: "threads s' = threads s @ ps"
    and out: "\<forall>p \<in> set ps. in_write p = 0"
  shows "lock_inv s' ms q"
proof (rule lock_invI)
  fix j rest w
  assume j: "j < length (threads s')" "threads s' ! j = Write_sending rest w"
  have "j < length (threads s)"
  proof (rule ccontr)
    assume "\<not> j < length (threads s)"
    then have "Write_sending rest w \<in> set ps"
      using j new by (auto simp: nth_append in_set_conv_nth intro!: exI [of _ "j - length (threads s)"])
    with out show False by auto
  qed
  with j inv new show "\<exists>m. length m \<le> 16777216 \<and> q @ rest = frame m" by (auto simp: lock_inv_def nth_append)
qed (use assms in \<open>auto simp: lock_inv_def\<close>)

lemma lock_inv_reach: "locked_reach s \<Longrightarrow> \<exists>ms q. lock_inv s ms q"
proof (induction rule: locked_reach.induct)
  case init
  have "lock_inv conc_init [] []" by (simp add: lock_inv_def conc_init_def new_client_def new_socket_def)
  then show ?case by blast
next
  case (exec s ev)
  then obtain ms q where inv: "lock_inv s ms q" by blast
  have one: "tally in_write s \<le> 1" using exec.hyps(1) by (rule locked_one)
  note keep = lock_inv_spawn [OF inv]
  show ?case
  proof (cases ev)
    case (Ev_step i ch)
    with exec.hyps inv one lock_step [OF inv one _ locked_reachable [OF exec.hyps(1)], of i ch] show ?thesis
      by (cases "i < length (threads s)") (auto simp: thread_step_def)
  next
    case (Ev_fire t)
    have "lock_inv (conc_exec ev s) ms q"
      by (rule keep [of _ "if t \<in> set (timers (cl s)) then [Heartbeat_check] else []"])
        (use lost_conc_exec [of s ev] Ev_fire in auto)
    then show ?thesis by blast
  next
    case (Ev_connect ip port)
    have "lock_inv (conc_exec ev s) ms q"
      by (rule keep [of _ "[Connect_call ip port]"]) (use lost_conc_exec [of s ev] Ev_connect in auto)
    then show ?thesis by blast
  next
    case (Ev_send d)
    have "lock_inv (conc_exec ev s) ms q"
      by (rule keep [of _ "[Write_check d From_send]"]) (use lost_conc_exec [of s ev] Ev_send in auto)
    then show ?thesis by blast
  next
    case Ev_disconnect
    have "lock_inv (conc_exec ev s) ms q"
      by (rule keep [of _ "[Disc_flag]"]) (use lost_conc_exec [of s ev] Ev_disconnect in auto)
    then show ?thesis by blast
  qed
qed

text \<open>
  Claim C11 (refinement): if no two threads are inside \<^verbatim>\<open>_write_with_length_prefix\<close> at a time, the interleaved
  client keeps the promise of the atomic one: the bytes sent are whole frames, in order,
  followed by at most the beginning of one more, and by that only while a thread is still
  writing it or after the connection was lost.
\<close>

theorem locked_writes_are_frames:
  assumes "locked_reach s"
  shows "\<exists>ms q. sk_sent (tcp_socket (cl s)) = frames ms @ q \<and> list_all (\<lambda>m. length m \<le> 16777216) ms \<and>
           (q \<noteq> [] \<longrightarrow> (\<exists>m. length m \<le> 16777216 \<and> prefix q (frame m)) \<and> (lost_conn s \<or> tally in_write s = 1))"
proof -
  obtain ms q where "lock_inv s ms q" using lock_inv_reach [OF assms] by blast
  then show ?thesis using locked_one [OF assms]
    by (intro exI [of _ ms] exI [of _ q]) (auto simp: lock_inv_def)
qed

section \<open>Schedules\<close>

text \<open>A connection: the seven steps of \<^verbatim>\<open>connect_to_server\<close>.\<close>

definition connect_run :: "event list" where
  "connect_run = 
     [Ev_connect (str_lit ''127.0.0.1'') 6370, Ev_step 0 (Works 0), Ev_step 0 (Works 0), Ev_step 0 (Works 0),
      Ev_step 0 (Works 0), Ev_step 0 (Works 0), Ev_step 0 (Works 0), Ev_step 0 (Works 0)]"

definition run :: "event list \<Rightarrow> conc" where
  "run evs = fold conc_exec evs conc_init"

lemma run_append: "run (evs @ evs') = fold conc_exec evs' (run evs)"
  by (simp add: run_def)

lemma run_reach: "conc_reach (run evs)"
  unfolding run_def by (rule conc_reach_run [OF conc_reach.init])

text \<open>For evaluation, the state is computed before the next event is run.\<close>

lemma fold_exec: "conc_exec ev s = s1 \<Longrightarrow> fold conc_exec (ev # evs) s = fold conc_exec evs s1"
  by simp

lemma thread_step_eval:
  "i < length (threads s) \<Longrightarrow> threads s ! i = p \<Longrightarrow> pc_step i ch p s = r \<Longrightarrow> r = (p', s') \<Longrightarrow>
     conc_exec (Ev_step i ch) s = s'\<lparr>threads := (threads s')[i := p']\<rparr>"
  by (simp add: thread_step_def)

lemmas exec_simps = thread_step_def spawn_def step_simps after_start.simps after_write.simps

lemma run_connect:
  "run connect_run =
     \<lparr>cl = new_client\<lparr>server_addr := Some (str_lit ''127.0.0.1'', 6370), tcp_socket := \<lparr>sk_state = Sock_Connected, sk_sent = []\<rparr>,
        connected_event := True, heart_beat_timer := Some 0, next_timer := 1, timers := [0], receivers := 1\<rparr>,
      cancelled = [], started = [0], threads = [Finished, Recv_check], payloads = [None, None], chunks = []\<rparr>"
  by (simp add: run_def connect_run_def conc_init_def fold_exec exec_simps new_client_def new_socket_def
      del: fold_simps(2) fold.simps(2))

text \<open>A heartbeat is sent between the first four and the other bytes of a message.\<close>

definition corrupting_run :: "event list" where
  "corrupting_run = connect_run @
     [Ev_fire 0, Ev_step 2 (Works 0), Ev_step 2 (Works 0),
      Ev_send (b_lit ''hi''), Ev_step 3 (Works 0), Ev_step 3 (Works 3),
      Ev_step 2 (Works 99), Ev_step 2 (Works 0),
      Ev_step 3 (Works 99), Ev_step 3 (Works 0)]"

lemma run_corrupting:
  "sk_sent (tcp_socket (cl (run corrupting_run))) = MAGIC @ frame HEARTBEAT @ drop 4 (frame (b_lit ''hi''))"
  "threads (run corrupting_run) = [Finished, Recv_check, Start_check From_heartbeat, Finished]"
  "connected (cl (run corrupting_run))"
  "payloads (run corrupting_run) = [None, None, Some HEARTBEAT, Some (b_lit ''hi'')]"
  "chunks (run corrupting_run) = [(3, MAGIC), (2, frame HEARTBEAT), (3, drop 4 (frame (b_lit ''hi'')))]"
  by (simp_all add: corrupting_run_def run_append run_connect fold_exec exec_simps new_client_def frame_def
      struct_pack_I_def MAGIC_def HEARTBEAT_def b_lit_def del: fold_simps(2) fold.simps(2))

text \<open>\<^verbatim>\<open>disconnect\<close> runs after the check in \<^verbatim>\<open>start_heart_beat\<close>, or after the timer was created.\<close>

definition beat_run :: "event list" where
  "beat_run = connect_run @
     [Ev_fire 0, Ev_step 2 (Works 0), Ev_step 2 (Works 0), Ev_step 2 (Works 99), Ev_step 2 (Works 0), Ev_step 2 (Works 0)]"

definition disconnect_run :: "event list" where
  "disconnect_run = [Ev_disconnect, Ev_step 3 (Works 0), Ev_step 3 (Works 0), Ev_step 3 (Works 0),
     Ev_step 3 (Works 0), Ev_step 3 (Works 0)]"

definition leaking_run :: "event list" where
  "leaking_run = beat_run @ disconnect_run @ [Ev_step 2 (Works 0), Ev_step 2 (Works 0), Ev_step 2 (Works 0)]"

definition late_run :: "event list" where
  "late_run = beat_run @ [Ev_step 2 (Works 0)] @ Ev_disconnect # replicate 3 (Ev_step 3 (Works 0)) @
     [Ev_step 3 (Works 0), Ev_step 2 (Works 0)]"

lemma run_beat:
  "run beat_run =
     \<lparr>cl = new_client\<lparr>server_addr := Some (str_lit ''127.0.0.1'', 6370),
        tcp_socket := \<lparr>sk_state = Sock_Connected, sk_sent = frame HEARTBEAT\<rparr>,
        connected_event := True, heart_beat_timer := Some 0, next_timer := 1, timers := [], receivers := 1\<rparr>,
      cancelled = [], started = [0], threads = [Finished, Recv_check, Start_create From_heartbeat],
      payloads = [None, None, Some HEARTBEAT], chunks = [(2, frame HEARTBEAT)]\<rparr>"
  by (simp add: beat_run_def run_append run_connect fold_exec exec_simps new_client_def frame_def
      struct_pack_I_def MAGIC_def HEARTBEAT_def b_lit_def del: fold_simps(2) fold.simps(2))

lemma run_leaking:
  "threads (run leaking_run) = [Finished, Recv_check, Finished, Finished]"
  "timers (cl (run leaking_run)) = [1]" "\<not> connected (cl (run leaking_run))"
  "sk_state (tcp_socket (cl (run leaking_run))) = Sock_Closed"
  "sk_sent (tcp_socket (cl (run leaking_run))) = frame HEARTBEAT"
  by (simp_all add: leaking_run_def disconnect_run_def run_append run_beat fold_exec exec_simps new_client_def
      del: fold_simps(2) fold.simps(2))

lemma run_late: "threads (run late_run) = [Finished, Recv_check, Crashed AttributeError, Disc_close]"
  by (simp add: late_run_def run_append run_beat fold_exec exec_simps new_client_def numeral_3_eq_3
      del: fold_simps(2) fold.simps(2))

text \<open>
  Claim C30 (safety): nothing in the code keeps two sends apart.  There is a schedule in which a heartbeat is
  sent in the middle of a message: both threads have sent their whole frame and neither
  saw an error, the client is still connected, and a peer that parses the stream finds no
  message at all but a bad frame, at which it disconnects.
\<close>

theorem unlocked_sends_corrupt_stream:
  "conc_reach (run corrupting_run) \<and> connected (cl (run corrupting_run)) \<and>
   threads (run corrupting_run) ! 3 = Finished \<and> threads (run corrupting_run) ! 2 = Start_check From_heartbeat \<and>
   sent_by 3 (run corrupting_run) = frame (b_lit ''hi'') \<and> sent_by 2 (run corrupting_run) = frame HEARTBEAT \<and>
   parse_stream 16777216 (sk_sent (tcp_socket (cl (run corrupting_run)))) =
     ([], sk_sent (tcp_socket (cl (run corrupting_run))), Bad_Frame)"
proof -
  have "next_frame 16777216 (MAGIC @ frame HEARTBEAT @ drop 4 (frame (b_lit ''hi''))) = Invalid"
    by (simp add: next_frame_def frame_def struct_pack_I_def MAGIC_def HEARTBEAT_def b_lit_def)
  moreover have "sent_by 3 (run corrupting_run) = frame (b_lit ''hi'')" "sent_by 2 (run corrupting_run) = frame HEARTBEAT"
    by (simp_all add: sent_by_def run_corrupting frame_def struct_pack_I_def MAGIC_def HEARTBEAT_def b_lit_def)
  ultimately show ?thesis
    by (simp add: run_reach run_corrupting parse_stream_unfold(2))
qed

text \<open>
  Claim C31 (safety): \<^verbatim>\<open>disconnect\<close> races with a heartbeat.  Run between the check and the creation of a timer in
  \<^verbatim>\<open>start_heart_beat\<close> it returns while a timer is started behind it, although it clears the
  flag first to prevent that; run after the creation it makes the heartbeat thread fail
  with \<^verbatim>\<open>AttributeError\<close>.  The timer that is left behind does no harm: when it fires its
  thread ends at once.
\<close>

theorem disconnect_races_with_heartbeat:
  "conc_reach (run leaking_run) \<and> threads (run leaking_run) ! 3 = Finished \<and> timers (cl (run leaking_run)) = [1] \<and>
   conc_reach (run late_run) \<and> threads (run late_run) ! 2 = Crashed AttributeError \<and>
   threads (run (leaking_run @ [Ev_fire 1, Ev_step 4 (Works 0)])) ! 4 = Finished \<and>
   timers (cl (run (leaking_run @ [Ev_fire 1, Ev_step 4 (Works 0)]))) = [] \<and>
   sk_sent (tcp_socket (cl (run (leaking_run @ [Ev_fire 1, Ev_step 4 (Works 0)])))) = frame HEARTBEAT"
proof -
  have "threads (run (leaking_run @ [Ev_fire 1, Ev_step 4 (Works 0)])) ! 4 = Finished"
    "timers (cl (run (leaking_run @ [Ev_fire 1, Ev_step 4 (Works 0)]))) = []"
    "sk_sent (tcp_socket (cl (run (leaking_run @ [Ev_fire 1, Ev_step 4 (Works 0)])))) = frame HEARTBEAT"
    using run_leaking by (simp_all add: run_append thread_step_def step_simps nth_append)
  then show ?thesis by (simp add: run_reach run_leaking run_late)
qed

section \<open>Instances\<close>

theorem one_timer_under_races_witness:
  "length (timers (cl (run leaking_run))) \<le> 1 \<and> Crashed RuntimeError \<notin> set (threads (run leaking_run))"
  using one_timer_under_races [OF run_reach, of leaking_run] by blast

theorem wire_is_shuffle_witness:
  "prefix (sent_by 3 (run corrupting_run)) (frame (b_lit ''hi'')) \<and>
   sk_sent (tcp_socket (cl (run corrupting_run))) = concat (map snd (chunks (run corrupting_run)))"
proof -
  have "3 < length (threads (run corrupting_run))" "payloads (run corrupting_run) ! 3 = Some (b_lit ''hi'')"
    by (simp_all add: run_corrupting)
  with wire_is_shuffle [OF run_reach, of 3 corrupting_run] show ?thesis by auto
qed

theorem lost_is_final_under_races_witness:
  "lost_conn (fold conc_exec [Ev_fire 1, Ev_step 4 (Works 0), Ev_send (b_lit ''x''), Ev_step 5 (Works 0)] (run leaking_run)) \<and>
   sk_sent (tcp_socket (cl (fold conc_exec [Ev_fire 1, Ev_step 4 (Works 0), Ev_send (b_lit ''x''), Ev_step 5 (Works 0)]
      (run leaking_run)))) = frame HEARTBEAT"
proof -
  have l: "lost_conn (run leaking_run)" and r: "tally rest_len (run leaking_run) = 0"
    by (simp_all add: lost_conn_def run_leaking tally_def)
  from lost_is_final_under_races [OF l refl, of "[Ev_fire 1, Ev_step 4 (Works 0), Ev_send (b_lit ''x''), Ev_step 5 (Works 0)]"]
  show ?thesis unfolding r run_leaking(5) by auto
qed

fun locked_ok :: "event list \<Rightarrow> conc \<Rightarrow> bool" where
  "locked_ok [] s = True"
| "locked_ok (ev # evs) s = (tally in_write (conc_exec ev s) \<le> 1 \<and> locked_ok evs (conc_exec ev s))"

lemma locked_ok_reach: "locked_reach s \<Longrightarrow> locked_ok evs s \<Longrightarrow> locked_reach (fold conc_exec evs s)"
proof (induction evs arbitrary: s)
  case (Cons ev evs)
  then have "locked_reach (conc_exec ev s)" by (intro locked_reach.exec) (simp_all del: conc_exec.simps)
  with Cons show ?case by (simp del: conc_exec.simps)
qed simp

text \<open>Exclusion is easily kept: here the heartbeat waits until the message is sent.\<close>

lemma locked_ok_eval:
  "conc_exec ev s = s1 \<Longrightarrow> locked_ok (ev # evs) s = (tally in_write s1 \<le> 1 \<and> locked_ok evs s1)"
  by simp

definition orderly_run :: "event list" where
  "orderly_run = connect_run @ [Ev_fire 0, Ev_step 2 (Works 0), Ev_send (b_lit ''hi''), Ev_step 3 (Works 0),
     Ev_step 3 (Works 99), Ev_step 3 (Works 0), Ev_step 2 (Works 0), Ev_step 2 (Works 3)]"

lemma orderly_locked: "locked_reach (run orderly_run)"
proof -
  have "locked_ok orderly_run conc_init"
    by (simp add: orderly_run_def connect_run_def conc_init_def locked_ok_eval tally_def exec_simps new_client_def new_socket_def
      frame_def struct_pack_I_def MAGIC_def HEARTBEAT_def b_lit_def del: locked_ok.simps(2))
  from locked_ok_reach [OF locked_reach.init this] show ?thesis by (simp add: run_def)
qed

theorem locked_writes_are_frames_witness:
  "\<exists>ms q. sk_sent (tcp_socket (cl (run orderly_run))) = frames ms @ q \<and>
          (q \<noteq> [] \<longrightarrow> lost_conn (run orderly_run) \<or> tally in_write (run orderly_run) = 1)"
  using locked_writes_are_frames [OF orderly_locked] by blast

end
