(* ===== verification/KL_Atomic.thy ===== *)
theory KL_Atomic
  imports KL_ThreadRaces
begin

text \<open>
  The atomic operations of \<^verbatim>\<open>KL_TcpClient\<close> are the runs of one thread that no other thread
  interrupts: a call that is left alone does to the client exactly what the definition of
  the method says.
\<close>

section \<open>A thread on its own\<close>

fun solo :: "nat \<Rightarrow> outcome list \<Rightarrow> pc \<Rightarrow> conc \<Rightarrow> pc \<times> conc" where
  "solo i [] p s = (p, s)"
| "solo i (ch # chs) p s = (case pc_step i ch p s of (p', s') \<Rightarrow> solo i chs p' s')"

text \<open>What the operating system does to one \<^verbatim>\<open>sendall\<close>, as single sends.\<close>

fun send_script :: "send_result \<Rightarrow> bytes \<Rightarrow> outcome list" where
  "send_script Send_Ok d = [Works 0, Works (length (frame d)), Works 0]"
| "send_script (Send_Fail 0) d = [Works 0, Fails, Works 0]"
| "send_script (Send_Fail (Suc n)) d = [Works 0, Works n, Fails, Works 0]"

lemma solo_append: "solo i (chs @ chs') p s = (case solo i chs p s of (p', s') \<Rightarrow> solo i chs' p' s')"
  by (induction chs arbitrary: p s) (auto split: prod.splits)

lemma solo_Finished: "solo i chs Finished s = (Finished, s)"
  by (induction chs) (simp_all add: pc_step_def)

text \<open>A write, up to the return of \<^verbatim>\<open>_write_with_length_prefix\<close>.\<close>

lemma solo_write:
  assumes "MAX_MSG_SIZE (cl s) = 16777216" and "\<And>n. r = Send_Fail n \<Longrightarrow> n < length (frame d)"
    and "connected (cl s)" and "length d \<le> 16777216" and "sk_state (tcp_socket (cl s)) = Sock_Connected"
  shows "\<exists>cs. solo i (send_script r d) (Write_check d w) s =
     (after_write w, s\<lparr>cl := snd (write_with_length_prefix r d (cl s)), chunks := cs\<rparr>)"
proof -
  obtain len where len: "struct_pack_I (length d) = Inr len" "(MAGIC @ len) @ d = frame d"
    using frame_pack [of d] assms(4) by fastforce
  have st: "pc_step i ch (Write_check d w) s = (Write_sending (frame d) w, s)" for ch
    using assms(1,3,4) len by (simp add: pc_step_def)
  have mx: "MAX_MSG_SIZE (cl s) < 2 ^ 32" using assms(1) by simp
  show ?thesis
  proof (cases r)
    case Send_Ok
    then show ?thesis
      using assms(1,3-5) st by (intro exI [of _ "chunks s @ [(i, frame d)]"])
        (simp add: pc_step_def Let_def write_eq [OF mx] )
  next
    case (Send_Fail n)
    show ?thesis
    proof (cases n)
      case 0
      then show ?thesis
        using Send_Fail assms(1,3-5) st by (intro exI [of _ "chunks s"])
          (simp add: pc_step_def write_eq [OF mx] add_sent_def)
    next
      case (Suc k)
      then have "drop (Suc k) (frame d) \<noteq> []" using assms(2) Send_Fail by simp
      then show ?thesis
        using Send_Fail Suc assms(1,3-5) st by (intro exI [of _ "chunks s @ [(i, take (Suc k) (frame d))]"])
          (simp add: pc_step_def Let_def write_eq [OF mx])
    qed
  qed
qed

text \<open>The remaining outcomes of a write: no connection, too long, or a closed socket.\<close>

lemma solo_Crashed: "solo i chs (Crashed e) s = (Crashed e, s)"
  by (induction chs) (simp_all add: pc_step_def)

lemma pc_step_check:
  assumes "MAX_MSG_SIZE (cl s) = 16777216" and "connected (cl s)" and "length d \<le> 16777216"
  shows "pc_step i ch (Write_check d w) s = (Write_sending (frame d) w, s)"
  using assms frame_pack [of d] by (auto simp: pc_step_def)

definition rest_script :: "outcome list" where
  "rest_script = [Works 0, Works 0, Works 0, Works 0]"

lemma solo_closed:
  assumes "MAX_MSG_SIZE (cl s) = 16777216" and "connected (cl s)" and "length d \<le> 16777216"
    and "sk_state (tcp_socket (cl s)) \<noteq> Sock_Connected"
  shows "solo i (send_script r d @ rest_script) (Write_check d w) s = (Finished, s\<lparr>cl := set_connected False (cl s)\<rparr>)"
  by (cases "(r, d)" rule: send_script.cases; cases w)
     (use assms(2,4) pc_step_check [OF assms(1-3), of i "Works 0"] in \<open>simp_all add: step_simps rest_script_def\<close>)

lemma solo_send:
  assumes "MAX_MSG_SIZE (cl s) = 16777216" and "\<And>n. r = Send_Fail n \<Longrightarrow> n < length (frame d)"
  shows "\<exists>cs. solo i (send_script r d @ rest_script) (Write_check d From_send) s =
     (case write_with_length_prefix r d (cl s) of
        (Inl e, c) \<Rightarrow> (Crashed e, s\<lparr>cl := c, chunks := cs\<rparr>) | (Inr _, c) \<Rightarrow> (Finished, s\<lparr>cl := c, chunks := cs\<rparr>))"
proof -
  have mx: "MAX_MSG_SIZE (cl s) < 2 ^ 32" using assms(1) by simp
  have same: "s = s\<lparr>cl := cl s, chunks := chunks s\<rparr>" by simp
  obtain chs where hd: "send_script r d = Works 0 # chs" by (cases "(r, d)" rule: send_script.cases) auto
  consider "\<not> connected (cl s)" | "connected (cl s)" "length d > 16777216"
    | "connected (cl s)" "length d \<le> 16777216" "sk_state (tcp_socket (cl s)) \<noteq> Sock_Connected"
    | "connected (cl s)" "length d \<le> 16777216" "sk_state (tcp_socket (cl s)) = Sock_Connected"
    by fastforce
  then show ?thesis
  proof cases
    case 1
    then show ?thesis
      using assms(1) by (intro exI [of _ "chunks s"]) (simp add: hd write_eq [OF mx] pc_step_def solo_Finished)
  next
    case 2
    then show ?thesis
      using assms(1) by (intro exI [of _ "chunks s"]) (simp add: hd write_eq [OF mx] pc_step_def solo_Crashed)
  next
    case 3
    with solo_closed [OF assms(1) 3, of i r From_send] show ?thesis
      using assms(1) by (intro exI [of _ "chunks s"]) (simp add: write_eq [OF mx])
  next
    case 4
    obtain cs where "solo i (send_script r d) (Write_check d From_send) s =
       (Finished, s\<lparr>cl := snd (write_with_length_prefix r d (cl s)), chunks := cs\<rparr>)"
      using solo_write [OF assms(1,2) 4, where w = From_send and i = i] by auto
    then show ?thesis
      using 4 assms(1) by (intro exI [of _ cs]) (auto simp: solo_append solo_Finished write_eq [OF mx] split: send_result.splits)
  qed
qed

text \<open>The other methods.\<close>

lemma solo_disconnect:
  "\<exists>s'. solo i (replicate 5 (Works 0)) Disc_flag s = (Finished, s') \<and> cl s' = disconnect (cl s)"
  by (cases "heart_beat_timer (cl s)") (simp_all add: numeral_eq_Suc step_simps disconnect_def)

definition fresh_timer :: "conc \<Rightarrow> bool" where
  "fresh_timer s \<longleftrightarrow> next_timer (cl s) \<notin> set (started s) \<and> next_timer (cl s) \<notin> set (cancelled s)"

lemma solo_start:
  assumes "fresh_timer s"
  shows "\<exists>s'. solo i rest_script (Start_check From_heartbeat) s = (Finished, s') \<and> cl s' = start_heart_beat (cl s)"
  using assms by (simp add: rest_script_def step_simps fresh_timer_def start_heart_beat_def)

lemma solo_connect:
  assumes "fresh_timer s"
  shows "\<exists>s'. solo i (replicate 7 (if ok then Works 0 else Fails)) (Connect_call ip port) s = (Finished, s') \<and>
     cl s' = connect_to_server ok ip port (cl s)"
  using assms
  by (cases "ok \<and> sk_state (tcp_socket (cl s)) = Sock_New")
     (auto simp: numeral_eq_Suc step_simps fresh_timer_def start_heart_beat_def connect_to_server_def)

lemma solo_heart_beat:
  assumes "MAX_MSG_SIZE (cl s) = 16777216" and "\<And>n. r = Send_Fail n \<Longrightarrow> n < length (frame HEARTBEAT)" and "fresh_timer s"
  shows "\<exists>s'. solo i (Works 0 # send_script r HEARTBEAT @ rest_script) Heartbeat_check s = (Finished, s') \<and>
     cl s' = snd (send_heart_beat r (cl s))"
proof (cases "connected (cl s)")
  case True
  have len: "length HEARTBEAT \<le> 16777216" by (simp add: HEARTBEAT_def b_lit_def)
  have mx: "MAX_MSG_SIZE (cl s) < 2 ^ 32" using assms(1) by simp
  have hb: "snd (send_heart_beat r (cl s)) = start_heart_beat (snd (write_with_length_prefix r HEARTBEAT (cl s)))"
    using True len assms(1) by (auto simp: send_heart_beat_def write_eq [OF mx] split: send_result.splits)
  have check: "solo i (Works 0 # chs) Heartbeat_check s = solo i chs (Write_check HEARTBEAT From_timer) s" for chs
    using True by (simp add: pc_step_def)
  show ?thesis
  proof (cases "sk_state (tcp_socket (cl s)) = Sock_Connected")
    case sk: True
    let ?c = "snd (write_with_length_prefix r HEARTBEAT (cl s))"
    obtain cs where w: "solo i (send_script r HEARTBEAT) (Write_check HEARTBEAT From_timer) s =
       (Start_check From_heartbeat, s\<lparr>cl := ?c, chunks := cs\<rparr>)"
      using solo_write [OF assms(1,2) True len sk, where w = From_timer and i = i] by auto
    have "next_timer ?c = next_timer (cl s)"
      using True sk len assms(1) by (simp add: write_eq [OF mx] add_sent_def set_connected_def split: send_result.splits)
    then have "fresh_timer (s\<lparr>cl := ?c, chunks := cs\<rparr>)" using assms(3) by (simp add: fresh_timer_def)
    from solo_start [OF this, of i] show ?thesis unfolding check solo_append w hb by simp
  next
    case False
    then show ?thesis
      using solo_closed [OF assms(1) True len False, where w = From_timer and i = i and r = r] True len assms(1)
      unfolding check hb by (simp add: write_eq [OF mx] start_heart_beat_def connected_def set_connected_def)
  qed
qed (simp add: pc_step_def solo_Finished send_heart_beat_def)

section \<open>Sequences of calls\<close>

text \<open>Threads that agree on the client and the timers make the same step.\<close>

definition same_client :: "conc \<Rightarrow> conc \<Rightarrow> bool" where
  "same_client s t \<longleftrightarrow> cl s = cl t \<and> started s = started t \<and> cancelled s = cancelled t"

lemma pc_step_same:
  assumes "same_client s t"
  shows "fst (pc_step i ch p s) = fst (pc_step i ch p t) \<and> same_client (snd (pc_step i ch p s)) (snd (pc_step i ch p t))"
  using assms by (cases p) (auto simp: pc_step_def same_client_def Let_def sock_connect_def split: option.splits sum.splits outcome.splits)

lemma steps_solo:
  assumes "same_client s t" and "i < length (threads s)" and "solo i chs (threads s ! i) t = (p', t')"
  shows "same_client (fold conc_exec (map (Ev_step i) chs) s) t'"
  using assms
proof (induction chs arbitrary: s t)
  case (Cons ch chs)
  obtain q u where q: "pc_step i ch (threads s ! i) t = (q, u)" by fastforce
  obtain u' where u: "pc_step i ch (threads s ! i) s = (q, u')" "same_client u' u"
    using pc_step_same [OF Cons.prems(1), of i ch "threads s ! i"] q by (cases "pc_step i ch (threads s ! i) s") auto
  have th: "i < length (threads u')" using pc_step_threads [OF u(1)] Cons.prems(2) by simp
  then have "solo i chs (threads (thread_step i ch s) ! i) u = (p', t')"
    using Cons.prems(2,3) q u(1) by (simp add: thread_step_def)
  moreover have "same_client (thread_step i ch s) u" "i < length (threads (thread_step i ch s))"
    using Cons.prems(2) u th by (simp_all add: thread_step_def same_client_def)
  ultimately show ?case using Cons.IH by simp
qed simp

text \<open>
  The schedule of one call: its thread starts and makes all of its steps.  A pass of the
  receive thread and the assignment of the callback are not calls of a method that
  \<^verbatim>\<open>conc\<close> follows.  A \<^verbatim>\<open>sendall\<close> can only fail before its last byte was taken.
\<close>

fun call_script :: "client_op \<Rightarrow> conc \<Rightarrow> event list" where
  "call_script (Op_connect ok ip port) s =
     Ev_connect ip port # map (Ev_step (length (threads s))) (replicate 7 (if ok then Works 0 else Fails))"
| "call_script (Op_send r d) s = Ev_send d # map (Ev_step (length (threads s))) (send_script r d @ rest_script)"
| "call_script (Op_fire r t) s =
     (if t \<in> set (timers (cl s))
      then Ev_fire t # map (Ev_step (length (threads s))) (Works 0 # send_script r HEARTBEAT @ rest_script)
      else [])"
| "call_script Op_disconnect s = Ev_disconnect # map (Ev_step (length (threads s))) (replicate 5 (Works 0))"
| "call_script _ s = []"

fun fails_within :: "send_result \<Rightarrow> bytes \<Rightarrow> bool" where
  "fails_within Send_Ok d = True"
| "fails_within (Send_Fail n) d = (n < length (frame d))"

fun is_call :: "client_op \<Rightarrow> bool" where
  "is_call (Op_connect ok ip port) = True"
| "is_call (Op_send r d) = fails_within r d"
| "is_call (Op_fire r t) = fails_within r HEARTBEAT"
| "is_call Op_disconnect = True"
| "is_call _ = False"

fun calls_script :: "client_op list \<Rightarrow> conc \<Rightarrow> event list" where
  "calls_script [] s = []"
| "calls_script (op # ops) s = call_script op s @ calls_script ops (fold conc_exec (call_script op s) s)"

definition cancel_inv :: "conc \<Rightarrow> bool" where
  "cancel_inv s \<longleftrightarrow> (\<forall>t \<in> set (cancelled s). t < next_timer (cl s))"

lemma pc_step_cancelled:
  assumes "pc_step i ch p s = (p', s')" and "start_inv s" and "cancel_inv s"
  shows "cancel_inv s'"
  using assms by (cases p) (auto simp: step_simps cancel_inv_def start_inv_def less_Suc_eq
    split: if_splits option.splits sum.splits outcome.splits prod.splits)

lemma cancel_inv_reach: "conc_reach s \<Longrightarrow> cancel_inv s"
proof (induction rule: conc_reach.induct)
  case init
  show ?case by (simp add: cancel_inv_def conc_init_def)
next
  case (exec s ev)
  show ?case
  proof (cases ev)
    case (Ev_step i ch)
    with pc_step_cancelled [of i ch "threads s ! i" s] start_inv_reach [OF exec.hyps] exec.IH show ?thesis
      by (auto simp: thread_step_def cancel_inv_def split: prod.splits)
  qed (use exec.IH in \<open>simp_all add: cancel_inv_def\<close>)
qed

lemma fresh_timer_reach: "conc_reach s \<Longrightarrow> fresh_timer s"
  using start_inv_reach [of s] cancel_inv_reach [of s] by (auto simp: fresh_timer_def start_inv_def cancel_inv_def)

text \<open>A thread that has just started, with its steps.\<close>

lemma spawn_solo:
  assumes "solo (length (threads s)) chs p s = (p', t')"
  shows "cl (fold conc_exec (map (Ev_step (length (threads s))) chs) (spawn p d s)) = cl t'"
proof -
  have "same_client (spawn p d s) s" by (simp add: same_client_def)
  from steps_solo [OF this, of "length (threads s)" chs p' t'] assms show ?thesis
    by (simp add: same_client_def nth_append)
qed

lemmas call_simps = call_script.simps fold_simps(2) conc_exec.simps client_exec.simps

lemma fire_script_atomic:
  assumes "conc_reach s" and "is_call (Op_fire r t)"
  shows "cl (fold conc_exec (call_script (Op_fire r t) s) s) = client_exec (Op_fire r t) (cl s)"
proof (cases "t \<in> set (timers (cl s))")
  case True
  let ?s = "s\<lparr>cl := (cl s)\<lparr>timers := remove1 t (timers (cl s))\<rparr>\<rparr>"
  have lt: "r = Send_Fail n \<Longrightarrow> n < length (frame HEARTBEAT)" for n using assms(2) by simp
  have "MAX_MSG_SIZE (cl ?s) = 16777216" "fresh_timer ?s"
    using shuffle_inv_reach [OF assms(1)] fresh_timer_reach [OF assms(1)] by (simp_all add: shuffle_inv_def fresh_timer_def)
  from solo_heart_beat [OF this(1) lt this(2)] obtain s' where s':
    "solo (length (threads ?s)) (Works 0 # send_script r HEARTBEAT @ rest_script) Heartbeat_check ?s = (Finished, s')"
    "cl s' = snd (send_heart_beat r (cl ?s))"
    by blast
  have "cl (fold conc_exec (map (Ev_step (length (threads ?s))) (Works 0 # send_script r HEARTBEAT @ rest_script))
      (spawn Heartbeat_check (Some HEARTBEAT) ?s)) = snd (send_heart_beat r (cl ?s))"
    using spawn_solo [OF s'(1)] s'(2) by (rule trans)
  with True show ?thesis unfolding call_simps by (simp add: fire_timer_def)
qed (simp add: fire_timer_def)

lemma call_script_atomic:
  assumes "conc_reach s" and "is_call op"
  shows "cl (fold conc_exec (call_script op s) s) = client_exec op (cl s)"
proof -
  note mx = shuffle_inv_reach [OF assms(1), unfolded shuffle_inv_def, THEN conjunct1]
  note fresh = fresh_timer_reach [OF assms(1)]
  show ?thesis
  proof (cases op)
    case (Op_connect ok ip port)
    obtain s' where s': "solo (length (threads s)) (replicate 7 (if ok then Works 0 else Fails)) (Connect_call ip port) s = (Finished, s')"
      "cl s' = connect_to_server ok ip port (cl s)"
      using solo_connect [OF fresh] by blast
    show ?thesis unfolding Op_connect call_simps using spawn_solo [OF s'(1)] s'(2) by (rule trans)
  next
    case (Op_send r d)
    have lt: "r = Send_Fail n \<Longrightarrow> n < length (frame d)" for n using assms(2) Op_send by simp
    from solo_send [OF mx lt, of r "length (threads s)"] obtain p' s' where
      "solo (length (threads s)) (send_script r d @ rest_script) (Write_check d From_send) s = (p', s')"
      "cl s' = snd (send_data r d (cl s))"
      by (cases "write_with_length_prefix r d (cl s)"; cases "fst (write_with_length_prefix r d (cl s))")
         (auto simp: send_data_def)
    then show ?thesis unfolding Op_send call_simps using spawn_solo by (metis trans)
  next
    case (Op_fire r t)
    from fire_script_atomic [OF assms(1)] assms(2) show ?thesis unfolding Op_fire by blast
  next
    case Op_disconnect
    obtain s' where s': "solo (length (threads s)) (replicate 5 (Works 0)) Disc_flag s = (Finished, s')" "cl s' = disconnect (cl s)"
      using solo_disconnect by blast
    show ?thesis unfolding Op_disconnect call_simps using spawn_solo [OF s'(1)] s'(2) by (rule trans)
  qed (use assms(2) in simp_all)
qed

lemma calls_script_run:
  assumes "conc_reach s" and "\<forall>op \<in> set ops. is_call op"
  shows "cl (fold conc_exec (calls_script ops s) s) = fold client_exec ops (cl s)"
  using assms
proof (induction ops arbitrary: s)
  case (Cons op ops)
  let ?s = "fold conc_exec (call_script op s) s"
  have "cl (fold conc_exec (calls_script ops ?s) ?s) = fold client_exec ops (cl ?s)"
    using Cons.prems by (intro Cons.IH conc_reach_run) simp_all
  with call_script_atomic [of s op] Cons.prems show ?case by simp
qed simp

text \<open>
  Claim C12 (equivalence): calls that do not overlap are atomic.  For every sequence of calls of
  \<^verbatim>\<open>connect_to_server\<close>, \<^verbatim>\<open>send_data\<close>, \<^verbatim>\<open>disconnect\<close> and timers that fire, with every outcome
  of the operating system, the schedule that lets the thread of each call run to its end
  before the next call starts leaves the client exactly as the sequence of the atomic
  operations does.
\<close>

theorem sequential_calls_are_atomic:
  assumes "\<forall>op \<in> set ops. is_call op"
  shows "cl (run (calls_script ops conc_init)) = fold client_exec ops new_client"
proof -
  have "cl conc_init = new_client" by (simp add: conc_init_def)
  with calls_script_run [OF conc_reach.init assms] show ?thesis by (simp add: run_def)
qed

theorem sequential_calls_are_atomic_witness:
  "cl (run (calls_script failing_ops conc_init)) = fold client_exec failing_ops new_client \<and>
   sk_sent (tcp_socket (cl (run (calls_script failing_ops conc_init)))) =
     frame (b_lit ''hi'') @ frame HEARTBEAT @ take 3 (frame (b_lit ''lost''))"
proof -
  have "\<forall>op \<in> set failing_ops. is_call op" by (simp add: failing_ops_def sample_ops_def frame_def MAGIC_def)
  note eq = sequential_calls_are_atomic [OF this]
  have "sk_sent (tcp_socket (fold client_exec failing_ops new_client)) =
     frame (b_lit ''hi'') @ frame HEARTBEAT @ take 3 (frame (b_lit ''lost''))"
    by (simp add: sample_simps)
  with eq show ?thesis by simp
qed

end
