(* ===== verification/KL_Message.thy ===== *)
theory KL_Message
  imports KL_Utf8
begin

text \<open>
  The text format of the messages the roles exchange: a topic \<^verbatim>\<open>APPID-ID\<close>, the separator
  \<^verbatim>\<open>&*&\<close> and a payload.  Every role builds its topic with an f-string, in which
  \<^verbatim>\<open>None\<close> is written as the word None.
\<close>

section \<open>Topics\<close>

definition SEP :: pystr where
  "SEP = str_lit ''&*&''"

definition SEP_bytes :: bytes where
  "SEP_bytes = b_lit ''&*&''"

definition dash :: nat where
  "dash = of_char CHR ''-''"

text \<open>The value of \<^verbatim>\<open>f"{x}"\<close> for an optional string.\<close>

definition fstr :: "pystr option \<Rightarrow> pystr" where
  "fstr x = (case x of None \<Rightarrow> str_lit ''None'' | Some s \<Rightarrow> s)"

definition topic :: "pystr \<Rightarrow> pystr \<Rightarrow> pystr" where
  "topic APPID ID = APPID @ dash # ID"

lemma SEP_simps: "SEP = [38, 42, 38]" "SEP_bytes = [38, 42, 38]" "dash = 45"
  by (simp_all add: SEP_def SEP_bytes_def str_lit_def b_lit_def dash_def)

lemma utf8_SEP [simp]: "utf8_bytes SEP = SEP_bytes"
  by (simp add: SEP_simps utf8_char_def)

lemma scalar_SEP [simp]: "list_all is_scalar SEP" "\<not> list_ex is_surrogate SEP"
  by (simp_all add: SEP_simps is_scalar_def is_surrogate_def)

lemma surrogate_topic [simp]:
  "list_ex is_surrogate (topic a i) \<longleftrightarrow> list_ex is_surrogate a \<or> list_ex is_surrogate i"
  by (simp add: topic_def dash_def is_surrogate_def)

lemma scalar_topic [simp]:
  "list_all is_scalar (topic a i) \<longleftrightarrow> list_all is_scalar a \<and> list_all is_scalar i"
  by (simp add: topic_def dash_def is_scalar_def is_surrogate_def)

lemma topic_nonempty [simp]: "topic a i \<noteq> []"
  by (simp add: topic_def)

text \<open>The topic determines both parts when the application id has no dash.\<close>

lemma append_sep_inject:
  "c \<notin> set xs \<Longrightarrow> c \<notin> set ys \<Longrightarrow> xs @ c # us = ys @ c # vs \<Longrightarrow> xs = ys \<and> us = vs"
proof (induction xs arbitrary: ys)
  case Nil
  then show ?case by (cases ys) auto
next
  case (Cons x xs)
  then show ?case by (cases ys) auto
qed

lemma topic_inject:
  "dash \<notin> set a \<Longrightarrow> dash \<notin> set a' \<Longrightarrow> topic a i = topic a' i' \<Longrightarrow> a = a' \<and> i = i'"
  unfolding topic_def by (rule append_sep_inject)

section \<open>Separators in encoded text\<close>

lemma utf8_high_head:
  assumes "is_scalar c" and "0x80 \<le> c" and "d < 0x80"
  shows "\<exists>b bs. utf8_char c = b # bs \<and> b \<noteq> of_nat d"
proof -
  obtain b bs where b: "utf8_char c = b # bs" by (cases "utf8_char c") auto
  then have "0x80 \<le> unat b" using utf8_char_high [OF assms(2,1)] by simp
  moreover have "unat (of_nat d :: byte) = d" using assms(3) by (simp add: unat_of_nat)
  ultimately have "b \<noteq> of_nat d" using assms(3) by auto
  with b show ?thesis by blast
qed

lemma of_nat_byte_inject: "c < 256 \<Longrightarrow> d < 256 \<Longrightarrow> (of_nat c :: byte) = of_nat d \<longleftrightarrow> c = d"
  by (metis unat_of_nat_byte)

lemma prefix_utf8:
  "list_all (\<lambda>c. c < 0x80) p \<Longrightarrow> list_all is_scalar s \<Longrightarrow>
     prefix (utf8_bytes p) (utf8_bytes s) \<longleftrightarrow> prefix p s"
proof (induction p arbitrary: s)
  case (Cons d p)
  show ?case
  proof (cases s)
    case (Cons c s')
    show ?thesis
    proof (cases "c < 0x80")
      case True
      with Cons.prems Cons.IH [of s'] \<open>s = c # s'\<close> show ?thesis
        by (auto simp: utf8_char_ascii of_nat_byte_inject)
    next
      case False
      then obtain b bs where "utf8_char c = b # bs" "b \<noteq> of_nat d"
        using utf8_high_head [of c d] Cons.prems \<open>s = c # s'\<close> by auto
      with False Cons.prems \<open>s = c # s'\<close> show ?thesis by (auto simp: utf8_char_ascii)
    qed
  qed (use Cons.prems in \<open>simp add: utf8_char_ascii\<close>)
qed simp

lemma SEP_ascii: "list_all (\<lambda>c. c < 0x80) SEP"
  by (simp add: SEP_simps)

lemma clean_before_append:
  "(\<forall>x \<in> set xs. pat = [] \<or> x \<noteq> hd pat) \<Longrightarrow> pat \<noteq> [] \<Longrightarrow>
     clean_before pat (xs @ ys) \<longleftrightarrow> clean_before pat ys"
proof (induction xs)
  case (Cons x xs)
  then have "\<not> prefix pat (x # xs @ ys @ pat)" by (cases pat) auto
  with Cons show ?case by simp
qed simp

text \<open>A separator is where it is in the text, also in the encoding of the text.\<close>

lemma clean_before_utf8:
  "list_all is_scalar s \<Longrightarrow> clean_before SEP_bytes (utf8_bytes s) \<longleftrightarrow> clean_before SEP s"
proof (induction s)
  case (Cons c s)
  show ?case
  proof (cases "c < 0x80")
    case True
    have "prefix SEP_bytes (utf8_bytes (c # s @ SEP)) \<longleftrightarrow> prefix SEP (c # s @ SEP)"
      using prefix_utf8 [OF SEP_ascii, of "c # s @ SEP"] Cons.prems by simp
    with True Cons show ?thesis by (simp add: utf8_char_ascii)
  next
    case False
    have "b \<noteq> hd SEP_bytes" if "b \<in> set (utf8_char c)" for b
      using utf8_char_high [OF _ _ that] False Cons.prems by (auto simp: SEP_simps)
    then have "clean_before SEP_bytes (utf8_char c @ utf8_bytes s) \<longleftrightarrow> clean_before SEP_bytes (utf8_bytes s)"
      by (intro clean_before_append) (auto simp: SEP_simps)
    with False Cons show ?thesis by (simp add: SEP_simps)
  qed
qed simp

text \<open>
  The condition in words: the separator does not occur in the text, and the text does not
  end with the first two characters of it, which would complete a separator too early.
\<close>

lemma clean_before_SEP:
  "clean_before SEP key \<longleftrightarrow> \<not> sublist SEP key \<and> \<not> suffix (str_lit ''&*'') key"
proof (induction key)
  case Nil
  then show ?case by (simp add: SEP_simps str_lit_def)
next
  case (Cons x key)
  show ?case
  proof (cases "length key \<le> 1")
    case True
    then consider "key = []" | y where "key = [y]" by (cases key) (auto simp: length_Suc_conv)
    then show ?thesis
      by cases (auto simp: SEP_simps str_lit_def sublist_Cons_right suffix_Cons)
  next
    case False
    then obtain y z ks where k: "key = y # z # ks"
      by (metis One_nat_def le_numeral_extra(4) length_0_conv length_Cons list.exhaust nat_le_linear not_less_eq_eq)
    have "prefix SEP (x # key @ SEP) \<longleftrightarrow> prefix SEP (x # key)"
      by (auto simp: k SEP_simps)
    moreover have "suffix (str_lit ''&*'') (x # key) \<longleftrightarrow> suffix (str_lit ''&*'') key"
      by (auto simp: suffix_Cons str_lit_def k)
    ultimately show ?thesis using Cons by (auto simp: sublist_Cons_right)
  qed
qed

end
