(* ===== verification/KL_SignalSender.thy ===== *)
theory KL_SignalSender
  imports KL_Connection KL_Message
begin

text \<open>
  \<^verbatim>\<open>SignalSender.py\<close>: the role that emits signals, on port 6370.  Each method of the
  class is a definition; the ones that run Python code that can raise return the exception
  next to the object as it is left.
\<close>

section \<open>State\<close>

record signal_sender =
  sender_appID :: "pystr option"
  sender_signalID :: "pystr option"
  KLsender :: tcp_client

definition localhost :: pystr where
  "localhost = str_lit ''127.0.0.1''"

text \<open>\<^verbatim>\<open>_emitt\<close> takes a string or bytes.\<close>

datatype py_data = PStr pystr | PBytes bytes

section \<open>Operations\<close>

definition new_signal_sender :: "bool \<Rightarrow> pystr option \<Rightarrow> pystr option \<Rightarrow> signal_sender" where
  "new_signal_sender ok APPID SignalID =
     \<lparr>sender_appID = APPID, sender_signalID = SignalID,
      KLsender = connect_to_server ok localhost 6370 new_client\<rparr>"

definition sender_set_config :: "pystr \<Rightarrow> pystr \<Rightarrow> signal_sender \<Rightarrow> signal_sender" where
  "sender_set_config APPID SignalID s =
     s\<lparr>sender_appID := Some APPID, sender_signalID := Some SignalID\<rparr>"

text \<open>\<^verbatim>\<open>__emitt\<close>: topic, separator, data.\<close>

definition emitt_bytes ::
  "send_result \<Rightarrow> pystr option \<Rightarrow> pystr option \<Rightarrow> bytes \<Rightarrow> signal_sender \<Rightarrow> unit res \<times> signal_sender" where
  "emitt_bytes r APPID SignalID data s =
     (let s_key = topic (fstr APPID) (fstr SignalID) @ SEP in
      case encode_utf8 s_key of
        Inl e \<Rightarrow> (Inl e, s)
      | Inr s_key_bytes \<Rightarrow>
          (let s_data = s_key_bytes @ data in
           case send_data r s_data (KLsender s) of (x, c) \<Rightarrow> (x, s\<lparr>KLsender := c\<rparr>)))"

definition emitt_data ::
  "send_result \<Rightarrow> pystr option \<Rightarrow> pystr option \<Rightarrow> py_data \<Rightarrow> signal_sender \<Rightarrow> unit res \<times> signal_sender" where
  "emitt_data r APPID SignalID data s =
     (case data of
        PStr t \<Rightarrow> (case encode_utf8 t of
                     Inl e \<Rightarrow> (Inl e, s)
                   | Inr b \<Rightarrow> emitt_bytes r APPID SignalID b s)
      | PBytes b \<Rightarrow> emitt_bytes r APPID SignalID b s)"

definition emitt :: "send_result \<Rightarrow> py_data \<Rightarrow> signal_sender \<Rightarrow> unit res \<times> signal_sender" where
  "emitt r data s = emitt_data r (sender_appID s) (sender_signalID s) data s"

definition sender_disconnect :: "signal_sender \<Rightarrow> signal_sender" where
  "sender_disconnect s = s\<lparr>KLsender := disconnect (KLsender s)\<rparr>"

definition sender_close :: "signal_sender \<Rightarrow> signal_sender" where
  "sender_close s = sender_disconnect s"

definition sender_enter :: "signal_sender \<Rightarrow> signal_sender" where
  "sender_enter s = s"

text \<open>\<^verbatim>\<open>__exit__\<close> returns \<^verbatim>\<open>False\<close>: an exception of the block goes on.\<close>

definition sender_exit :: "signal_sender \<Rightarrow> bool \<times> signal_sender" where
  "sender_exit s = (False, sender_disconnect s)"

section \<open>Correctness\<close>

interpretation sender: client_lens KLsender KLsender_update
  by unfold_locales simp_all

text \<open>The message a signal is sent as.\<close>

definition signal_msg :: "signal_sender \<Rightarrow> bytes \<Rightarrow> bytes" where
  "signal_msg s b =
     utf8_bytes (topic (fstr (sender_appID s)) (fstr (sender_signalID s))) @ SEP_bytes @ b"

lemma signal_msg_nonempty: "signal_msg s b \<noteq> []"
  by (simp add: signal_msg_def)

definition sender_ids_ok :: "signal_sender \<Rightarrow> bool" where
  "sender_ids_ok s \<longleftrightarrow> \<not> list_ex is_surrogate (fstr (sender_appID s)) \<and>
     \<not> list_ex is_surrogate (fstr (sender_signalID s))"

lemma emitt_PStr:
  "emitt r (PStr t) s =
     (if list_ex is_surrogate t \<or> \<not> sender_ids_ok s then (Inl UnicodeEncodeError, s)
      else (case send_data r (signal_msg s (utf8_bytes t)) (KLsender s) of
              (x, c) \<Rightarrow> (x, s\<lparr>KLsender := c\<rparr>)))"
  by (auto simp: emitt_def emitt_data_def emitt_bytes_def encode_utf8_def signal_msg_def
      sender_ids_ok_def Let_def)

text \<open>
  What \<^verbatim>\<open>emitt\<close> of a string does, on every branch, for a
  sender whose connection is up.  Text that UTF-8 cannot carry, in the data or the ids,
  raises and sends nothing.  A message over 16 MiB raises \<^verbatim>\<open>ValueError\<close> and sends
  nothing.  Otherwise exactly one frame goes out, with the topic, the separator and the
  encoded text; if the socket fails, part of that frame goes out, no exception is raised
  and the sender is marked as disconnected.
\<close>

theorem emitt_behaviour:
  assumes "connected (KLsender s)" and "sk_state (tcp_socket (KLsender s)) = Sock_Connected"
    and "MAX_MSG_SIZE (KLsender s) = 16777216"
  shows "emitt r (PStr t) s =
     (if list_ex is_surrogate t \<or> \<not> sender_ids_ok s then (Inl UnicodeEncodeError, s)
      else if length (signal_msg s (utf8_bytes t)) > 16777216 then (Inl ValueError, s)
      else (case r of
          Send_Ok \<Rightarrow> (Inr (), KLsender_update (add_sent (frame (signal_msg s (utf8_bytes t)))) s)
        | Send_Fail n \<Rightarrow>
            (Inr (), KLsender_update
               (\<lambda>c. set_connected False (add_sent (take n (frame (signal_msg s (utf8_bytes t)))) c)) s)))"
  using assms by (auto simp: emitt_PStr send_data_def write_eq sender.upd_same
      split: send_result.splits)

theorem emitt_behaviour_witness:
  "emitt (Send_Fail 5) (PStr (str_lit ''hi'')) (new_signal_sender True (Some (str_lit ''app'')) None) =
     (Inr (), KLsender_update (\<lambda>c. set_connected False (add_sent (take 5 (frame
        (signal_msg (new_signal_sender True (Some (str_lit ''app'')) None) (utf8_bytes (str_lit ''hi''))))) c))
        (new_signal_sender True (Some (str_lit ''app'')) None))"
proof -
  let ?s = "new_signal_sender True (Some (str_lit ''app'')) None"
  have 1: "connected (KLsender ?s)" "sk_state (tcp_socket (KLsender ?s)) = Sock_Connected"
      "MAX_MSG_SIZE (KLsender ?s) = 16777216"
    by (simp_all add: new_signal_sender_def connect_to_server_def sock_connect_def new_client_def
        new_socket_def client_simps)
  have 2: "sender_ids_ok ?s" "\<not> list_ex is_surrogate (str_lit ''hi'')"
    by (simp_all add: sender_ids_ok_def new_signal_sender_def fstr_def str_lit_def is_surrogate_def)
  have 3: "\<not> length (signal_msg ?s (utf8_bytes (str_lit ''hi''))) > 16777216"
    by (simp add: signal_msg_def new_signal_sender_def fstr_def topic_def str_lit_def SEP_simps
        utf8_char_def)
  show ?thesis
    using emitt_behaviour [OF 1, of "Send_Fail 5" "str_lit ''hi''"] 2 3 by simp
qed

text \<open>The topic of a sender, and when a reader of its messages can find the end of it.\<close>

definition sender_topic :: "signal_sender \<Rightarrow> pystr" where
  "sender_topic s = topic (fstr (sender_appID s)) (fstr (sender_signalID s))"

lemma keyed_bytes_inject:
  assumes "list_all is_scalar k" and "list_all is_scalar k'"
    and "clean_before SEP k" and "clean_before SEP k'"
    and "utf8_bytes k @ SEP_bytes @ b = utf8_bytes k' @ SEP_bytes @ b'"
  shows "k = k' \<and> b = b'"
proof -
  have "find_sub SEP_bytes (utf8_bytes k @ SEP_bytes @ b) = Some (length (utf8_bytes k))"
    "find_sub SEP_bytes (utf8_bytes k' @ SEP_bytes @ b') = Some (length (utf8_bytes k'))"
    using assms(1-4) by (simp_all add: find_sub_clean clean_before_utf8)
  then have "length (utf8_bytes k) = length (utf8_bytes k')" using assms(5) by simp
  then have "utf8_bytes k = utf8_bytes k'" "b = b'" using assms(5) by simp_all
  then show ?thesis using assms(1,2) decode_utf8_bytes(2) by metis
qed

text \<open>
  A signal message determines what was sent.  Two senders whose topics are
  free of early separators and whose application ids have no dash send the same bytes only
  if they have the same application id, the same signal id and the same data.
\<close>

theorem signal_msg_unambiguous:
  assumes "list_all is_scalar (sender_topic s)" and "list_all is_scalar (sender_topic s')"
    and "clean_before SEP (sender_topic s)" and "clean_before SEP (sender_topic s')"
    and "dash \<notin> set (fstr (sender_appID s))" and "dash \<notin> set (fstr (sender_appID s'))"
    and "signal_msg s b = signal_msg s' b'"
  shows "fstr (sender_appID s) = fstr (sender_appID s') \<and>
         fstr (sender_signalID s) = fstr (sender_signalID s') \<and> b = b'"
proof -
  have "sender_topic s = sender_topic s' \<and> b = b'"
    by (rule keyed_bytes_inject [OF assms(1-4)])
      (rule assms(7) [unfolded signal_msg_def, folded sender_topic_def])
  then show ?thesis using topic_inject [OF assms(5,6)] unfolding sender_topic_def by blast
qed

theorem signal_msg_unambiguous_witness:
  "fstr (sender_appID (new_signal_sender True (Some (str_lit ''app'')) (Some (str_lit ''s-1'')))) = str_lit ''app''"
proof -
  let ?s = "new_signal_sender True (Some (str_lit ''app'')) (Some (str_lit ''s-1''))"
  let ?s' = "sender_set_config (str_lit ''app'') (str_lit ''s-1'') (new_signal_sender False None None)"
  have t: "sender_topic ?s = [97, 112, 112, 45, 115, 45, 49]" "sender_topic ?s' = [97, 112, 112, 45, 115, 45, 49]"
    by (simp_all add: sender_topic_def topic_def new_signal_sender_def sender_set_config_def fstr_def
        str_lit_def dash_def)
  have c: "clean_before SEP [97, 112, 112, 45, 115, 45, 49]" by (simp add: SEP_simps)
  have l: "list_all is_scalar [97, 112, 112, 45, 115, 45, 49]" by (simp add: is_scalar_def is_surrogate_def)
  have d: "dash \<notin> set (fstr (sender_appID ?s))" "dash \<notin> set (fstr (sender_appID ?s'))"
    by (simp_all add: new_signal_sender_def sender_set_config_def fstr_def str_lit_def dash_def)
  have m: "signal_msg ?s [1] = signal_msg ?s' [1]"
    using t by (simp add: signal_msg_def sender_topic_def)
  from signal_msg_unambiguous [of ?s ?s', unfolded t, OF l l c c d m] show ?thesis
    by (simp add: sender_set_config_def fstr_def)
qed

text \<open>
  A dash in an application id makes topics collide.  For every text, two
  senders with different ids, one with the dash at the end of the application id and one
  with it at the start of the signal id, send the very same bytes.
\<close>

theorem dash_makes_topics_collide:
  "signal_msg (new_signal_sender ok (Some (a @ [dash])) (Some i)) b =
   signal_msg (new_signal_sender ok (Some a) (Some (dash # i))) b \<and>
   sender_appID (new_signal_sender ok (Some (a @ [dash])) (Some i)) \<noteq>
   sender_appID (new_signal_sender ok (Some a) (Some (dash # i)))"
  by (simp add: signal_msg_def new_signal_sender_def fstr_def topic_def)

end
