(* ===== verification/KL_SignalSubscriber.thy ===== *)
theory KL_SignalSubscriber
  imports KL_Connection KL_Message KL_SignalSender
begin

text \<open>
  \<^verbatim>\<open>SignalSubscriber.py\<close>: the role that receives signals, on port 6372.  The callback the
  application sets is a value of type \<open>'u\<close>; what it does is the parameter \<open>user\<close>, a
  function of the callback, the text and the subscriber, which may raise and may call any
  method of the subscriber.  \<open>sub_app\<close> is the state of the application, not an attribute
  of the class.
\<close>

section \<open>State\<close>

record ('u, 'w) signal_subscriber =
  sub_appID :: pystr
  sub_signalID :: pystr
  sub_callback :: "'u option"
  KLsubscriber :: tcp_client
  sub_app :: 'w

type_synonym ('u, 'w) sub_user =
  "'u \<Rightarrow> pystr \<Rightarrow> ('u, 'w) signal_subscriber \<Rightarrow> unit res \<times> ('u, 'w) signal_subscriber"

section \<open>Operations\<close>

text \<open>The last three lines of \<^verbatim>\<open>init\<close> and of \<^verbatim>\<open>subscribe\<close>: send the topic.\<close>

definition send_topic ::
  "send_result \<Rightarrow> ('u, 'w) signal_subscriber \<Rightarrow> unit res \<times> ('u, 'w) signal_subscriber" where
  "send_topic r s =
     (case encode_utf8 (topic (sub_appID s) (sub_signalID s)) of
        Inl e \<Rightarrow> (Inl e, s)
      | Inr s_key_bytes \<Rightarrow>
          (case send_data r s_key_bytes (KLsubscriber s) of (x, c) \<Rightarrow> (x, s\<lparr>KLsubscriber := c\<rparr>)))"

definition sub_init ::
  "bool \<Rightarrow> send_result \<Rightarrow> ('u, 'w) signal_subscriber \<Rightarrow> unit res \<times> ('u, 'w) signal_subscriber" where
  "sub_init ok r s =
     (let s1 = s\<lparr>KLsubscriber := new_client\<rparr>;
          s2 = s1\<lparr>KLsubscriber := connect_to_server ok localhost 6372 (KLsubscriber s1)\<rparr>;
          s3 = KLsubscriber_update (\<lambda>c. c\<lparr>received_data_callback := Some SignalSubscriber_data_recv\<rparr>) s2
      in send_topic r s3)"

text \<open>The constructor; the client field has no value before \<^verbatim>\<open>init\<close> sets it.\<close>

definition new_signal_subscriber ::
  "bool \<Rightarrow> send_result \<Rightarrow> pystr \<Rightarrow> pystr \<Rightarrow> 'w \<Rightarrow> unit res \<times> ('u, 'w) signal_subscriber" where
  "new_signal_subscriber ok r APPID SignalID w =
     sub_init ok r \<lparr>sub_appID = APPID, sub_signalID = SignalID, sub_callback = None,
                    KLsubscriber = new_client, sub_app = w\<rparr>"

definition subscribe ::
  "send_result \<Rightarrow> pystr \<Rightarrow> pystr \<Rightarrow> ('u, 'w) signal_subscriber \<Rightarrow> unit res \<times> ('u, 'w) signal_subscriber" where
  "subscribe r APPID SignalID s =
     send_topic r (s\<lparr>sub_appID := APPID, sub_signalID := SignalID\<rparr>)"

text \<open>Decoding with replacement never raises, so the handler around it is never entered.\<close>

definition sub_data_recv ::
  "('u, 'w) sub_user \<Rightarrow> bytes \<Rightarrow> ('u, 'w) signal_subscriber \<Rightarrow> unit res \<times> ('u, 'w) signal_subscriber" where
  "sub_data_recv user data s =
     (let received_text = decode_replace data in
      case sub_callback s of None \<Rightarrow> (Inr (), s) | Some u \<Rightarrow> user u received_text s)"

definition sub_set_RecvFunc :: "'u option \<Rightarrow> ('u, 'w) signal_subscriber \<Rightarrow> ('u, 'w) signal_subscriber" where
  "sub_set_RecvFunc callback s = s\<lparr>sub_callback := callback\<rparr>"

definition sub_disconnect :: "('u, 'w) signal_subscriber \<Rightarrow> ('u, 'w) signal_subscriber" where
  "sub_disconnect s = s\<lparr>KLsubscriber := disconnect (KLsubscriber s)\<rparr>"

definition sub_close :: "('u, 'w) signal_subscriber \<Rightarrow> ('u, 'w) signal_subscriber" where
  "sub_close s = sub_disconnect s"

definition sub_enter :: "('u, 'w) signal_subscriber \<Rightarrow> ('u, 'w) signal_subscriber" where
  "sub_enter s = s"

definition sub_exit :: "('u, 'w) signal_subscriber \<Rightarrow> bool \<times> ('u, 'w) signal_subscriber" where
  "sub_exit s = (False, sub_disconnect s)"

text \<open>How the client calls the subscriber back: only its own method is ever installed.\<close>

definition sub_call ::
  "('u, 'w) sub_user \<Rightarrow> bound_method \<Rightarrow> bytes \<Rightarrow> ('u, 'w) signal_subscriber \<Rightarrow>
   unit res \<times> ('u, 'w) signal_subscriber" where
  "sub_call user m data s =
     (if m = SignalSubscriber_data_recv then sub_data_recv user data s else (Inr (), s))"

text \<open>The receive thread of a subscriber.\<close>

definition sub_receive ::
  "('u, 'w) sub_user \<Rightarrow> recv_result list \<Rightarrow> ('u, 'w) signal_subscriber \<Rightarrow>
   (loop_outcome \<times> ('u, 'w) signal_subscriber) option" where
  "sub_receive user rs s = receive_data KLsubscriber KLsubscriber_update (sub_call user) rs s"

section \<open>Correctness\<close>

interpretation subscriber: client_lens KLsubscriber KLsubscriber_update
  by unfold_locales simp_all

text \<open>Application code that handles a text by updating its own state.\<close>

definition sub_app_user :: "(pystr \<Rightarrow> 'w \<Rightarrow> 'w) \<Rightarrow> ('u, 'w) sub_user" where
  "sub_app_user f u t s = (Inr (), s\<lparr>sub_app := f t (sub_app s)\<rparr>)"

interpretation subscriber_app: quiet_owner KLsubscriber KLsubscriber_update
    "sub_call (sub_app_user f)" SignalSubscriber_data_recv
    "\<lambda>s. (sub_callback s \<noteq> None, sub_app s)"
    "\<lambda>d (b, w). (b, if b then f (decode_replace d) w else w)"
  for f :: "pystr \<Rightarrow> 'w \<Rightarrow> 'w"
  by unfold_locales
    (auto simp: sub_call_def sub_data_recv_def sub_app_user_def Let_def split: option.splits)

lemma fold_sub_act:
  "fold (\<lambda>d (b, w). (b, if b then f (decode_replace d) w else w)) ds (b, w) =
     (b, if b then fold f (map decode_replace ds) w else w)"
  by (induction ds arbitrary: w) auto

lemma utf8_heartbeat_response:
  assumes "list_all is_scalar t"
  shows "utf8_bytes t = HEARTBEAT_RESPONSE \<longleftrightarrow> t = str_lit ''heartbeat_response''"
proof -
  have b: "HEARTBEAT_RESPONSE = utf8_bytes (str_lit ''heartbeat_response'')"
    unfolding HEARTBEAT_RESPONSE_def by (rule utf8_bytes_str_lit [symmetric]) simp
  have "list_all is_scalar (str_lit ''heartbeat_response'')"
    by (simp add: str_lit_def is_scalar_def is_surrogate_def)
  then show ?thesis unfolding b using assms decode_utf8_bytes(2) by metis
qed

lemma map_decode_filter:
  assumes "list_all (list_all is_scalar) ts"
  shows "map decode_replace (filter (\<lambda>m. m \<noteq> HEARTBEAT_RESPONSE) (map utf8_bytes ts)) =
         filter (\<lambda>t. t \<noteq> str_lit ''heartbeat_response'') ts"
  using assms by (induction ts) (auto simp: utf8_heartbeat_response decode_utf8_bytes)

lemma frames_chunks_parse:
  assumes "mx < 2 ^ 32" and "list_all (valid_msg mx) ms"
  shows "parse_stream mx ([] @ frames ms) = (ms, [], Need_More)"
  using parse_stream_frames [OF assms, of "[]"] by (simp add: parse_stream_unfold(1) next_frame_def)

lemma subscriber_hears:
  assumes "online (KLsubscriber s)" and "buffer (KLsubscriber s) = []"
    and "received_data_callback (KLsubscriber s) = Some SignalSubscriber_data_recv"
    and "sub_callback s \<noteq> None" and "[] \<notin> set cs"
    and "list_all (list_all is_scalar) ts"
    and "list_all (valid_msg (MAX_MSG_SIZE (KLsubscriber s))) (map utf8_bytes ts)"
    and "concat cs = frames (map utf8_bytes ts)"
  shows "\<exists>s'. sub_receive (sub_app_user f) (map Recv_Data cs) s = Some (Continue, s') \<and>
          sub_app s' = fold f (filter (\<lambda>t. t \<noteq> str_lit ''heartbeat_response'') ts) (sub_app s) \<and>
          KLsubscriber s' = KLsubscriber s"
proof -
  have p: "parse_stream (MAX_MSG_SIZE (KLsubscriber s)) (buffer (KLsubscriber s) @ concat cs) =
      (map utf8_bytes ts, [], Need_More)"
    using assms(1,2,7,8) frames_chunks_parse by (simp add: online_def)
  from subscriber_app.receive_chunks [OF assms(3) _ _ _ _ assms(5) p, of f] assms(1)
  obtain s' where "receive_data KLsubscriber KLsubscriber_update (sub_call (sub_app_user f))
        (map Recv_Data cs) s = Some (Continue, s')"
      "(sub_callback s' \<noteq> None, sub_app s') =
         fold (\<lambda>d (b, w). (b, if b then f (decode_replace d) w else w))
           (filter (\<lambda>m. m \<noteq> HEARTBEAT_RESPONSE) (map utf8_bytes ts)) (sub_callback s \<noteq> None, sub_app s)"
      "KLsubscriber s' = (KLsubscriber s)\<lparr>buffer := []\<rparr>"
    by (auto simp: online_def)
  with assms(2,4,6) show ?thesis
    by (auto simp: sub_receive_def fold_sub_act map_decode_filter)
qed

text \<open>
  A subscriber whose application has set a callback hands it
  every signal text sent, decoded back to the same text, in order and once, however the
  stream is cut into chunks.  The text \<^verbatim>\<open>heartbeat_response\<close> is the exception: the client
  takes it for an answer to a heartbeat and drops it.
\<close>

theorem subscriber_delivers:
  assumes "online (KLsubscriber s)" and "buffer (KLsubscriber s) = []"
    and "received_data_callback (KLsubscriber s) = Some SignalSubscriber_data_recv"
    and "sub_callback s \<noteq> None" and "[] \<notin> set cs"
    and "list_all (list_all is_scalar) ts"
    and "list_all (valid_msg (MAX_MSG_SIZE (KLsubscriber s))) (map utf8_bytes ts)"
    and "concat cs = frames (map utf8_bytes ts)"
  shows "\<exists>s'. sub_receive (sub_app_user f) (map Recv_Data cs) s = Some (Continue, s') \<and>
          sub_app s' = fold f (filter (\<lambda>t. t \<noteq> str_lit ''heartbeat_response'') ts) (sub_app s) \<and>
          KLsubscriber s' = KLsubscriber s"
  by (rule subscriber_hears [OF assms])

text \<open>
  The constructor of a subscriber.  If the ids can be encoded it
  never raises.  The callback of the client is installed; when the connection succeeds the
  topic is sent as one frame, and when it fails nothing is sent and the object is simply
  not connected.
\<close>

theorem subscriber_starts:
  assumes "\<not> list_ex is_surrogate APPID" and "\<not> list_ex is_surrogate SignalID"
    and "length (utf8_bytes (topic APPID SignalID)) \<le> 16777216"
    and "new_signal_subscriber ok r APPID SignalID w = (x, s)"
  shows "x = Inr () \<and> connected (KLsubscriber s) = (ok \<and> r = Send_Ok) \<and>
         received_data_callback (KLsubscriber s) = Some SignalSubscriber_data_recv \<and>
         sk_sent (tcp_socket (KLsubscriber s)) =
           (if ok then (case r of Send_Ok \<Rightarrow> frame (utf8_bytes (topic APPID SignalID))
                          | Send_Fail n \<Rightarrow> take n (frame (utf8_bytes (topic APPID SignalID))))
            else [])"
  using assms by (auto simp: new_signal_subscriber_def sub_init_def send_topic_def encode_utf8_def
      send_data_def write_eq connect_to_server_def sock_connect_def new_client_def new_socket_def
      client_simps split: send_result.splits if_splits)

definition sample_subscriber :: "(unit, pystr list) signal_subscriber" where
  "sample_subscriber = sub_set_RecvFunc (Some ())
     (snd (new_signal_subscriber True Send_Ok (str_lit ''app'') (str_lit ''sig'') []))"

lemmas sample_subscriber_simps = sample_subscriber_def sub_set_RecvFunc_def
  new_signal_subscriber_def sub_init_def send_topic_def encode_utf8_def send_data_def write_eq
  connect_to_server_def sock_connect_def new_client_def new_socket_def client_simps

lemma sample_subscriber:
  "online (KLsubscriber sample_subscriber)" "buffer (KLsubscriber sample_subscriber) = []"
  "received_data_callback (KLsubscriber sample_subscriber) = Some SignalSubscriber_data_recv"
  "sub_callback sample_subscriber = Some ()" "MAX_MSG_SIZE (KLsubscriber sample_subscriber) = 16777216"
  "sub_app sample_subscriber = []"
  by (simp_all add: sample_subscriber_simps online_def next_frame_def str_lit_def topic_def dash_def
      is_surrogate_def utf8_char_def)

theorem subscriber_delivers_witness:
  "\<exists>s'. sub_receive (sub_app_user (\<lambda>t w. w @ [t]))
           (map Recv_Data [take 9 (frames (map utf8_bytes [[0x5F20, 0x4E09], str_lit ''x''])),
                           drop 9 (frames (map utf8_bytes [[0x5F20, 0x4E09], str_lit ''x'']))])
           sample_subscriber = Some (Continue, s') \<and>
        sub_app s' = [[0x5F20, 0x4E09], str_lit ''x'']"
proof -
  let ?ts = "[[0x5F20, 0x4E09], str_lit ''x'']"
  let ?x = "frames (map utf8_bytes ?ts)"
  have len: "length ?x = 23"
    by (simp add: frame_def struct_pack_I_def MAGIC_def utf8_char_def str_lit_def)
  have h: "[] \<notin> set [take 9 ?x, drop 9 ?x]"
    using len by (auto simp del: list.map frames_simps)
  have sc: "list_all (list_all is_scalar) ?ts"
    by (simp add: str_lit_def is_scalar_def is_surrogate_def)
  have v: "list_all (valid_msg (MAX_MSG_SIZE (KLsubscriber sample_subscriber))) (map utf8_bytes ?ts)"
    by (simp add: sample_subscriber valid_msg_def utf8_char_def str_lit_def)
  have cc: "concat [take 9 ?x, drop 9 ?x] = ?x"
    by (simp only: concat.simps append_Nil2 append_take_drop_id)
  have fl: "filter (\<lambda>t. t \<noteq> str_lit ''heartbeat_response'') ?ts = ?ts"
    by (simp add: str_lit_def)
  have u: "sub_callback sample_subscriber \<noteq> None" by (simp add: sample_subscriber)
  from subscriber_delivers [OF sample_subscriber(1-3) u h sc v cc, of "\<lambda>t w. w @ [t]", unfolded fl]
  show ?thesis by (simp only: sample_subscriber(6)) (auto simp del: list.map frames_simps)
qed

theorem subscriber_starts_witness:
  "fst (new_signal_subscriber True Send_Ok (str_lit ''app'') (str_lit ''sig'') []
     :: unit res \<times> (unit, pystr list) signal_subscriber) = Inr ()"
proof -
  let ?p = "new_signal_subscriber True Send_Ok (str_lit ''app'') (str_lit ''sig'') []
     :: unit res \<times> (unit, pystr list) signal_subscriber"
  have "\<not> list_ex is_surrogate (str_lit ''app'')" "\<not> list_ex is_surrogate (str_lit ''sig'')"
      "length (utf8_bytes (topic (str_lit ''app'') (str_lit ''sig''))) \<le> 16777216"
    by (simp_all add: str_lit_def topic_def dash_def is_surrogate_def utf8_char_def)
  from subscriber_starts [OF this prod.collapse [symmetric, of ?p]] show ?thesis by simp
qed

end
