(* ===== verification/KL_SignalPath.thy ===== *)
theory KL_SignalPath
  imports KL_SignalSender KL_SignalSubscriber
begin

text \<open>
  A series of signals from a \<^verbatim>\<open>SignalSender\<close> through the broker to the callback of a
  \<^verbatim>\<open>SignalSubscriber\<close>.  The broker is not part of the repository: it is a function \<open>route\<close>
  from the message the sender wrote to the message the subscriber is sent.
\<close>

section \<open>Emitting a series of texts\<close>

primrec emitt_all :: "pystr list \<Rightarrow> signal_sender \<Rightarrow> unit res \<times> signal_sender" where
  "emitt_all [] s = (Inr (), s)"
| "emitt_all (t # ts) s =
     (case emitt Send_Ok (PStr t) s of (Inl e, s1) \<Rightarrow> (Inl e, s1) | (Inr _, s1) \<Rightarrow> emitt_all ts s1)"

text \<open>A sender that is connected, and a text that it can send.\<close>

definition sending :: "signal_sender \<Rightarrow> bool" where
  "sending s \<longleftrightarrow> connected (KLsender s) \<and> sk_state (tcp_socket (KLsender s)) = Sock_Connected \<and>
     MAX_MSG_SIZE (KLsender s) = 16777216 \<and> sender_ids_ok s"

definition signal_text :: "signal_sender \<Rightarrow> pystr \<Rightarrow> bool" where
  "signal_text s t \<longleftrightarrow> list_all is_scalar t \<and> t \<noteq> [] \<and> length (signal_msg s (utf8_bytes t)) \<le> 16777216"

lemma emitt_sending:
  assumes "sending s" and "signal_text s t"
  shows "emitt Send_Ok (PStr t) s = (Inr (), KLsender_update (add_sent (frame (signal_msg s (utf8_bytes t)))) s)"
  using assms scalar_not_surrogate [of t] by (auto simp: sending_def signal_text_def emitt_PStr send_data_def write_eq sender.upd_same)

lemma add_sent_fields:
  "connected (add_sent b c) = connected c" "sk_state (tcp_socket (add_sent b c)) = sk_state (tcp_socket c)"
  "MAX_MSG_SIZE (add_sent b c) = MAX_MSG_SIZE c" "sk_sent (tcp_socket (add_sent b c)) = sk_sent (tcp_socket c) @ b"
  by (simp_all add: add_sent_def connected_def)

lemma sending_add_sent:
  "sending (KLsender_update (add_sent b) s) = sending s" "signal_msg (KLsender_update (add_sent b) s) = signal_msg s"
  "signal_text (KLsender_update (add_sent b) s) = signal_text s"
  by (auto simp: sending_def add_sent_fields sender_ids_ok_def signal_text_def signal_msg_def fun_eq_iff)

lemma emitt_all_sends:
  assumes "sending s" and "list_all (signal_text s) ts"
  shows "fst (emitt_all ts s) = Inr () \<and>
    sk_sent (tcp_socket (KLsender (snd (emitt_all ts s)))) =
      sk_sent (tcp_socket (KLsender s)) @ frames (map (\<lambda>t. signal_msg s (utf8_bytes t)) ts)"
  using assms
proof (induction ts arbitrary: s)
  case (Cons t ts)
  let ?s = "KLsender_update (add_sent (frame (signal_msg s (utf8_bytes t)))) s"
  have e: "emitt Send_Ok (PStr t) s = (Inr (), ?s)" using Cons.prems by (intro emitt_sending) simp_all
  have "fst (emitt_all ts ?s) = Inr () \<and> sk_sent (tcp_socket (KLsender (snd (emitt_all ts ?s)))) =
      sk_sent (tcp_socket (KLsender ?s)) @ frames (map (\<lambda>t. signal_msg ?s (utf8_bytes t)) ts)"
    using Cons.prems by (intro Cons.IH) (simp_all add: sending_add_sent)
  then show ?case using e by (simp add: sending_add_sent add_sent_fields)
qed simp

section \<open>From sender to subscriber\<close>

lemma signals_delivered:
  assumes "sending s" and "sk_sent (tcp_socket (KLsender s)) = []" and "list_all (signal_text s) ts"
    and "emitt_all ts s = (x, s1)"
    and "\<forall>t \<in> set ts. route (signal_msg s (utf8_bytes t)) = utf8_bytes t"
    and "online (KLsubscriber u)" and "buffer (KLsubscriber u) = []" and "MAX_MSG_SIZE (KLsubscriber u) = 16777216"
    and "received_data_callback (KLsubscriber u) = Some SignalSubscriber_data_recv" and "sub_callback u \<noteq> None"
    and "[] \<notin> set cs"
    and "concat cs = frames (map route (fst (parse_stream 16777216 (sk_sent (tcp_socket (KLsender s1))))))"
  shows "x = Inr () \<and>
    (\<exists>u'. sub_receive (sub_app_user f) (map Recv_Data cs) u = Some (Continue, u') \<and>
          sub_app u' = fold f (filter (\<lambda>t. t \<noteq> str_lit ''heartbeat_response'') ts) (sub_app u))"
proof -
  let ?ms = "map (\<lambda>t. signal_msg s (utf8_bytes t)) ts"
  have sent: "x = Inr ()" "sk_sent (tcp_socket (KLsender s1)) = frames ?ms"
    using emitt_all_sends [OF assms(1,3)] assms(2,4) by simp_all
  have "list_all (valid_msg 16777216) ?ms"
    using assms(3) by (auto simp: list_all_iff signal_text_def valid_msg_def signal_msg_nonempty)
  then have "fst (parse_stream 16777216 (sk_sent (tcp_socket (KLsender s1)))) = ?ms"
    using frames_chunks_parse [of 16777216 ?ms] sent(2) by simp
  then have cc: "concat cs = frames (map utf8_bytes ts)"
    using assms(5,12) by (simp add: comp_def cong: map_cong)
  have sc: "list_all (list_all is_scalar) ts" and v: "list_all (valid_msg (MAX_MSG_SIZE (KLsubscriber u))) (map utf8_bytes ts)"
    using assms(3) by (auto simp: list_all_iff signal_text_def valid_msg_def assms(8) signal_msg_def)
  from subscriber_hears [OF assms(6,7,9,10,11) sc v cc] sent(1) show ?thesis by blast
qed


end
