(* ===== verification/KL_OpenSocketResponser.thy ===== *)
theory KL_OpenSocketResponser
  imports KL_SignalSubscriber
begin

text \<open>
  \<^verbatim>\<open>OpenSocketResponser.py\<close>: the role that answers requests, on port 6378.  The receive
  thread parses requests into a queue; a worker thread takes them out one by one, calls the
  application's function and sends its answer back under the key of the request.  The
  application's function is the parameter \<open>user\<close>; it returns a string or \<^verbatim>\<open>None\<close>, may
  raise, and may call any method of the responser.
\<close>

section \<open>State\<close>

text \<open>
  \<open>resp_data_queue\<close> holds the items of the \<^verbatim>\<open>Queue\<close>, oldest first, and
  \<open>resp_unfinished\<close> its count of unfinished tasks; \<open>resp_workers\<close> counts the worker
  threads started.
\<close>

record ('u, 'w) open_socket_responser =
  resp_appID :: pystr
  resp_openSocketID :: pystr
  resp_recv_func :: "'u option"
  resp_data_queue :: "(pystr \<times> pystr) list"
  resp_unfinished :: nat
  KLresponser :: tcp_client
  resp_workers :: nat
  resp_app :: 'w

type_synonym ('u, 'w) resp_user =
  "'u \<Rightarrow> pystr \<Rightarrow> ('u, 'w) open_socket_responser \<Rightarrow>
   pystr option res \<times> ('u, 'w) open_socket_responser"

section \<open>Operations\<close>

definition resp_init ::
  "bool \<Rightarrow> send_result \<Rightarrow> ('u, 'w) open_socket_responser \<Rightarrow> unit res \<times> ('u, 'w) open_socket_responser" where
  "resp_init ok r s =
     (let s1 = s\<lparr>KLresponser := connect_to_server ok localhost 6378 new_client\<rparr>;
          s2 = KLresponser_update
                 (\<lambda>c. c\<lparr>received_data_callback := Some OpenSocketResponser_internal_data_recv\<rparr>) s1
      in case encode_utf8 (topic (resp_appID s2) (resp_openSocketID s2)) of
           Inl e \<Rightarrow> (Inl e, s2)
         | Inr s_key_bytes \<Rightarrow>
             (case send_data r s_key_bytes (KLresponser s2) of
                (Inl e, c) \<Rightarrow> (Inl e, s2\<lparr>KLresponser := c\<rparr>)
              | (Inr _, c) \<Rightarrow>
                  (Inr (), s2\<lparr>KLresponser := c, resp_workers := Suc (resp_workers s2)\<rparr>)))"

definition new_open_socket_responser ::
  "bool \<Rightarrow> send_result \<Rightarrow> pystr \<Rightarrow> pystr \<Rightarrow> 'w \<Rightarrow> unit res \<times> ('u, 'w) open_socket_responser" where
  "new_open_socket_responser ok r APPID OpenSocketID w =
     resp_init ok r \<lparr>resp_appID = APPID, resp_openSocketID = OpenSocketID, resp_recv_func = None,
       resp_data_queue = [], resp_unfinished = 0, KLresponser = new_client, resp_workers = 0,
       resp_app = w\<rparr>"

definition sendBack ::
  "send_result \<Rightarrow> pystr \<Rightarrow> pystr \<Rightarrow> ('u, 'w) open_socket_responser \<Rightarrow>
   unit res \<times> ('u, 'w) open_socket_responser" where
  "sendBack r data key s =
     (case encode_utf8 (key @ SEP) of
        Inl e \<Rightarrow> (Inl e, s)
      | Inr s_key_bytes \<Rightarrow>
          (case encode_utf8 data of
             Inl e \<Rightarrow> (Inl e, s)
           | Inr data_bytes \<Rightarrow>
               (case send_data r (s_key_bytes @ data_bytes) (KLresponser s) of
                  (x, c) \<Rightarrow> (x, s\<lparr>KLresponser := c\<rparr>))))"

definition queue_put ::
  "pystr \<times> pystr \<Rightarrow> ('u, 'w) open_socket_responser \<Rightarrow> ('u, 'w) open_socket_responser" where
  "queue_put item s =
     s\<lparr>resp_data_queue := resp_data_queue s @ [item], resp_unfinished := Suc (resp_unfinished s)\<rparr>"

text \<open>\<^verbatim>\<open>Queue.task_done\<close> raises if it is called more often than \<^verbatim>\<open>put\<close>.\<close>

definition task_done ::
  "('u, 'w) open_socket_responser \<Rightarrow> unit res \<times> ('u, 'w) open_socket_responser" where
  "task_done s =
     (case resp_unfinished s of
        0 \<Rightarrow> (Inl ValueError, s)
      | Suc n \<Rightarrow> (Inr (), s\<lparr>resp_unfinished := n\<rparr>))"

text \<open>
  \<^verbatim>\<open>_internal_data_recv\<close>: a missing separator (\<^verbatim>\<open>ValueError\<close>) and a key that is not
  UTF-8 (\<^verbatim>\<open>UnicodeDecodeError\<close>) are logged and dropped, and so is an empty payload.
\<close>

definition resp_internal_data_recv ::
  "bytes \<Rightarrow> ('u, 'w) open_socket_responser \<Rightarrow> unit res \<times> ('u, 'w) open_socket_responser" where
  "resp_internal_data_recv data s =
     (case find_sub SEP_bytes data of
        None \<Rightarrow> (Inr (), s)
      | Some key_end \<Rightarrow>
          (case decode_utf8 (take key_end data) of
             Inl e \<Rightarrow> (Inr (), s)
           | Inr key \<Rightarrow>
               (let payload = drop (key_end + 3) data in
                if payload \<noteq> [] then (Inr (), queue_put (decode_replace payload, key) s)
                else (Inr (), s))))"

text \<open>The \<^verbatim>\<open>finally\<close> clause of the worker.\<close>

definition finish_task ::
  "loop_outcome \<Rightarrow> ('u, 'w) open_socket_responser \<Rightarrow> loop_outcome \<times> ('u, 'w) open_socket_responser" where
  "finish_task x s = (case task_done s of (Inl e, s1) \<Rightarrow> (Raise e, s1) | (Inr _, s1) \<Rightarrow> (x, s1))"

text \<open>One pass of the worker's loop; an empty queue makes it check the connection again.\<close>

definition process_queue_step ::
  "('u, 'w) resp_user \<Rightarrow> send_result \<Rightarrow> ('u, 'w) open_socket_responser \<Rightarrow>
   loop_outcome \<times> ('u, 'w) open_socket_responser" where
  "process_queue_step user r s =
     (if \<not> connected (KLresponser s) then (Exit, s)
      else (case resp_data_queue s of
          [] \<Rightarrow> (Continue, s)
        | (payload, key) # q \<Rightarrow>
            (let s1 = s\<lparr>resp_data_queue := q\<rparr> in
             case resp_recv_func s1 of
               None \<Rightarrow> finish_task Continue s1
             | Some u \<Rightarrow>
                 (case user u payload s1 of
                    (Inl e, s2) \<Rightarrow> finish_task (Raise e) s2
                  | (Inr None, s2) \<Rightarrow> finish_task Continue s2
                  | (Inr (Some response), s2) \<Rightarrow>
                      (case sendBack r response key s2 of
                         (Inl e, s3) \<Rightarrow> finish_task (Raise e) s3
                       | (Inr _, s3) \<Rightarrow> finish_task Continue s3)))))"

text \<open>The worker, for as many passes as there are send outcomes.\<close>

fun process_queue ::
  "('u, 'w) resp_user \<Rightarrow> send_result list \<Rightarrow> ('u, 'w) open_socket_responser \<Rightarrow>
   loop_outcome \<times> ('u, 'w) open_socket_responser" where
  "process_queue user [] s = (Continue, s)"
| "process_queue user (r # rs) s =
     (case process_queue_step user r s of
        (Continue, s1) \<Rightarrow> process_queue user rs s1
      | (Exit, s1) \<Rightarrow> (Exit, s1)
      | (Raise e, s1) \<Rightarrow> (Raise e, s1))"

definition resp_set_RecvFunc ::
  "'u option \<Rightarrow> ('u, 'w) open_socket_responser \<Rightarrow> ('u, 'w) open_socket_responser" where
  "resp_set_RecvFunc recv_func s = s\<lparr>resp_recv_func := recv_func\<rparr>"

definition resp_disconnect :: "('u, 'w) open_socket_responser \<Rightarrow> ('u, 'w) open_socket_responser" where
  "resp_disconnect s = s\<lparr>KLresponser := disconnect (KLresponser s)\<rparr>"

definition resp_close :: "('u, 'w) open_socket_responser \<Rightarrow> ('u, 'w) open_socket_responser" where
  "resp_close s = resp_disconnect s"

definition resp_enter :: "('u, 'w) open_socket_responser \<Rightarrow> ('u, 'w) open_socket_responser" where
  "resp_enter s = s"

definition resp_exit :: "('u, 'w) open_socket_responser \<Rightarrow> bool \<times> ('u, 'w) open_socket_responser" where
  "resp_exit s = (False, resp_disconnect s)"

definition resp_call ::
  "bound_method \<Rightarrow> bytes \<Rightarrow> ('u, 'w) open_socket_responser \<Rightarrow> unit res \<times> ('u, 'w) open_socket_responser" where
  "resp_call m data s =
     (if m = OpenSocketResponser_internal_data_recv then resp_internal_data_recv data s
      else (Inr (), s))"

definition resp_receive ::
  "recv_result list \<Rightarrow> ('u, 'w) open_socket_responser \<Rightarrow>
   (loop_outcome \<times> ('u, 'w) open_socket_responser) option" where
  "resp_receive rs s = receive_data KLresponser KLresponser_update resp_call rs s"

section \<open>Parsing requests\<close>

text \<open>A request and an answer on the wire: key, separator, text.\<close>

definition keyed_msg :: "pystr \<Rightarrow> pystr \<Rightarrow> bytes" where
  "keyed_msg key t = utf8_bytes key @ SEP_bytes @ utf8_bytes t"

text \<open>The item a message puts on the queue, if any.\<close>

definition request_item :: "bytes \<Rightarrow> (pystr \<times> pystr) option" where
  "request_item data =
     (case find_sub SEP_bytes data of
        None \<Rightarrow> None
      | Some n \<Rightarrow>
          (case decode_utf8 (take n data) of
             Inl _ \<Rightarrow> None
           | Inr key \<Rightarrow>
               if drop (n + 3) data = [] then None
               else Some (decode_replace (drop (n + 3) data), key)))"

lemma resp_recv_eq:
  "resp_internal_data_recv data s =
     (Inr (), case request_item data of None \<Rightarrow> s | Some it \<Rightarrow> queue_put it s)"
  by (auto simp: resp_internal_data_recv_def request_item_def Let_def split: option.splits sum.splits)

lemma length_SEP_bytes [simp]: "length SEP_bytes = 3"
  by (simp add: SEP_simps)

lemma keyed_msg_nonempty [simp]: "keyed_msg key t \<noteq> []"
  by (simp add: keyed_msg_def SEP_simps)

lemma request_item_keyed:
  assumes "list_all is_scalar key" and "list_all is_scalar t" and "t \<noteq> []"
    and "clean_before SEP key"
  shows "request_item (keyed_msg key t) = Some (t, key)"
proof -
  have "clean_before SEP_bytes (utf8_bytes key)"
    using assms by (simp add: clean_before_utf8)
  then have "find_sub SEP_bytes (keyed_msg key t) = Some (length (utf8_bytes key))"
    unfolding keyed_msg_def by (rule find_sub_clean)
  then show ?thesis
    using assms by (simp add: request_item_def keyed_msg_def decode_utf8_bytes)
qed

text \<open>
  A request that carries a key and a non-empty text is queued as exactly
  that text and that key, at the end of the queue, if the separator does not occur in the
  key and the key does not end in \<^verbatim>\<open>&*\<close>.  The text may hold separators.
\<close>

theorem request_roundtrip:
  assumes "list_all is_scalar key" and "list_all is_scalar t" and "t \<noteq> []"
    and "\<not> sublist SEP key" and "\<not> suffix (str_lit ''&*'') key"
  shows "resp_internal_data_recv (keyed_msg key t) s = (Inr (), queue_put (t, key) s)"
  using request_item_keyed [OF assms(1-3)] assms(4,5) by (simp add: resp_recv_eq clean_before_SEP)

theorem request_roundtrip_witness:
  "resp_internal_data_recv (keyed_msg (str_lit ''k&1'') (str_lit ''a&*&b''))
     (snd (new_open_socket_responser True Send_Ok [] [] ()) :: (unit, unit) open_socket_responser) =
   (Inr (), queue_put (str_lit ''a&*&b'', str_lit ''k&1'')
     (snd (new_open_socket_responser True Send_Ok [] [] ())))"
  by (rule request_roundtrip)
    (simp_all add: str_lit_def SEP_simps is_scalar_def is_surrogate_def sublist_Cons_right suffix_Cons)

text \<open>
  Receiving never raises, whatever the bytes.  Either the message is
  dropped and nothing changes, or exactly one item is appended, with a text of at least one
  character, and then the key is the strict decoding of the bytes before the first
  separator.
\<close>

theorem responser_receive_total:
  "resp_internal_data_recv data s = (Inr (), s) \<or>
   (\<exists>key t k. resp_internal_data_recv data s = (Inr (), queue_put (t, key) s) \<and> t \<noteq> [] \<and>
      decode_utf8 k = Inr key \<and> (\<exists>rest. data = k @ SEP_bytes @ rest \<and> t = decode_replace rest))"
proof (cases "request_item data")
  case (Some it)
  then obtain n key where n: "find_sub SEP_bytes data = Some n" "decode_utf8 (take n data) = Inr key"
      "drop (n + 3) data \<noteq> []" "it = (decode_replace (drop (n + 3) data), key)"
    by (auto simp: request_item_def split: option.splits sum.splits if_splits)
  have "data = take n data @ SEP_bytes @ drop (n + 3) data"
    using find_sub_Some [OF n(1)] by simp
  moreover have "decode_replace (drop (n + 3) data) \<noteq> []"
    using n(3) by (cases "drop (n + 3) data") (auto simp: decode_replace_def Let_def)
  ultimately show ?thesis
    using n Some by (metis option.simps(5) resp_recv_eq)
qed (simp add: resp_recv_eq)

section \<open>Answering\<close>

interpretation responser: client_lens KLresponser KLresponser_update
  by unfold_locales simp_all

fun enqueue_view :: "bytes \<Rightarrow> (pystr \<times> pystr) list \<times> nat \<Rightarrow> (pystr \<times> pystr) list \<times> nat" where
  "enqueue_view d (q, n) =
     (case request_item d of None \<Rightarrow> (q, n) | Some it \<Rightarrow> (q @ [it], Suc n))"

interpretation responser_app: quiet_owner KLresponser KLresponser_update resp_call
    OpenSocketResponser_internal_data_recv
    "\<lambda>s. ((resp_data_queue s, resp_unfinished s), resp_recv_func s, resp_app s)"
    "\<lambda>d (v, rest). (enqueue_view d v, rest)"
  by unfold_locales
    (auto simp: resp_call_def resp_recv_eq queue_put_def split: option.splits)

text \<open>An application function that answers every request and keeps a state of its own.\<close>

definition resp_app_user :: "(pystr \<Rightarrow> 'w \<Rightarrow> pystr \<times> 'w) \<Rightarrow> ('u, 'w) resp_user" where
  "resp_app_user g u t s =
     (case g t (resp_app s) of (a, w) \<Rightarrow> (Inr (Some a), s\<lparr>resp_app := w\<rparr>))"

fun answers :: "(pystr \<Rightarrow> 'w \<Rightarrow> pystr \<times> 'w) \<Rightarrow> (pystr \<times> pystr) list \<Rightarrow> 'w \<Rightarrow> bytes list \<times> 'w" where
  "answers g [] w = ([], w)"
| "answers g ((t, key) # items) w =
     (case g t w of (a, w1) \<Rightarrow> (case answers g items w1 of (ms, w2) \<Rightarrow> (keyed_msg key a # ms, w2)))"

definition answerable :: "(pystr \<Rightarrow> 'w \<Rightarrow> pystr \<times> 'w) \<Rightarrow> pystr \<Rightarrow> bool" where
  "answerable g key \<longleftrightarrow> \<not> list_ex is_surrogate key \<and>
     (\<forall>t w. \<not> list_ex is_surrogate (fst (g t w)) \<and> length (keyed_msg key (fst (g t w))) \<le> 16777216)"

definition serving :: "('u, 'w) open_socket_responser \<Rightarrow> bool" where
  "serving s \<longleftrightarrow> online (KLresponser s) \<and> MAX_MSG_SIZE (KLresponser s) = 16777216 \<and>
     received_data_callback (KLresponser s) = Some OpenSocketResponser_internal_data_recv \<and>
     resp_recv_func s \<noteq> None \<and> resp_unfinished s = length (resp_data_queue s)"

lemma sendBack_eq:
  assumes "\<not> list_ex is_surrogate key" and "\<not> list_ex is_surrogate a"
  shows "sendBack r a key s =
     (case send_data r (keyed_msg key a) (KLresponser s) of (x, c) \<Rightarrow> (x, s\<lparr>KLresponser := c\<rparr>))"
  using assms by (simp add: sendBack_def encode_utf8_def keyed_msg_def)

lemma process_queue_step_sends:
  assumes "serving s" and "resp_data_queue s = (t, key) # q" and "g t (resp_app s) = (a, w)"
    and "\<not> list_ex is_surrogate key" "\<not> list_ex is_surrogate a" "length (keyed_msg key a) \<le> 16777216"
  shows "process_queue_step (resp_app_user g) Send_Ok s =
     (Continue, s\<lparr>resp_data_queue := q, resp_unfinished := length q, resp_app := w,
                  KLresponser := add_sent (frame (keyed_msg key a)) (KLresponser s)\<rparr>)"
proof -
  obtain u where u: "resp_recv_func s = Some u" using assms(1) by (auto simp: serving_def)
  with assms show ?thesis
    by (simp add: process_queue_step_def resp_app_user_def serving_def online_def
        sendBack_eq send_data_def write_eq finish_task_def task_done_def)
qed

lemma process_queue_step_answer:
  assumes "serving s" and "resp_data_queue s = (t, key) # q" and "answerable g key"
    and "g t (resp_app s) = (a, w)"
  shows "process_queue_step (resp_app_user g) Send_Ok s =
     (Continue, s\<lparr>resp_data_queue := q, resp_unfinished := length q, resp_app := w,
                  KLresponser := add_sent (frame (keyed_msg key a)) (KLresponser s)\<rparr>)"
proof (rule process_queue_step_sends [where g = g, OF assms(1,2,4)])
  show "\<not> list_ex is_surrogate key" "\<not> list_ex is_surrogate a" "length (keyed_msg key a) \<le> 16777216"
    using assms(3,4) unfolding answerable_def by (metis fst_conv)+
qed

lemma serving_step:
  "serving s \<Longrightarrow> serving (s\<lparr>resp_data_queue := q, resp_unfinished := length q, resp_app := w,
       KLresponser := add_sent bs (KLresponser s)\<rparr>)"
  by (auto simp: serving_def online_def add_sent_def connected_def)

lemma add_sent_add_sent [simp]: "add_sent b (add_sent a c) = add_sent (a @ b) c"
  by (simp add: add_sent_def)

lemma add_sent_Nil [simp]: "add_sent [] c = c"
  by (simp add: add_sent_def)

lemma process_queue_answers:
  assumes "serving s" and "list_all (\<lambda>(t, key). answerable g key) (resp_data_queue s)"
    and "answers g (resp_data_queue s) (resp_app s) = (ms, w)"
  shows "process_queue (resp_app_user g) (replicate (length (resp_data_queue s)) Send_Ok) s =
     (Continue, s\<lparr>resp_data_queue := [], resp_unfinished := 0, resp_app := w,
                  KLresponser := add_sent (frames ms) (KLresponser s)\<rparr>)"
  using assms
proof (induction "resp_data_queue s" arbitrary: s ms)
  case Nil
  then show ?case by (simp add: serving_def flip: Nil.hyps)
next
  case (Cons it q)
  obtain t key where it: "it = (t, key)" by fastforce
  obtain a w1 where g: "g t (resp_app s) = (a, w1)" by fastforce
  obtain ms' where ms: "answers g q w1 = (ms', w)" "ms = keyed_msg key a # ms'"
    using Cons.prems(3) it g by (auto simp flip: Cons.hyps(2) split: prod.splits)
  have q: "resp_data_queue s = (t, key) # q" using Cons.hyps(2) it by simp
  have ak: "answerable g key" using Cons.prems(2) by (simp add: q)
  note step = process_queue_step_answer [OF Cons.prems(1) q ak g]
  let ?s = "s\<lparr>resp_data_queue := q, resp_unfinished := length q, resp_app := w1,
       KLresponser := add_sent (frame (keyed_msg key a)) (KLresponser s)\<rparr>"
  have "process_queue (resp_app_user g) (replicate (length q) Send_Ok) ?s =
     (Continue, ?s\<lparr>resp_data_queue := [], resp_unfinished := 0, resp_app := w,
                  KLresponser := add_sent (frames ms') (KLresponser ?s)\<rparr>)"
    using Cons.hyps(1) [of ?s ms'] serving_step [OF Cons.prems(1)] Cons.prems(2) ms(1) q by simp
  then show ?case by (simp add: q step ms(2))
qed

text \<open>The queue after receiving a list of well-formed requests.\<close>

lemma fold_enqueue:
  "fold (\<lambda>d (v, rest). (enqueue_view d v, rest)) ms ((q, n), x) =
     ((q @ List.map_filter request_item ms, n + length (List.map_filter request_item ms)), x)"
  by (induction ms arbitrary: q n) (auto simp: List.map_filter_simps split: option.splits)

definition good_request :: "pystr \<times> pystr \<Rightarrow> bool" where
  "good_request it \<longleftrightarrow> list_all is_scalar (snd it) \<and> list_all is_scalar (fst it) \<and> fst it \<noteq> [] \<and>
     clean_before SEP (snd it) \<and> length (keyed_msg (snd it) (fst it)) \<le> 16777216"

lemma not_heartbeat_keyed: "keyed_msg key t \<noteq> HEARTBEAT_RESPONSE"
proof
  assume eq: "keyed_msg key t = HEARTBEAT_RESPONSE"
  have "38 \<in> set (keyed_msg key t)" by (simp add: keyed_msg_def SEP_simps)
  then show False by (simp add: eq HEARTBEAT_RESPONSE_def b_lit_def)
qed

lemma map_filter_requests:
  "list_all good_request its \<Longrightarrow>
     List.map_filter request_item (map (\<lambda>(t, key). keyed_msg key t) its) = its"
  by (induction its) (auto simp: List.map_filter_simps good_request_def request_item_keyed)

lemma responser_receives:
  assumes "serving s" and "buffer (KLresponser s) = []" and "[] \<notin> set cs"
    and "list_all good_request its"
    and "concat cs = frames (map (\<lambda>(t, key). keyed_msg key t) its)"
  shows "\<exists>s'. resp_receive (map Recv_Data cs) s = Some (Continue, s') \<and>
     resp_data_queue s' = resp_data_queue s @ its \<and> resp_unfinished s' = resp_unfinished s + length its \<and>
     resp_recv_func s' = resp_recv_func s \<and> resp_app s' = resp_app s \<and> KLresponser s' = KLresponser s"
proof -
  let ?ms = "map (\<lambda>(t, key). keyed_msg key t) its"
  have "list_all (valid_msg 16777216) ?ms"
    using assms(4) by (induction its) (auto simp: valid_msg_def good_request_def)
  then have p: "parse_stream (MAX_MSG_SIZE (KLresponser s)) (buffer (KLresponser s) @ concat cs) =
      (?ms, [], Need_More)"
    using assms frames_chunks_parse [of 16777216 ?ms] by (simp add: serving_def)
  have hb: "filter (\<lambda>m. m \<noteq> HEARTBEAT_RESPONSE) ?ms = ?ms"
    by (rule filter_True) (auto simp: not_heartbeat_keyed)
  have cb: "received_data_callback (KLresponser s) = Some OpenSocketResponser_internal_data_recv"
    using assms(1) by (simp add: serving_def)
  from responser_app.receive_chunks [OF cb _ _ _ _ assms(3) p] assms(1,2) show ?thesis
    by (auto simp: resp_receive_def serving_def online_def hb fold_enqueue map_filter_requests [OF assms(4)])
qed

lemma responser_serves:
  assumes "serving s" and "resp_data_queue s = []" and "buffer (KLresponser s) = []"
    and "[] \<notin> set cs" and "list_all good_request its"
    and "concat cs = frames (map (\<lambda>(t, key). keyed_msg key t) its)"
    and "list_all (\<lambda>(t, key). answerable g key) its"
    and "answers g its (resp_app s) = (ms, w)"
  shows "\<exists>s1 s2. resp_receive (map Recv_Data cs) s = Some (Continue, s1) \<and>
     process_queue (resp_app_user g) (replicate (length its) Send_Ok) s1 = (Continue, s2) \<and>
     resp_data_queue s2 = [] \<and> resp_unfinished s2 = 0 \<and> resp_app s2 = w \<and>
     sk_sent (tcp_socket (KLresponser s2)) = sk_sent (tcp_socket (KLresponser s)) @ frames ms \<and>
     connected (KLresponser s2)"
proof -
  obtain s1 where s1: "resp_receive (map Recv_Data cs) s = Some (Continue, s1)"
      "resp_data_queue s1 = its" "resp_unfinished s1 = length its"
      "resp_recv_func s1 = resp_recv_func s" "resp_app s1 = resp_app s" "KLresponser s1 = KLresponser s"
    using responser_receives [OF assms(1,3-6)] assms(1,2) by (auto simp: serving_def)
  have "serving s1" using assms(1) s1 by (simp add: serving_def)
  from process_queue_answers [OF this, of g ms w] s1 assms(7,8) assms(1) show ?thesis
    by (auto simp: serving_def online_def add_sent_def connected_def)
qed

text \<open>
  Requests are answered in order.  A serving responser with an
  empty queue that receives well-formed requests, in any chunks, and then lets its worker
  run once per request, has called the application's function once per request in the
  order of arrival and has sent, for each, one frame with the answer under the key of that
  request; the queue is empty again and no task is left unfinished.
\<close>

theorem responser_answers:
  assumes "serving s" and "resp_data_queue s = []" and "buffer (KLresponser s) = []"
    and "[] \<notin> set cs" and "list_all good_request its"
    and "concat cs = frames (map (\<lambda>(t, key). keyed_msg key t) its)"
    and "list_all (\<lambda>(t, key). answerable g key) its"
    and "answers g its (resp_app s) = (ms, w)"
  shows "\<exists>s1 s2. resp_receive (map Recv_Data cs) s = Some (Continue, s1) \<and>
     process_queue (resp_app_user g) (replicate (length its) Send_Ok) s1 = (Continue, s2) \<and>
     resp_data_queue s2 = [] \<and> resp_unfinished s2 = 0 \<and> resp_app s2 = w \<and>
     sk_sent (tcp_socket (KLresponser s2)) = sk_sent (tcp_socket (KLresponser s)) @ frames ms \<and>
     connected (KLresponser s2)"
  by (rule responser_serves [OF assms])

definition echo :: "pystr \<Rightarrow> unit \<Rightarrow> pystr \<times> unit" where
  "echo t w = (str_lit ''Echo'', w)"

definition sample_responser :: "(unit, unit) open_socket_responser" where
  "sample_responser = resp_set_RecvFunc (Some ())
     (snd (new_open_socket_responser True Send_Ok (str_lit ''app'') (str_lit ''sock'') ()))"

lemma sample_responser:
  "serving sample_responser" "resp_data_queue sample_responser = []"
  "buffer (KLresponser sample_responser) = []" "resp_app sample_responser = ()"
  by (simp_all add: sample_responser_def resp_set_RecvFunc_def new_open_socket_responser_def
      resp_init_def serving_def online_def next_frame_def encode_utf8_def send_data_def write_eq
      connect_to_server_def sock_connect_def new_client_def new_socket_def client_simps
      str_lit_def topic_def dash_def is_surrogate_def utf8_char_def)

theorem responser_answers_witness:
  "\<exists>s1 s2. resp_receive (map Recv_Data [frames (map (\<lambda>(t, key). keyed_msg key t) [(str_lit ''a'', str_lit ''1''), (str_lit ''b'', str_lit ''2'')])])
        sample_responser = Some (Continue, s1) \<and>
     process_queue (resp_app_user echo) (replicate 2 Send_Ok) s1 = (Continue, s2) \<and>
     sk_sent (tcp_socket (KLresponser s2)) = sk_sent (tcp_socket (KLresponser sample_responser)) @
       frames [keyed_msg (str_lit ''1'') (str_lit ''Echo''), keyed_msg (str_lit ''2'') (str_lit ''Echo'')]"
proof -
  let ?its = "[(str_lit ''a'', str_lit ''1''), (str_lit ''b'', str_lit ''2'')]"
  let ?x = "frames (map (\<lambda>(t, key). keyed_msg key t) ?its)"
  have h: "[] \<notin> set [?x]" by (simp add: frame_def MAGIC_def)
  have gr: "list_all good_request ?its"
    by (simp add: good_request_def str_lit_def is_scalar_def is_surrogate_def SEP_simps keyed_msg_def
        utf8_char_def)
  have cc: "concat [?x] = ?x" by simp
  have an: "list_all (\<lambda>(t, key). answerable echo key) ?its"
    by (simp add: answerable_def echo_def str_lit_def is_surrogate_def keyed_msg_def SEP_simps
        utf8_char_def)
  have as: "answers echo ?its (resp_app sample_responser) =
      ([keyed_msg (str_lit ''1'') (str_lit ''Echo''), keyed_msg (str_lit ''2'') (str_lit ''Echo'')], ())"
    by (simp add: echo_def)
  have len: "length ?its = 2" by simp
  from responser_answers [OF sample_responser(1-3) h gr cc an as, unfolded len] show ?thesis by blast
qed

text \<open>
  An exception of the application's function ends the worker.  The pass
  that meets it marks the task as done and raises; the requests behind it stay in the
  queue, and no later pass is made although the connection is still up.
\<close>

theorem worker_dies_of_exception:
  assumes "serving s" and "resp_data_queue s = (t, key) # q" and "resp_recv_func s = Some u"
    and "user u t (s\<lparr>resp_data_queue := q\<rparr>) = (Inl e, s\<lparr>resp_data_queue := q\<rparr>)"
  shows "process_queue user (r # rs) s =
           (Raise e, s\<lparr>resp_data_queue := q, resp_unfinished := length q\<rparr>) \<and>
         connected (KLresponser s)"
  using assms by (simp add: process_queue_step_def serving_def online_def finish_task_def task_done_def)

theorem worker_dies_of_exception_witness:
  "process_queue (\<lambda>u t s. (Inl UserError, s)) [Send_Ok, Send_Ok]
     (queue_put (str_lit ''b'', str_lit ''2'') (queue_put (str_lit ''a'', str_lit ''1'') sample_responser)) =
   (Raise UserError, sample_responser
      \<lparr>resp_data_queue := [(str_lit ''b'', str_lit ''2'')], resp_unfinished := 1\<rparr>)"
proof -
  let ?s = "queue_put (str_lit ''b'', str_lit ''2'') (queue_put (str_lit ''a'', str_lit ''1'') sample_responser)"
  have q: "resp_data_queue ?s = (str_lit ''a'', str_lit ''1'') # [(str_lit ''b'', str_lit ''2'')]"
    and u: "resp_recv_func ?s = Some ()" and sv: "serving ?s"
    using sample_responser(1,2) by (simp_all add: queue_put_def serving_def)
  from worker_dies_of_exception [OF sv q u, of "\<lambda>u t s. (Inl UserError, s)" UserError Send_Ok "[Send_Ok]"]
  show ?thesis using sample_responser(2) by (simp add: queue_put_def)
qed

end
