(* ===== verification/KL_ResponserLife.thy ===== *)
theory KL_ResponserLife
  imports KL_OpenSocketResponser
begin

text \<open>
  The life of an \<^verbatim>\<open>OpenSocketResponser\<close>: messages that arrive, passes of the worker and
  calls of the application in any order.  What is in the queue is always well typed, the
  count of unfinished tasks is always right, and what can end the worker is known.
\<close>

section \<open>Histories\<close>

datatype 'u resp_op =
    Resp_message bytes
  | Resp_work send_result
  | Resp_sendBack send_result pystr pystr
  | Resp_set_RecvFunc "'u option"
  | Resp_disconnect
  | Resp_client client_op

text \<open>\<open>Resp_client\<close> is what the client does by itself: heartbeats, a lost connection.\<close>

fun resp_exec :: "('u, 'w) resp_user \<Rightarrow> 'u resp_op \<Rightarrow> ('u, 'w) open_socket_responser \<Rightarrow> ('u, 'w) open_socket_responser" where
  "resp_exec user (Resp_message d) s = snd (resp_internal_data_recv d s)"
| "resp_exec user (Resp_work r) s = snd (process_queue_step user r s)"
| "resp_exec user (Resp_sendBack r data key) s = snd (sendBack r data key s)"
| "resp_exec user (Resp_set_RecvFunc u) s = resp_set_RecvFunc u s"
| "resp_exec user Resp_disconnect s = resp_disconnect s"
| "resp_exec user (Resp_client op) s = KLresponser_update (client_exec op) s"

inductive resp_reach :: "('u, 'w) resp_user \<Rightarrow> ('u, 'w) open_socket_responser \<Rightarrow> bool" for user where
  start: "resp_reach user (snd (new_open_socket_responser ok r a i w))"
| exec: "resp_reach user s \<Longrightarrow> resp_reach user (resp_exec user op s)"

lemma resp_reach_run: "resp_reach user s \<Longrightarrow> resp_reach user (fold (resp_exec user) ops s)"
  by (induction ops arbitrary: s) (auto intro: resp_reach.exec simp del: resp_exec.simps)

section \<open>Types of the queue\<close>

text \<open>
  While the application's function runs, requests may arrive; otherwise it leaves the queue
  alone.
\<close>

definition arrivals :: "bytes list \<Rightarrow> (pystr \<times> pystr) list" where
  "arrivals ds = List.map_filter request_item ds"

definition only_arrivals :: "('u, 'w) resp_user \<Rightarrow> bool" where
  "only_arrivals user \<longleftrightarrow> (\<forall>u t s. \<exists>ds.
     resp_data_queue (snd (user u t s)) = resp_data_queue s @ arrivals ds \<and>
     resp_unfinished (snd (user u t s)) = resp_unfinished s + length (arrivals ds))"

text \<open>An item of the queue: a text and a key that UTF-8 can carry, the text not empty.\<close>

definition wf_item :: "pystr \<times> pystr \<Rightarrow> bool" where
  "wf_item it \<longleftrightarrow> list_all is_scalar (fst it) \<and> fst it \<noteq> [] \<and> list_all is_scalar (snd it)"

definition wf_queue :: "nat \<Rightarrow> ('u, 'w) open_socket_responser \<Rightarrow> bool" where
  "wf_queue n s \<longleftrightarrow> list_all wf_item (resp_data_queue s) \<and> resp_unfinished s = n + length (resp_data_queue s)"

lemma request_item_wf: "request_item d = Some it \<Longrightarrow> wf_item it"
  using decode_scalar by (auto simp: request_item_def wf_item_def split: option.splits sum.splits if_splits)

lemma arrivals_wf: "list_all wf_item (arrivals ds)"
  by (induction ds) (auto simp: arrivals_def map_filter_simps request_item_wf split: option.splits)

lemma wf_queue_user:
  assumes "only_arrivals user" and "wf_queue n s"
  shows "wf_queue n (snd (user u t s))"
proof -
  obtain ds where "resp_data_queue (snd (user u t s)) = resp_data_queue s @ arrivals ds"
      "resp_unfinished (snd (user u t s)) = resp_unfinished s + length (arrivals ds)"
    using assms(1) unfolding only_arrivals_def by blast
  with assms(2) arrivals_wf [of ds] show ?thesis by (simp add: wf_queue_def)
qed

lemma sendBack_frame:
  "resp_data_queue (snd (sendBack r d k s)) = resp_data_queue s"
  "resp_unfinished (snd (sendBack r d k s)) = resp_unfinished s"
  "resp_recv_func (snd (sendBack r d k s)) = resp_recv_func s"
  by (simp_all add: sendBack_def split: sum.splits prod.splits)

lemma wf_queue_sendBack [simp]: "wf_queue n (snd (sendBack r d k s)) = wf_queue n s"
  by (simp add: wf_queue_def sendBack_frame)

lemma finish_task_wf: "wf_queue 1 s \<Longrightarrow> finish_task x s = (x, s\<lparr>resp_unfinished := length (resp_data_queue s)\<rparr>)"
  by (simp add: wf_queue_def finish_task_def task_done_def)

lemma finished_wf: "wf_queue 1 s \<Longrightarrow> wf_queue 0 (s\<lparr>resp_unfinished := length (resp_data_queue s)\<rparr>)"
  by (simp add: wf_queue_def)

lemma take_item_wf: "wf_queue 0 s \<Longrightarrow> resp_data_queue s = it # q \<Longrightarrow> wf_queue 1 (s\<lparr>resp_data_queue := q\<rparr>) \<and> wf_item it"
  by (simp add: wf_queue_def)

text \<open>One pass of the worker on a well-typed queue, by cases.\<close>

lemma worker_pass:
  assumes "only_arrivals user" and "wf_queue 0 s" and "process_queue_step user r s = (x, s')"
  shows "wf_queue 0 s' \<and>
    (\<forall>e. x = Raise e \<longrightarrow> (\<exists>payload key q u. resp_data_queue s = (payload, key) # q \<and> resp_recv_func s = Some u \<and>
       (fst (user u payload (s\<lparr>resp_data_queue := q\<rparr>)) = Inl e \<or>
        (\<exists>response s2. user u payload (s\<lparr>resp_data_queue := q\<rparr>) = (Inr (Some response), s2) \<and>
           fst (sendBack r response key s2) = Inl e))))"
proof (cases "connected (KLresponser s)")
  case True
  show ?thesis
  proof (cases "resp_data_queue s")
    case (Cons it q)
    obtain payload key where it: "it = (payload, key)" by fastforce
    let ?s1 = "s\<lparr>resp_data_queue := q\<rparr>"
    have w1: "wf_queue 1 ?s1" using take_item_wf [OF assms(2) Cons] by simp
    show ?thesis
    proof (cases "resp_recv_func s")
      case None
      then show ?thesis
        using assms(3) True Cons it finish_task_wf [OF w1] finished_wf [OF w1] by (simp add: process_queue_step_def)
    next
      case (Some u)
      obtain y s2 where y: "user u payload ?s1 = (y, s2)" by fastforce
      have w2: "wf_queue 1 s2" using wf_queue_user [OF assms(1) w1, of u payload] y by simp
      have w3: "wf_queue 1 s3" if "sendBack r t key s2 = (z, s3)" for t z s3
        using w2 wf_queue_sendBack [of 1 r t key s2] that by simp
      show ?thesis
        using assms(3) True Cons it Some y finish_task_wf [OF w2] finished_wf [OF w2] finish_task_wf [OF w3] finished_wf [OF w3]
        by (auto simp: process_queue_step_def split: sum.splits option.splits prod.splits)
    qed
  qed (use assms(2,3) True in \<open>simp add: process_queue_step_def\<close>)
qed (use assms(2,3) in \<open>simp add: process_queue_step_def\<close>)

lemma new_responser_queue:
  "resp_data_queue (snd (new_open_socket_responser ok r a i w)) = []"
  "resp_unfinished (snd (new_open_socket_responser ok r a i w)) = 0"
  by (simp_all add: new_open_socket_responser_def resp_init_def Let_def split: sum.splits prod.splits)

lemma wf_queue_exec:
  assumes "only_arrivals user" and "wf_queue 0 s"
  shows "wf_queue 0 (resp_exec user op s)"
proof (cases op)
  case (Resp_message d)
  with assms(2) request_item_wf [of d] show ?thesis
    by (auto simp: resp_recv_eq wf_queue_def queue_put_def split: option.splits)
next
  case (Resp_work r)
  with worker_pass [OF assms, of r] show ?thesis by (cases "process_queue_step user r s") simp
qed (use assms(2) in \<open>simp_all add: wf_queue_def sendBack_frame resp_set_RecvFunc_def resp_disconnect_def\<close>)

lemma wf_queue_reach: "resp_reach user s \<Longrightarrow> only_arrivals user \<Longrightarrow> wf_queue 0 s"
proof (induction rule: resp_reach.induct)
  case (start ok r a i w)
  show ?case by (simp add: wf_queue_def new_responser_queue)
qed (simp add: wf_queue_exec)


section \<open>What ends the worker\<close>

lemma sendBack_raises:
  assumes "list_all is_scalar key" and "MAX_MSG_SIZE (KLresponser s) = 16777216"
  shows "fst (sendBack r t key s) = Inl e \<longleftrightarrow>
     (if list_ex is_surrogate t then e = UnicodeEncodeError
      else connected (KLresponser s) \<and> length (keyed_msg key t) > 16777216 \<and> e = ValueError)"
  using assms scalar_not_surrogate [OF assms(1)]
  by (auto simp: sendBack_def encode_utf8_def SEP_simps utf8_char_def is_surrogate_def keyed_msg_def send_data_def write_eq
      split: prod.splits send_result.splits if_splits)

definition keeps_limit :: "('u, 'w) resp_user \<Rightarrow> bool" where
  "keeps_limit user \<longleftrightarrow> (\<forall>u t s. MAX_MSG_SIZE (KLresponser (snd (user u t s))) = MAX_MSG_SIZE (KLresponser s))"

lemma write_limit: "MAX_MSG_SIZE (snd (write_with_length_prefix r d c)) = MAX_MSG_SIZE c"
  by (simp add: write_with_length_prefix_def set_connected_def split: sum.splits prod.splits)

lemma client_limit: "MAX_MSG_SIZE (client_exec op c) = MAX_MSG_SIZE c"
proof (cases op)
  case (Op_fire r t)
  obtain x c1 where "write_with_length_prefix r HEARTBEAT (c\<lparr>timers := remove1 t (timers c)\<rparr>) = (x, c1)" by fastforce
  with write_limit [of r HEARTBEAT "c\<lparr>timers := remove1 t (timers c)\<rparr>"] Op_fire show ?thesis
    by (cases x) (simp_all add: fire_timer_def send_heart_beat_def start_heart_beat_def)
next
  case (Op_recv r)
  then show ?thesis
    by (cases r c rule: recv_pass_cases) (simp_all add: set_connected_def drop_connection_def Let_def)
qed (simp_all add: send_data_def write_limit connect_to_server_def set_connected_def start_heart_beat_def
      disconnect_def sock_connect_def Let_def split: option.splits)

lemma resp_exec_limit:
  assumes "keeps_limit user"
  shows "MAX_MSG_SIZE (KLresponser (resp_exec user op s)) = MAX_MSG_SIZE (KLresponser s)"
proof -
  have sb: "MAX_MSG_SIZE (KLresponser (snd (sendBack r t k s))) = MAX_MSG_SIZE (KLresponser s)" for r t k s
    using write_limit by (auto simp: sendBack_def send_data_def split: sum.splits prod.splits) (metis snd_conv)
  have ft: "KLresponser (snd (finish_task x s)) = KLresponser s" for x s
    by (simp add: finish_task_def task_done_def split: nat.splits)
  show ?thesis
  proof (cases op)
    case (Resp_work r)
    show ?thesis
    proof (cases "resp_data_queue s")
      case (Cons it q)
      obtain payload key where it: "it = (payload, key)" by fastforce
      let ?s1 = "s\<lparr>resp_data_queue := q\<rparr>"
      have us: "MAX_MSG_SIZE (KLresponser s2) = MAX_MSG_SIZE (KLresponser s)" if "user u payload ?s1 = (y, s2)" for u y s2
        using assms [unfolded keeps_limit_def, THEN spec, THEN spec, THEN spec, of u payload ?s1] that by simp
      have sb': "MAX_MSG_SIZE (KLresponser s3) = MAX_MSG_SIZE (KLresponser s)"
        if "user u payload ?s1 = (y, s2)" "sendBack r t key s2 = (z, s3)" for u y t z s2 s3
        using sb [of r t key s2] us [OF that(1)] that(2) by simp
      show ?thesis using Cons it us sb'
        by (auto simp: Resp_work process_queue_step_def ft Let_def split: sum.splits option.splits prod.splits)
    qed (simp add: Resp_work process_queue_step_def)
  qed (simp_all add: resp_recv_eq queue_put_def resp_set_RecvFunc_def resp_disconnect_def client_limit
      client_limit [of Op_disconnect, simplified] sb split: option.splits)
qed

lemma limit_reach: "resp_reach user s \<Longrightarrow> keeps_limit user \<Longrightarrow> MAX_MSG_SIZE (KLresponser s) = 16777216"
proof (induction rule: resp_reach.induct)
  case (start ok r a i w)
  have nl: "MAX_MSG_SIZE (connect_to_server ok localhost 6378 new_client) = 16777216"
    using client_limit [of "Op_connect ok localhost 6378" new_client] by (simp add: new_client_def)
  show ?case
  proof (cases "encode_utf8 (topic a i)")
    case (Inr b)
    let ?c = "(connect_to_server ok localhost 6378 new_client)
       \<lparr>received_data_callback := Some OpenSocketResponser_internal_data_recv\<rparr>"
    obtain x c where x: "send_data r b ?c = (x, c)" by fastforce
    then have "MAX_MSG_SIZE c = 16777216" using write_limit [of r b ?c] nl by (simp add: send_data_def)
    with Inr x show ?thesis
      by (cases x) (simp_all add: new_open_socket_responser_def resp_init_def Let_def)
  qed (simp add: new_open_socket_responser_def resp_init_def Let_def nl)
qed (simp add: resp_exec_limit)

text \<open>
  Claim C32 (error path): the only exceptions that can end the worker thread of a responser are those of the
  application: its function raises, or the answer it returns cannot be encoded or makes a
  message over the size limit.  Neither a request that arrived nor the queue's own
  bookkeeping can: the key of a request can always be sent back, and \<^verbatim>\<open>task_done\<close> is never
  called too often.
\<close>

theorem worker_ends_only_by_application:
  assumes "resp_reach user s" and "only_arrivals user" and "keeps_limit user"
    and "fst (process_queue_step user r s) = Raise e"
  shows "\<exists>t key q u. resp_data_queue s = (t, key) # q \<and> resp_recv_func s = Some u \<and>
     (fst (user u t (s\<lparr>resp_data_queue := q\<rparr>)) = Inl e \<or>
      (\<exists>response. fst (user u t (s\<lparr>resp_data_queue := q\<rparr>)) = Inr (Some response) \<and>
         (if list_ex is_surrogate response then e = UnicodeEncodeError
          else e = ValueError \<and> length (keyed_msg key response) > 16777216)))"
proof -
  note wf = wf_queue_reach [OF assms(1,2)]
  obtain s' where "process_queue_step user r s = (Raise e, s')" using assms(4) by (cases "process_queue_step user r s") auto
  with worker_pass [OF assms(2) wf, of r] obtain t key q u where
    c: "resp_data_queue s = (t, key) # q" "resp_recv_func s = Some u"
      "fst (user u t (s\<lparr>resp_data_queue := q\<rparr>)) = Inl e \<or>
       (\<exists>response s2. user u t (s\<lparr>resp_data_queue := q\<rparr>) = (Inr (Some response), s2) \<and>
          fst (sendBack r response key s2) = Inl e)"
    by blast
  have key: "list_all is_scalar key" using wf c(1) by (simp add: wf_queue_def wf_item_def)
  have "MAX_MSG_SIZE (KLresponser s2) = 16777216" if "user u t (s\<lparr>resp_data_queue := q\<rparr>) = (y, s2)" for y s2
    using assms(3) [unfolded keeps_limit_def, THEN spec, THEN spec, THEN spec, of u t "s\<lparr>resp_data_queue := q\<rparr>"]
      limit_reach [OF assms(1,3)] that by simp
  with c(3) sendBack_raises [OF key] have "fst (user u t (s\<lparr>resp_data_queue := q\<rparr>)) = Inl e \<or>
      (\<exists>response. fst (user u t (s\<lparr>resp_data_queue := q\<rparr>)) = Inr (Some response) \<and>
         (if list_ex is_surrogate response then e = UnicodeEncodeError
          else e = ValueError \<and> length (keyed_msg key response) > 16777216))"
    by (fastforce split: if_splits)
  with c(1,2) show ?thesis by blast
qed

section \<open>Instances\<close>

text \<open>An application that answers with a lone surrogate, and one request for it.\<close>

definition surrogate_user :: "(unit, unit) resp_user" where
  "surrogate_user u t s = (Inr (Some [0xD800]), s)"

definition one_request :: "(unit, unit) open_socket_responser" where
  "one_request = fold (resp_exec surrogate_user)
     [Resp_set_RecvFunc (Some ()), Resp_message (b_lit ''7&*&hi''), Resp_message (b_lit ''nonsense'')]
     (snd (new_open_socket_responser True Send_Ok (str_lit ''app'') (str_lit ''sock'') ()))"

lemma one_request_reach: "resp_reach surrogate_user one_request"
  unfolding one_request_def by (rule resp_reach_run [OF resp_reach.start])

lemma surrogate_user_tame: "only_arrivals surrogate_user" "keeps_limit surrogate_user"
  by (auto simp: only_arrivals_def keeps_limit_def surrogate_user_def arrivals_def map_filter_simps
      intro: exI [of _ "[]"])

lemma one_request:
  "resp_data_queue one_request = [(str_lit ''hi'', str_lit ''7'')]" "resp_recv_func one_request = Some ()"
  "connected (KLresponser one_request)" "resp_unfinished one_request = 1"
proof -
  have "b_lit ''7&*&hi'' = keyed_msg (str_lit ''7'') (str_lit ''hi'')"
    by (simp add: keyed_msg_def SEP_simps b_lit_def str_lit_def utf8_char_def)
  moreover have "request_item (keyed_msg (str_lit ''7'') (str_lit ''hi'')) = Some (str_lit ''hi'', str_lit ''7'')"
    by (rule request_item_keyed) (simp_all add: str_lit_def is_scalar_def is_surrogate_def SEP_simps)
  ultimately have m: "request_item (b_lit ''7&*&hi'') = Some (str_lit ''hi'', str_lit ''7'')" by simp
  have n: "request_item (b_lit ''nonsense'') = None" by (simp add: request_item_def SEP_simps b_lit_def)
  show "resp_data_queue one_request = [(str_lit ''hi'', str_lit ''7'')]" "resp_recv_func one_request = Some ()"
    "connected (KLresponser one_request)" "resp_unfinished one_request = 1"
    by (simp_all add: one_request_def resp_recv_eq m n queue_put_def resp_set_RecvFunc_def new_open_socket_responser_def
      resp_init_def encode_utf8_def topic_def dash_def str_lit_def is_surrogate_def send_data_def write_eq utf8_char_def
      connect_to_server_def sock_connect_def new_client_def new_socket_def client_simps)
qed


theorem worker_ends_only_by_application_witness:
  "fst (process_queue_step surrogate_user Send_Ok one_request) = Raise UnicodeEncodeError \<and>
   (\<exists>t key q u. resp_data_queue one_request = (t, key) # q \<and>
      (\<exists>response. fst (surrogate_user u t (one_request\<lparr>resp_data_queue := q\<rparr>)) = Inr (Some response) \<and>
         list_ex is_surrogate response))"
proof -
  have e: "fst (process_queue_step surrogate_user Send_Ok one_request) = Raise UnicodeEncodeError"
    by (simp add: process_queue_step_def one_request surrogate_user_def sendBack_def encode_utf8_def is_surrogate_def
      finish_task_def task_done_def Let_def str_lit_def SEP_simps)
  from worker_ends_only_by_application [OF one_request_reach surrogate_user_tame e] e show ?thesis
    by (auto simp: surrogate_user_def is_surrogate_def)
qed

end
