(* ===== verification/KL_OpenSocketQuerier.thy ===== *)
theory KL_OpenSocketQuerier
  imports KL_SignalSubscriber
begin

text \<open>
  \<^verbatim>\<open>OpenSocketQuerier.py\<close>: the role that asks, on port 6376.  A synchronous query runs in
  the thread of the caller and waits on an event that the receive thread sets; both touch
  the same fields, under a lock.  Each locked section is one definition here, so a query is
  \<open>query_begin\<close>, the send, the wait and \<open>query_end\<close>, with arbitrary actions of the other
  threads between them.
\<close>

section \<open>State\<close>

record ('u, 'w) open_socket_querier =
  q_appID :: "pystr option"
  q_openSocketID :: "pystr option"
  q_callback :: "'u option"
  query_result :: "pystr option"
  query_event :: bool
  is_querying :: bool
  timeout_occurred :: bool
  KLquerier :: tcp_client
  q_app :: 'w

type_synonym ('u, 'w) q_user =
  "'u \<Rightarrow> pystr \<Rightarrow> ('u, 'w) open_socket_querier \<Rightarrow> unit res \<times> ('u, 'w) open_socket_querier"

section \<open>Operations\<close>

definition q_init :: "bool \<Rightarrow> ('u, 'w) open_socket_querier \<Rightarrow> ('u, 'w) open_socket_querier" where
  "q_init ok s =
     (let s1 = s\<lparr>KLquerier := connect_to_server ok localhost 6376 new_client\<rparr>
      in KLquerier_update
           (\<lambda>c. c\<lparr>received_data_callback := Some OpenSocketQuerier_internal_data_recv\<rparr>) s1)"

definition new_open_socket_querier ::
  "bool \<Rightarrow> pystr option \<Rightarrow> pystr option \<Rightarrow> 'w \<Rightarrow> ('u, 'w) open_socket_querier" where
  "new_open_socket_querier ok APPID OpenSocketID w =
     q_init ok \<lparr>q_appID = APPID, q_openSocketID = OpenSocketID, q_callback = None,
       query_result = None, query_event = False, is_querying = False, timeout_occurred = False,
       KLquerier = new_client, q_app = w\<rparr>"

definition q_set_config ::
  "pystr \<Rightarrow> pystr \<Rightarrow> ('u, 'w) open_socket_querier \<Rightarrow> ('u, 'w) open_socket_querier" where
  "q_set_config APPID OpenSocketID s =
     s\<lparr>q_appID := Some APPID, q_openSocketID := Some OpenSocketID\<rparr>"

definition query_bytes ::
  "send_result \<Rightarrow> pystr option \<Rightarrow> pystr option \<Rightarrow> bytes \<Rightarrow> ('u, 'w) open_socket_querier \<Rightarrow>
   unit res \<times> ('u, 'w) open_socket_querier" where
  "query_bytes r APPID OpenSocketID data s =
     (case encode_utf8 (topic (fstr APPID) (fstr OpenSocketID) @ SEP) of
        Inl e \<Rightarrow> (Inl e, s)
      | Inr s_key_bytes \<Rightarrow>
          (case send_data r (s_key_bytes @ data) (KLquerier s) of (x, c) \<Rightarrow> (x, s\<lparr>KLquerier := c\<rparr>)))"

definition query_async ::
  "send_result \<Rightarrow> pystr \<Rightarrow> ('u, 'w) open_socket_querier \<Rightarrow> unit res \<times> ('u, 'w) open_socket_querier" where
  "query_async r data s =
     (case encode_utf8 data of
        Inl e \<Rightarrow> (Inl e, s)
      | Inr b \<Rightarrow> query_bytes r (q_appID s) (q_openSocketID s) b s)"

definition q_internal_data_recv ::
  "('u, 'w) q_user \<Rightarrow> bytes \<Rightarrow> ('u, 'w) open_socket_querier \<Rightarrow> unit res \<times> ('u, 'w) open_socket_querier" where
  "q_internal_data_recv user data s =
     (let received_text = decode_replace data in
      if is_querying s \<and> \<not> timeout_occurred s
      then (Inr (), s\<lparr>query_result := Some received_text, query_event := True\<rparr>)
      else (case q_callback s of None \<Rightarrow> (Inr (), s) | Some u \<Rightarrow> user u received_text s))"

definition q_set_RecvFunc :: "'u option \<Rightarrow> ('u, 'w) open_socket_querier \<Rightarrow> ('u, 'w) open_socket_querier" where
  "q_set_RecvFunc callback s = s\<lparr>q_callback := callback\<rparr>"

definition q_disconnect :: "('u, 'w) open_socket_querier \<Rightarrow> ('u, 'w) open_socket_querier" where
  "q_disconnect s =
     (let s1 = s\<lparr>KLquerier := disconnect (KLquerier s)\<rparr>
      in s1\<lparr>timeout_occurred := True, query_event := True\<rparr>)"

definition q_close :: "('u, 'w) open_socket_querier \<Rightarrow> ('u, 'w) open_socket_querier" where
  "q_close s = q_disconnect s"

definition q_enter :: "('u, 'w) open_socket_querier \<Rightarrow> ('u, 'w) open_socket_querier" where
  "q_enter s = s"

definition q_exit :: "('u, 'w) open_socket_querier \<Rightarrow> bool \<times> ('u, 'w) open_socket_querier" where
  "q_exit s = (False, q_disconnect s)"

subsection \<open>The synchronous query\<close>

text \<open>The first locked section.\<close>

definition query_begin :: "('u, 'w) open_socket_querier \<Rightarrow> ('u, 'w) open_socket_querier" where
  "query_begin s =
     s\<lparr>query_result := None, query_event := False, is_querying := True, timeout_occurred := False\<rparr>"

text \<open>The second locked section; \<open>success\<close> is what the wait returned.\<close>

definition query_end ::
  "bool \<Rightarrow> ('u, 'w) open_socket_querier \<Rightarrow> pystr option res \<times> ('u, 'w) open_socket_querier" where
  "query_end success s =
     (let s1 = s\<lparr>is_querying := False\<rparr> in
      if \<not> success then (Inl TimeoutError, s1\<lparr>timeout_occurred := True\<rparr>)
      else (Inr (query_result s1), s1))"

text \<open>What the other threads of the program may do meanwhile.\<close>

datatype 'u q_event =
    Ev_message bytes
  | Ev_disconnect
  | Ev_async send_result pystr
  | Ev_set_RecvFunc "'u option"
  | Ev_set_config pystr pystr

fun q_exec :: "('u, 'w) q_user \<Rightarrow> 'u q_event \<Rightarrow> ('u, 'w) open_socket_querier \<Rightarrow> ('u, 'w) open_socket_querier" where
  "q_exec user (Ev_message d) s = snd (q_internal_data_recv user d s)"
| "q_exec user Ev_disconnect s = q_disconnect s"
| "q_exec user (Ev_async r d) s = snd (query_async r d s)"
| "q_exec user (Ev_set_RecvFunc u) s = q_set_RecvFunc u s"
| "q_exec user (Ev_set_config a i) s = q_set_config a i s"

text \<open>
  A query with the events \<open>evs\<close> before its wait returns and \<open>evs'\<close> between that and its
  last locked section.  \<open>timeout\<close> tells whether a timeout was given; without one, and with
  the event never set, the call does not return: \<open>None\<close>.
\<close>

definition query ::
  "('u, 'w) q_user \<Rightarrow> send_result \<Rightarrow> pystr \<Rightarrow> bool \<Rightarrow> 'u q_event list \<Rightarrow> 'u q_event list \<Rightarrow>
   ('u, 'w) open_socket_querier \<Rightarrow> (pystr option res \<times> ('u, 'w) open_socket_querier) option" where
  "query user r data timeout evs evs' s =
     (case query_async r data (query_begin s) of
        (Inl e, s1) \<Rightarrow> Some (Inl e, s1)
      | (Inr _, s1) \<Rightarrow>
          (let s2 = fold (q_exec user) evs s1 in
           if query_event s2 then Some (query_end True (fold (q_exec user) evs' s2))
           else if timeout then Some (query_end False (fold (q_exec user) evs' s2))
           else None))"

text \<open>How the client calls the querier back, and the receive thread.\<close>

definition q_call ::
  "('u, 'w) q_user \<Rightarrow> bound_method \<Rightarrow> bytes \<Rightarrow> ('u, 'w) open_socket_querier \<Rightarrow>
   unit res \<times> ('u, 'w) open_socket_querier" where
  "q_call user m data s =
     (if m = OpenSocketQuerier_internal_data_recv then q_internal_data_recv user data s
      else (Inr (), s))"

definition q_receive ::
  "('u, 'w) q_user \<Rightarrow> recv_result list \<Rightarrow> ('u, 'w) open_socket_querier \<Rightarrow>
   (loop_outcome \<times> ('u, 'w) open_socket_querier) option" where
  "q_receive user rs s = receive_data KLquerier KLquerier_update (q_call user) rs s"

section \<open>Sending\<close>

interpretation querier: client_lens KLquerier KLquerier_update
  by unfold_locales simp_all

definition query_msg :: "('u, 'w) open_socket_querier \<Rightarrow> pystr \<Rightarrow> bytes" where
  "query_msg s data =
     utf8_bytes (topic (fstr (q_appID s)) (fstr (q_openSocketID s))) @ SEP_bytes @ utf8_bytes data"

definition q_encodable :: "('u, 'w) open_socket_querier \<Rightarrow> pystr \<Rightarrow> bool" where
  "q_encodable s data \<longleftrightarrow> \<not> list_ex is_surrogate data \<and>
     \<not> list_ex is_surrogate (fstr (q_appID s)) \<and> \<not> list_ex is_surrogate (fstr (q_openSocketID s))"

definition q_sendable :: "('u, 'w) open_socket_querier \<Rightarrow> pystr \<Rightarrow> bool" where
  "q_sendable s data \<longleftrightarrow> q_encodable s data \<and> MAX_MSG_SIZE (KLquerier s) = 16777216 \<and>
     length (query_msg s data) \<le> 16777216"

lemma query_async_eq:
  "query_async r data s =
     (if q_encodable s data
      then (case send_data r (query_msg s data) (KLquerier s) of (x, c) \<Rightarrow> (x, s\<lparr>KLquerier := c\<rparr>))
      else (Inl UnicodeEncodeError, s))"
  by (auto simp: query_async_def query_bytes_def encode_utf8_def query_msg_def q_encodable_def)

lemma query_async_sendable:
  assumes "q_sendable s data"
  shows "query_async r data s = (Inr (), s\<lparr>KLquerier := snd (send_data r (query_msg s data) (KLquerier s))\<rparr>)"
proof -
  have "fst (send_data r (query_msg s data) (KLquerier s)) = Inr ()"
    using assms by (simp add: q_sendable_def send_data_def write_eq split: send_result.split)
  with assms show ?thesis
    by (cases "send_data r (query_msg s data) (KLquerier s)") (simp add: query_async_eq q_sendable_def)
qed

lemma query_begin_msg [simp]:
  "query_msg (query_begin s) data = query_msg s data"
  "q_sendable (query_begin s) data = q_sendable s data"
  "q_encodable (query_begin s) data = q_encodable s data"
  "KLquerier (query_begin s) = KLquerier s"
  by (simp_all add: query_begin_def query_msg_def q_sendable_def q_encodable_def)

section \<open>The query as a mailbox\<close>

text \<open>
  The abstract view of the four shared fields: no query is waiting, a query waits and holds
  the latest reply, or a query was given up but has not returned yet.
\<close>

datatype qmode = Free | Awaiting "pystr option" | Aborted "pystr option"

definition qmode :: "('u, 'w) open_socket_querier \<Rightarrow> qmode" where
  "qmode s = (if \<not> is_querying s then Free
              else if timeout_occurred s then Aborted (query_result s)
              else Awaiting (query_result s))"

fun mode_step :: "'u q_event \<Rightarrow> qmode \<Rightarrow> qmode" where
  "mode_step (Ev_message d) (Awaiting _) = Awaiting (Some (decode_replace d))"
| "mode_step Ev_disconnect (Awaiting x) = Aborted x"
| "mode_step _ m = m"

text \<open>Application code that leaves the private fields of the querier alone.\<close>

definition keeps_query :: "('u, 'w) q_user \<Rightarrow> bool" where
  "keeps_query user \<longleftrightarrow>
     (\<forall>u t s. is_querying (snd (user u t s)) = is_querying s
            \<and> timeout_occurred (snd (user u t s)) = timeout_occurred s
            \<and> query_result (snd (user u t s)) = query_result s
            \<and> query_event (snd (user u t s)) = query_event s)"

lemma query_async_frame:
  "is_querying (snd (query_async r d s)) = is_querying s"
  "timeout_occurred (snd (query_async r d s)) = timeout_occurred s"
  "query_result (snd (query_async r d s)) = query_result s"
  "query_event (snd (query_async r d s)) = query_event s"
  "q_callback (snd (query_async r d s)) = q_callback s"
  "q_app (snd (query_async r d s)) = q_app s"
  by (simp_all add: query_async_eq split: prod.split)

lemma qmode_exec:
  "keeps_query user \<Longrightarrow> qmode (q_exec user ev s) = mode_step ev (qmode s)"
  by (cases ev) (auto simp: qmode_def q_internal_data_recv_def q_disconnect_def query_async_frame
      q_set_RecvFunc_def q_set_config_def keeps_query_def Let_def split: option.splits)

text \<open>The event is set exactly when there is a reply or the query was given up.\<close>

definition event_inv :: "('u, 'w) open_socket_querier \<Rightarrow> bool" where
  "event_inv s \<longleftrightarrow> is_querying s \<longrightarrow> query_event s = (query_result s \<noteq> None \<or> timeout_occurred s)"

lemma event_inv_exec: "keeps_query user \<Longrightarrow> event_inv s \<Longrightarrow> event_inv (q_exec user ev s)"
  by (cases ev) (auto simp: event_inv_def q_internal_data_recv_def q_disconnect_def query_async_frame
      q_set_RecvFunc_def q_set_config_def keeps_query_def Let_def split: option.splits)

lemma event_inv_begin: "event_inv (query_begin s)"
  by (simp add: event_inv_def query_begin_def)

lemma qmode_run: "keeps_query user \<Longrightarrow> qmode (fold (q_exec user) evs s) = fold mode_step evs (qmode s)"
  by (induction evs arbitrary: s) (simp_all add: qmode_exec)

lemma event_inv_run: "keeps_query user \<Longrightarrow> event_inv s \<Longrightarrow> event_inv (fold (q_exec user) evs s)"
  by (induction evs arbitrary: s) (simp_all add: event_inv_exec)

text \<open>The specification of a query over the mailbox.\<close>

fun mode_reply :: "qmode \<Rightarrow> pystr option" where
  "mode_reply Free = None"
| "mode_reply (Awaiting x) = x"
| "mode_reply (Aborted x) = x"

fun mode_ready :: "qmode \<Rightarrow> bool" where
  "mode_ready Free = False"
| "mode_ready (Awaiting x) = (x \<noteq> None)"
| "mode_ready (Aborted x) = True"

definition query_spec :: "bool \<Rightarrow> 'u q_event list \<Rightarrow> 'u q_event list \<Rightarrow> pystr option res option" where
  "query_spec timeout evs evs' =
     (let m = fold mode_step evs (Awaiting None) in
      if mode_ready m then Some (Inr (mode_reply (fold mode_step evs' m)))
      else if timeout then Some (Inl TimeoutError) else None)"

lemma mode_run_busy: "m \<noteq> Free \<Longrightarrow> fold mode_step evs m \<noteq> Free"
proof (induction evs arbitrary: m)
  case (Cons ev evs)
  then have "mode_step ev m \<noteq> Free" by (cases ev; cases m) auto
  with Cons.IH show ?case by simp
qed simp

lemma mode_of_state:
  "qmode s \<noteq> Free \<Longrightarrow> event_inv s \<Longrightarrow> mode_ready (qmode s) = query_event s \<and> mode_reply (qmode s) = query_result s"
  by (auto simp: qmode_def event_inv_def split: if_splits)

lemma query_refines:
  assumes "keeps_query user" and "q_sendable s data"
  shows "map_option fst (query user r data timeout evs evs' s) = query_spec timeout evs evs'"
proof -
  define s1 where "s1 = snd (query_async r data (query_begin s))"
  have a: "query_async r data (query_begin s) = (Inr (), s1)"
    using query_async_sendable [of "query_begin s" data r] assms(2) by (simp add: s1_def)
  have m1: "qmode s1 = Awaiting None" and e1: "event_inv s1"
    by (simp_all add: s1_def qmode_def event_inv_def query_async_frame query_begin_def)
  define s2 where "s2 = fold (q_exec user) evs s1"
  define s3 where "s3 = fold (q_exec user) evs' s2"
  have m2: "qmode s2 = fold mode_step evs (Awaiting None)" and e2: "event_inv s2"
    by (simp_all add: s2_def qmode_run [OF assms(1)] event_inv_run [OF assms(1)] m1 e1)
  have m3: "qmode s3 = fold mode_step evs' (qmode s2)" and e3: "event_inv s3"
    by (simp_all add: s3_def qmode_run [OF assms(1)] event_inv_run [OF assms(1)] e2)
  have busy: "qmode s2 \<noteq> Free" "qmode s3 \<noteq> Free"
    using m2 m3 mode_run_busy by (metis qmode.distinct(1))+
  note r2 = mode_of_state [OF busy(1) e2] and r3 = mode_of_state [OF busy(2) e3]
  have "query user r data timeout evs evs' s =
      (if query_event s2 then Some (query_end True s3)
       else if timeout then Some (query_end False s3) else None)"
    by (simp add: query_def a s2_def s3_def Let_def)
  then show ?thesis
    using r2 r3 by (simp add: query_spec_def Let_def query_end_def flip: m2 m3)
qed


definition sample_querier :: "(unit, pystr list) open_socket_querier" where
  "sample_querier = q_set_RecvFunc (Some ())
     (new_open_socket_querier True (Some (str_lit ''app'')) (Some (str_lit ''sock'')) [])"

text \<open>Application code that handles a text by updating its own state.\<close>

definition q_app_user :: "(pystr \<Rightarrow> 'w \<Rightarrow> 'w) \<Rightarrow> ('u, 'w) q_user" where
  "q_app_user f u t s = (Inr (), s\<lparr>q_app := f t (q_app s)\<rparr>)"

lemma q_app_user_keeps: "keeps_query (q_app_user f)"
  by (simp add: keeps_query_def q_app_user_def)

lemmas sample_querier_simps = sample_querier_def q_set_RecvFunc_def new_open_socket_querier_def
  q_init_def connect_to_server_def sock_connect_def new_client_def new_socket_def client_simps

lemma sample_querier:
  "online (KLquerier sample_querier)" "buffer (KLquerier sample_querier) = []"
  "received_data_callback (KLquerier sample_querier) = Some OpenSocketQuerier_internal_data_recv"
  "MAX_MSG_SIZE (KLquerier sample_querier) = 16777216" "q_callback sample_querier = Some ()"
  "connected (KLquerier sample_querier)"
  "q_sendable sample_querier (str_lit ''hi'')"
  by (simp_all add: sample_querier_simps online_def next_frame_def q_sendable_def q_encodable_def
      query_msg_def fstr_def topic_def dash_def str_lit_def is_surrogate_def SEP_simps utf8_char_def)


section \<open>What a query returns\<close>

lemma fold_messages_awaiting:
  assumes "is_querying s" and "\<not> timeout_occurred s" and "ds \<noteq> []"
  shows "fold (q_exec user) (map Ev_message ds) s =
           s\<lparr>query_result := Some (decode_replace (last ds)), query_event := True\<rparr>"
  using assms
proof (induction ds arbitrary: s)
  case (Cons d ds)
  let ?s = "s\<lparr>query_result := Some (decode_replace d), query_event := True\<rparr>"
  have "q_exec user (Ev_message d) s = ?s" using Cons.prems by (simp add: q_internal_data_recv_def)
  with Cons.IH [of ?s] Cons.prems show ?case by (cases "ds = []") simp_all
qed simp

lemma query_messages:
  assumes "q_sendable s data" and "ds \<noteq> []"
  shows "\<exists>s'. query user r data timeout (map Ev_message ds) (map Ev_message ds') s =
            Some (Inr (Some (decode_replace (last (ds @ ds')))), s') \<and>
          \<not> is_querying s' \<and> q_app s' = q_app s"
proof -
  define s1 where "s1 = snd (query_async r data (query_begin s))"
  have a: "query_async r data (query_begin s) = (Inr (), s1)"
    using query_async_sendable [of "query_begin s" data r] assms(1) by (simp add: s1_def)
  have s1: "is_querying s1" "\<not> timeout_occurred s1" "q_app s1 = q_app s"
    by (simp_all add: s1_def query_async_frame query_begin_def)
  have "fold (q_exec user) (map Ev_message ds') (fold (q_exec user) (map Ev_message ds) s1) =
      s1\<lparr>query_result := Some (decode_replace (last (ds @ ds'))), query_event := True\<rparr>"
    using fold_messages_awaiting [OF s1(1,2), of "ds @ ds'" user] assms(2) by simp
  with fold_messages_awaiting [OF s1(1,2) assms(2), of user] show ?thesis
    by (simp add: query_def a Let_def query_end_def s1)
qed

text \<open>
  A query that is answered returns the text of the last message
  that arrived before its last locked section, also when more than one arrived; the
  application's callback is not run for any of them, and afterwards the querier is free
  again.
\<close>

theorem query_returns_last_reply:
  assumes "q_sendable s data" and "ds \<noteq> []"
  shows "\<exists>s'. query user r data timeout (map Ev_message ds) (map Ev_message ds') s =
            Some (Inr (Some (decode_replace (last (ds @ ds')))), s') \<and>
          \<not> is_querying s' \<and> q_app s' = q_app s"
  by (rule query_messages [OF assms])

theorem query_returns_last_reply_witness:
  "\<exists>s'. query (q_app_user (\<lambda>t w. w @ [t])) Send_Ok (str_lit ''hi'') False
        (map Ev_message [b_lit ''a'']) (map Ev_message [b_lit ''b'']) sample_querier =
        Some (Inr (Some (decode_replace (b_lit ''b''))), s') \<and> q_app s' = q_app sample_querier"
  using query_returns_last_reply [OF sample_querier(7), of "[b_lit ''a'']" "q_app_user (\<lambda>t w. w @ [t])"
      Send_Ok False "[b_lit ''b'']"] by auto

lemma query_times_out:
  assumes "q_sendable s data"
  shows "query user r data True [] [] s =
     Some (Inl TimeoutError, s\<lparr>query_result := None, query_event := False, is_querying := False,
        timeout_occurred := True,
        KLquerier := snd (send_data r (query_msg s data) (KLquerier s))\<rparr>)"
  using query_async_sendable [of "query_begin s" data r] assms
  by (simp add: query_def Let_def query_end_def) (simp add: query_begin_def)

text \<open>
  A query that gets no reply in time raises \<^verbatim>\<open>TimeoutError\<close> and leaves
  the querier free; a reply that comes later goes to the application's callback, with its
  decoded text, and is not kept as a result.
\<close>

theorem query_timeout_then_late_reply:
  assumes "q_sendable s data"
  shows "\<exists>s'. query user r data True [] [] s = Some (Inl TimeoutError, s') \<and> \<not> is_querying s' \<and>
     (\<forall>d. q_internal_data_recv user d s' =
        (case q_callback s of None \<Rightarrow> (Inr (), s') | Some u \<Rightarrow> user u (decode_replace d) s'))"
  using query_times_out [OF assms] by (simp add: q_internal_data_recv_def)

theorem query_timeout_then_late_reply_witness:
  "\<exists>s'. query (q_app_user (\<lambda>t w. w @ [t])) Send_Ok (str_lit ''hi'') True [] [] sample_querier =
        Some (Inl TimeoutError, s') \<and>
      q_internal_data_recv (q_app_user (\<lambda>t w. w @ [t])) (b_lit ''late'') s' =
        (Inr (), s'\<lparr>q_app := q_app s' @ [decode_replace (b_lit ''late'')]\<rparr>)"
  using query_timeout_then_late_reply [OF sample_querier(7), of "q_app_user (\<lambda>t w. w @ [t])" Send_Ok]
  by (auto simp: sample_querier(5) q_app_user_def)

text \<open>
  Claim C33 (safety): a reply to a query that timed out answers the next query.  The flag that
  marks the timeout is cleared when the next query starts, so the late message is taken for
  its reply, whatever it says.
\<close>

theorem stale_reply_answers_next_query:
  assumes "q_sendable s data" and "q_sendable s data'"
    and "query user r data True [] [] s = Some (x, s1)"
  shows "x = Inl TimeoutError \<and>
     (\<exists>s2. query user r' data' timeout [Ev_message late] [] s1 =
        Some (Inr (Some (decode_replace late)), s2))"
proof -
  have s1: "s1 = s\<lparr>query_result := None, query_event := False, is_querying := False,
      timeout_occurred := True, KLquerier := snd (send_data r (query_msg s data) (KLquerier s))\<rparr>"
    and x: "x = Inl TimeoutError"
    using query_times_out [OF assms(1), of user r] assms(3) by simp_all
  have "MAX_MSG_SIZE (snd (send_data r (query_msg s data) (KLquerier s))) = MAX_MSG_SIZE (KLquerier s)"
    using write_frame(4) [of r "query_msg s data" "KLquerier s"] unfolding send_data_def
    by (metis prod.collapse)
  then have "q_sendable s1 data'"
    using assms(2) by (simp add: s1 q_sendable_def q_encodable_def query_msg_def)
  from query_messages [OF this, of "[late]" user r' timeout "[]"] x show ?thesis by auto
qed

theorem stale_reply_answers_next_query_witness:
  "\<exists>s1 s2. query (q_app_user (\<lambda>t w. w @ [t])) Send_Ok (str_lit ''hi'') True [] [] sample_querier =
        Some (Inl TimeoutError, s1) \<and>
      query (q_app_user (\<lambda>t w. w @ [t])) Send_Ok (str_lit ''hi'') True [Ev_message (b_lit ''old'')] [] s1 =
        Some (Inr (Some (decode_replace (b_lit ''old''))), s2)"
proof -
  obtain s1 where s1: "query (q_app_user (\<lambda>t w. w @ [t])) Send_Ok (str_lit ''hi'') True [] [] sample_querier =
        Some (Inl TimeoutError, s1)"
    using query_times_out [OF sample_querier(7)] by blast
  from stale_reply_answers_next_query [OF sample_querier(7) sample_querier(7) s1] s1
  show ?thesis by blast
qed

lemma fold_mode_Aborted: "fold mode_step evs (Aborted x) = Aborted x"
  by (induction evs) auto

lemma fold_mode_Some: "fold mode_step evs (Awaiting (Some t)) \<noteq> Awaiting None \<and>
    mode_reply (fold mode_step evs (Awaiting (Some t))) \<noteq> None"
proof (induction evs arbitrary: t)
  case (Cons ev evs)
  then show ?case by (cases ev) (simp_all add: fold_mode_Aborted)
qed simp

lemma mode_ready_iff:
  "mode_ready (fold mode_step evs (Awaiting None)) \<longleftrightarrow>
     (\<exists>ev \<in> set evs. ev = Ev_disconnect \<or> (\<exists>d. ev = Ev_message d))"
proof (induction evs)
  case (Cons ev evs)
  have "mode_ready (fold mode_step evs (Awaiting (Some t)))" for t
    using fold_mode_Some [of evs t] mode_run_busy [of "Awaiting (Some t)" evs]
    by (cases "fold mode_step evs (Awaiting (Some t))") auto
  with Cons show ?case by (cases ev) (simp_all add: fold_mode_Aborted)
qed simp

lemma mode_reply_None:
  fixes evs evs' :: "'u q_event list"
  assumes "mode_ready (fold mode_step evs (Awaiting None))"
    and "mode_reply (fold mode_step evs' (fold mode_step evs (Awaiting None))) = None"
  shows "Ev_disconnect \<in> set evs"
  using assms
proof (induction evs)
  case (Cons ev evs)
  show ?case
  proof (cases ev)
    case (Ev_message d)
    then show ?thesis
      using Cons.prems(2) fold_mode_Some [of "evs @ evs'" "decode_replace d"] by simp
  qed (use Cons in simp_all)
qed simp

text \<open>
  A query returns \<^verbatim>\<open>None\<close> instead of a text only if
  \<^verbatim>\<open>disconnect\<close> was called while it waited; the disconnection itself raises nothing in
  the waiting thread.
\<close>

theorem query_None_means_disconnected:
  assumes "keeps_query user" and "q_sendable s data"
    and "query user r data timeout evs evs' s = Some (Inr None, s')"
  shows "Ev_disconnect \<in> set evs"
proof -
  have "query_spec timeout evs evs' = Some (Inr None)"
    using query_refines [OF assms(1,2), of r timeout evs evs'] assms(3) by simp
  then show ?thesis
    using mode_reply_None [of evs evs'] by (auto simp: query_spec_def Let_def split: if_splits)
qed

theorem query_None_means_disconnected_witness:
  "(Ev_disconnect :: unit q_event) \<in> set [Ev_disconnect]"
proof -
  obtain s' where "query (q_app_user (\<lambda>t w. w @ [t])) Send_Ok (str_lit ''hi'') False [Ev_disconnect] []
      sample_querier = Some (Inr None, s')"
    using query_refines [OF q_app_user_keeps sample_querier(7), of "\<lambda>t w. w @ [t]" Send_Ok False
        "[Ev_disconnect]" "[]"]
    by (auto simp: query_spec_def)
  from query_None_means_disconnected [OF q_app_user_keeps sample_querier(7) this] show ?thesis .
qed



text \<open>
  Claim C34 (error path): a query whose message is over the size limit raises \<^verbatim>\<open>ValueError\<close>
  and sends nothing, but it leaves the querier marked as querying: the next message is
  stored as a result that nobody reads, and the application's callback is not run for it.
\<close>

theorem oversized_query_blocks_callback:
  assumes "connected (KLquerier s)" and "MAX_MSG_SIZE (KLquerier s) = 16777216"
    and "q_encodable s data" and "16777216 < length (query_msg s data)"
  shows "\<exists>s'. query user r data timeout evs evs' s = Some (Inl ValueError, s') \<and>
     is_querying s' \<and> KLquerier s' = KLquerier s \<and>
     (\<forall>d. q_internal_data_recv user d s' =
        (Inr (), s'\<lparr>query_result := Some (decode_replace d), query_event := True\<rparr>))"
proof -
  have "(query_begin s)\<lparr>KLquerier := KLquerier s\<rparr> = query_begin s"
    by (rule querier.upd_same) simp
  then have "query user r data timeout evs evs' s = Some (Inl ValueError, query_begin s)"
    using assms by (simp add: query_def query_async_eq send_data_def write_with_length_prefix_def)
  then show ?thesis by (auto simp: q_internal_data_recv_def query_begin_def)
qed

lemma utf8_replicate_ascii: "length (utf8_bytes (replicate n 120)) = n"
  by (induction n) (simp_all add: utf8_char_def)

theorem oversized_query_blocks_callback_witness:
  "\<exists>s'. query (q_app_user (\<lambda>t w. w @ [t])) Send_Ok (replicate 16777216 120) True [] [] sample_querier =
        Some (Inl ValueError, s') \<and> is_querying s'"
proof -
  have e: "q_encodable sample_querier (replicate 16777216 120)"
    by (simp add: sample_querier_simps q_encodable_def fstr_def str_lit_def is_surrogate_def list_ex_iff)
  have l: "16777216 < length (query_msg sample_querier (replicate 16777216 120))"
    by (simp add: query_msg_def utf8_replicate_ascii SEP_simps)
  from oversized_query_blocks_callback [OF sample_querier(6,4) e l] show ?thesis by blast
qed

section \<open>A query over the stream\<close>

text \<open>What the application and the query see of a querier, and what a message does to it.\<close>

fun q_act :: "(pystr \<Rightarrow> 'w \<Rightarrow> 'w) \<Rightarrow> bytes \<Rightarrow> bool \<times> pystr option \<times> bool \<times> bool \<times> 'w \<Rightarrow>
    bool \<times> pystr option \<times> bool \<times> bool \<times> 'w" where
  "q_act f d (waiting, res, ev, has_cb, w) =
     (if waiting then (waiting, Some (decode_replace d), True, has_cb, w)
      else (waiting, res, ev, has_cb, if has_cb then f (decode_replace d) w else w))"

interpretation querier_app: quiet_owner KLquerier KLquerier_update "q_call (q_app_user f)"
    OpenSocketQuerier_internal_data_recv
    "\<lambda>s. (is_querying s \<and> \<not> timeout_occurred s, query_result s, query_event s,
          q_callback s \<noteq> None, q_app s)"
    "q_act f"
  for f :: "pystr \<Rightarrow> 'w \<Rightarrow> 'w"
  by unfold_locales
    (auto simp: q_call_def q_internal_data_recv_def q_app_user_def Let_def split: option.splits)

lemma query_over_stream:
  assumes "online (KLquerier s)" and "buffer (KLquerier s) = []"
    and "received_data_callback (KLquerier s) = Some OpenSocketQuerier_internal_data_recv"
    and "q_sendable s data" and "query_async Send_Ok data (query_begin s) = (x, s1)"
    and "[] \<notin> set cs" and "list_all is_scalar t" and "t \<noteq> []" and "length (utf8_bytes t) \<le> 16777216"
    and "t \<noteq> str_lit ''heartbeat_response''" and "concat cs = frame (utf8_bytes t)"
  shows "x = Inr () \<and>
     sk_sent (tcp_socket (KLquerier s1)) = sk_sent (tcp_socket (KLquerier s)) @ frame (query_msg s data) \<and>
     (\<exists>s2. q_receive (q_app_user f) (map Recv_Data cs) s1 = Some (Continue, s2) \<and> query_event s2 \<and>
        fst (query_end True s2) = Inr (Some t) \<and> q_app s2 = q_app s)"
proof -
  have s1: "x = Inr ()" "s1 = (query_begin s)\<lparr>KLquerier := add_sent (frame (query_msg s data)) (KLquerier s)\<rparr>"
    using assms(1,4,5) query_async_sendable [of "query_begin s" data Send_Ok]
    by (auto simp: q_sendable_def send_data_def write_eq online_def)
  have on1: "online (KLquerier s1)" "buffer (KLquerier s1) = []"
      "received_data_callback (KLquerier s1) = Some OpenSocketQuerier_internal_data_recv"
      "MAX_MSG_SIZE (KLquerier s1) = 16777216"
    using assms(1-4) by (auto simp: s1 online_def add_sent_def connected_def q_sendable_def)
  have "list_all (valid_msg 16777216) [utf8_bytes t]" using assms(8,9) by (simp add: valid_msg_def)
  then have p: "parse_stream (MAX_MSG_SIZE (KLquerier s1)) (buffer (KLquerier s1) @ concat cs) =
      ([utf8_bytes t], [], Need_More)"
    using assms(11) on1 frames_chunks_parse [of 16777216 "[utf8_bytes t]"] by simp
  have hb: "utf8_bytes t \<noteq> HEARTBEAT_RESPONSE" using assms(7,10) by (simp add: utf8_heartbeat_response)
  from querier_app.receive_chunks [OF on1(3) _ _ _ _ assms(6) p, of f] on1(1)
  obtain s2 where s2: "q_receive (q_app_user f) (map Recv_Data cs) s1 = Some (Continue, s2)"
      "query_result s2 = Some t" "query_event s2" "q_app s2 = q_app s1"
    using hb assms(7) by (auto simp: online_def q_receive_def s1 query_begin_def decode_utf8_bytes)
  then show ?thesis
    using s1 by (auto simp: query_end_def query_begin_def add_sent_def)
qed

text \<open>
  A query from the first byte to the result.  On a querier that is
  online, the query sends exactly one frame, with the topic, the separator and the data.
  When the frame of a reply text comes back, cut in any chunks, the event is set and the
  query returns that very text; the application's callback is not involved.  The reply
  \<^verbatim>\<open>heartbeat_response\<close> is excluded: the client drops it.
\<close>

theorem query_roundtrip:
  assumes "online (KLquerier s)" and "buffer (KLquerier s) = []"
    and "received_data_callback (KLquerier s) = Some OpenSocketQuerier_internal_data_recv"
    and "q_sendable s data" and "query_async Send_Ok data (query_begin s) = (x, s1)"
    and "[] \<notin> set cs" and "list_all is_scalar t" and "t \<noteq> []" and "length (utf8_bytes t) \<le> 16777216"
    and "t \<noteq> str_lit ''heartbeat_response''" and "concat cs = frame (utf8_bytes t)"
  shows "x = Inr () \<and>
     sk_sent (tcp_socket (KLquerier s1)) = sk_sent (tcp_socket (KLquerier s)) @ frame (query_msg s data) \<and>
     (\<exists>s2. q_receive (q_app_user f) (map Recv_Data cs) s1 = Some (Continue, s2) \<and> query_event s2 \<and>
        fst (query_end True s2) = Inr (Some t) \<and> q_app s2 = q_app s)"
  by (rule query_over_stream [OF assms])

theorem query_roundtrip_witness:
  "\<exists>s1 s2. query_async Send_Ok (str_lit ''hi'') (query_begin sample_querier) = (Inr (), s1) \<and>
      q_receive (q_app_user (\<lambda>t w. w @ [t]))
        (map Recv_Data [take 5 (frame (utf8_bytes [0x4F60, 0x597D])), drop 5 (frame (utf8_bytes [0x4F60, 0x597D]))])
        s1 = Some (Continue, s2) \<and> fst (query_end True s2) = Inr (Some [0x4F60, 0x597D])"
proof -
  let ?t = "[0x4F60, 0x597D]"
  let ?x = "frame (utf8_bytes ?t)"
  obtain y s1 where a: "query_async Send_Ok (str_lit ''hi'') (query_begin sample_querier) = (y, s1)"
    by fastforce
  have len: "length (utf8_bytes ?t) = 6" by (simp add: utf8_char_def)
  have h: "[] \<notin> set [take 5 ?x, drop 5 ?x]" using len length_frame [of "utf8_bytes ?t"] by auto
  have sc: "list_all is_scalar ?t" by (simp add: is_scalar_def is_surrogate_def)
  have ne: "?t \<noteq> []" "length (utf8_bytes ?t) \<le> 16777216" "?t \<noteq> str_lit ''heartbeat_response''"
    using len by (simp_all add: str_lit_def)
  have cc: "concat [take 5 ?x, drop 5 ?x] = ?x" by (simp only: concat.simps append_Nil2 append_take_drop_id)
  from query_roundtrip [OF sample_querier(1-3,7) a h sc ne cc, of "\<lambda>t w. w @ [t]"] a
  show ?thesis by blast
qed

end
