(* ===== verification/KL_Examples.thy ===== *)
theory KL_Examples
  imports KL_SignalPath KL_ResponserLife KL_OpenSocketQuerier KL_Kludf
begin

text \<open>
  The example programs at the end of the source files, the code under
  \<^verbatim>\<open>if __name__ == "__main__"\<close>.  The state of the application is the list of the lines it
  has printed.  While a program sleeps its other threads run: what they do is an argument.
  No heartbeat is due within the minute that an example runs.
\<close>

section \<open>The programs\<close>

definition hello :: pystr where
  "hello = str_lit ''Hello, Server!''"

text \<open>The receive thread of a client whose owner sleeps.\<close>

definition sleep_client :: "recv_result list \<Rightarrow> tcp_client \<Rightarrow> tcp_client" where
  "sleep_client rs c = fold (\<lambda>r. client_exec (Op_recv r)) rs c"

definition tcpclient_main ::
  "bool \<Rightarrow> recv_result list \<Rightarrow> send_result \<Rightarrow> recv_result list \<Rightarrow> unit res \<times> tcp_client" where
  "tcpclient_main ok rs r rs' =
     (let client = sleep_client rs (connect_to_server ok localhost 6370 new_client) in
      case send_data r (b_lit ''Hello, Server!'') client of
        (Inl e, c) \<Rightarrow> (Inl e, c)
      | (Inr _, c) \<Rightarrow> (Inr (), disconnect (sleep_client rs' c)))"

definition sender_main :: "bool \<Rightarrow> send_result \<Rightarrow> recv_result list \<Rightarrow> unit res \<times> signal_sender" where
  "sender_main ok r rs =
     (case emitt r (PStr hello) (new_signal_sender ok (Some (str_lit ''1'')) (Some (str_lit ''1''))) of
        (Inl e, s) \<Rightarrow> (Inl e, s)
      | (Inr _, s) \<Rightarrow> (Inr (), KLsender_update disconnect (KLsender_update (sleep_client rs) s)))"

text \<open>\<^verbatim>\<open>my_callback\<close> prints the text it is given.\<close>

definition callback_line :: "pystr \<Rightarrow> pystr" where
  "callback_line data = str_lit ''Callback received data: '' @ data"

definition subscriber_main ::
  "bool \<Rightarrow> send_result \<Rightarrow> recv_result list \<Rightarrow> (unit res \<times> (unit, pystr list) signal_subscriber) option" where
  "subscriber_main ok r rs =
     (case new_signal_subscriber ok r (str_lit ''1'') (str_lit ''1'') [] of
        (Inl e, s) \<Rightarrow> Some (Inl e, s)
      | (Inr _, s) \<Rightarrow>
          (case sub_receive (sub_app_user (\<lambda>t out. out @ [callback_line t])) rs (sub_set_RecvFunc (Some ()) s) of
             None \<Rightarrow> None
           | Some (_, s1) \<Rightarrow> Some (Inr (), KLsubscriber_update disconnect s1)))"

text \<open>\<^verbatim>\<open>on_received_data\<close> prints a line, waits five seconds and answers.\<close>

definition on_received_data :: "(unit, pystr list) resp_user" where
  "on_received_data u data s =
     (Inr (Some (str_lit ''Hello, Client! Your message has been received.'')),
      s\<lparr>resp_app := resp_app s @ [[0x63A5, 0x6536, 0x5230, 0x5B57, 0x7B26, 0x4E32, 0x6570, 0x636E, 0xFF1A] @ data]\<rparr>)"

definition responser_main ::
  "bool \<Rightarrow> send_result \<Rightarrow> unit resp_op list \<Rightarrow> unit res \<times> (unit, pystr list) open_socket_responser" where
  "responser_main ok r ops =
     (case new_open_socket_responser ok r (str_lit ''0x00000001'') (str_lit ''0x00000002'') [] of
        (Inl e, s) \<Rightarrow> (Inl e, s)
      | (Inr _, s) \<Rightarrow>
          (Inr (), KLresponser_update disconnect (fold (resp_exec on_received_data) ops (resp_set_RecvFunc (Some ()) s))))"

definition querier_main ::
  "bool \<Rightarrow> send_result \<Rightarrow> unit q_event list \<Rightarrow> unit q_event list \<Rightarrow> send_result \<Rightarrow> unit q_event list \<Rightarrow>
   (unit res \<times> (unit, pystr list) open_socket_querier) option" where
  "querier_main ok r evs evs' r2 evs2 =
     (let user = q_app_user (\<lambda>t out. out @ [callback_line t]);
          querier = q_set_RecvFunc (Some ())
            (new_open_socket_querier ok (Some (str_lit ''0x00000001'')) (Some (str_lit ''0x00000011'')) [])
      in case query user r hello False evs evs' querier of
           None \<Rightarrow> None
         | Some (Inl e, s) \<Rightarrow> Some (Inl e, s)
         | Some (Inr result, s) \<Rightarrow>
             (let s1 = s\<lparr>q_app := q_app s @ [str_lit ''Synchronous query result: '' @ fstr result]\<rparr> in
              case query_async r2 (str_lit ''Another message'') s1 of
                (Inl e, s2) \<Rightarrow> Some (Inl e, s2)
              | (Inr _, s2) \<Rightarrow> Some (Inr (), KLquerier_update disconnect (fold (q_exec user) evs2 s2))))"

text \<open>What the example of \<^verbatim>\<open>kludf.py\<close> prints: two maps, a string and two values.\<close>

definition kludf_main :: "klkvmap \<times> pystr \<times> klkvmap \<times> pystr \<times> pystr" where
  "kludf_main =
     (let kv_map = klkv_setitem (str_lit ''key2'') (str_lit ''value2'')
            (klkv_setitem (str_lit ''key1'') (str_lit ''value1'') []);
          serialized = serialize kv_map;
          new_kv_map = deserialize serialized []
      in (kv_map, serialized, new_kv_map, klkv_get new_kv_map (str_lit ''key1'') [], klkv_get new_kv_map (str_lit ''key3'') []))"

section \<open>What they do\<close>

lemma sleep_client_socket: "sk_sent (tcp_socket (sleep_client rs c)) = sk_sent (tcp_socket c)"
proof (induction rs arbitrary: c)
  case (Cons r rs)
  have "sk_sent (tcp_socket (client_exec (Op_recv r) c)) = sk_sent (tcp_socket c)"
    by (cases r c rule: recv_pass_cases) (simp_all add: set_connected_def drop_connection_def sock_close_def Let_def)
  with Cons [of "client_exec (Op_recv r) c"] show ?case by (simp add: sleep_client_def)
qed (simp add: sleep_client_def)

definition example_sender :: signal_sender where
  "example_sender = new_signal_sender True (Some (str_lit ''1'')) (Some (str_lit ''1''))"

lemma example_sender:
  "sending example_sender" "sk_sent (tcp_socket (KLsender example_sender)) = []" "signal_text example_sender hello"
  by (simp_all add: example_sender_def sending_def signal_text_def signal_msg_def sender_ids_ok_def new_signal_sender_def
      connect_to_server_def sock_connect_def new_client_def new_socket_def client_simps fstr_def topic_def dash_def
      hello_def str_lit_def is_scalar_def is_surrogate_def utf8_char_def SEP_simps)

definition example_subscriber :: "(unit, pystr list) signal_subscriber" where
  "example_subscriber = sub_set_RecvFunc (Some ()) (snd (new_signal_subscriber True Send_Ok (str_lit ''1'') (str_lit ''1'') []))"

lemma example_subscriber:
  "online (KLsubscriber example_subscriber)" "buffer (KLsubscriber example_subscriber) = []"
  "MAX_MSG_SIZE (KLsubscriber example_subscriber) = 16777216"
  "received_data_callback (KLsubscriber example_subscriber) = Some SignalSubscriber_data_recv"
  "sub_callback example_subscriber \<noteq> None" "sub_app example_subscriber = []"
  "fst (new_signal_subscriber True Send_Ok (str_lit ''1'') (str_lit ''1'') [] :: unit res \<times> (unit, pystr list) signal_subscriber) = Inr ()"
  by (simp_all add: example_subscriber_def sample_subscriber_simps online_def next_frame_def str_lit_def topic_def dash_def
      is_surrogate_def utf8_char_def)

lemma sender_main_eq:
  "sender_main True Send_Ok rs =
     (Inr (), KLsender_update disconnect (KLsender_update (sleep_client rs) (snd (emitt_all [hello] example_sender))))"
  using emitt_sending [OF example_sender(1,3)] by (simp add: sender_main_def flip: example_sender_def)

lemma subscriber_main_eq:
  "subscriber_main True Send_Ok rs =
     (case sub_receive (sub_app_user (\<lambda>t out. out @ [callback_line t])) rs example_subscriber of
        None \<Rightarrow> None | Some (_, s1) \<Rightarrow> Some (Inr (), KLsubscriber_update disconnect s1))"
  using example_subscriber(7)
  by (cases "new_signal_subscriber True Send_Ok (str_lit ''1'') (str_lit ''1'') [] :: unit res \<times> (unit, pystr list) signal_subscriber")
     (simp add: subscriber_main_def example_subscriber_def)

text \<open>
  The examples of the sender and the subscriber work together.  If both
  connect and the broker turns the message of the one signal into its text, the subscriber
  prints the line with the greeting and nothing else, whatever arrives at the sender and
  however the signal arrives at the subscriber, and both programs end with their sockets
  closed.
\<close>

theorem example_signal_is_printed:
  assumes "route (signal_msg example_sender (utf8_bytes hello)) = utf8_bytes hello"
    and "sender_main True Send_Ok rs = (x, s)" and "[] \<notin> set cs"
    and "concat cs = frames (map route (fst (parse_stream 16777216 (sk_sent (tcp_socket (KLsender s))))))"
  shows "x = Inr () \<and> sk_state (tcp_socket (KLsender s)) = Sock_Closed \<and>
    (\<exists>u. subscriber_main True Send_Ok (map Recv_Data cs) = Some (Inr (), u) \<and>
         sub_app u = [str_lit ''Callback received data: Hello, Server!''] \<and>
         sk_state (tcp_socket (KLsubscriber u)) = Sock_Closed)"
proof -
  obtain y s1 where e: "emitt_all [hello] example_sender = (y, s1)" by fastforce
  have closed: "sk_state (tcp_socket (disconnect c)) = Sock_Closed" for c
    by (simp add: disconnect_def sock_close_def Let_def)
  have s: "x = Inr ()" "s = KLsender_update disconnect (KLsender_update (sleep_client rs) s1)"
    using assms(2) unfolding sender_main_eq e by auto
  have "sk_sent (tcp_socket (KLsender s)) = sk_sent (tcp_socket (KLsender s1))"
    by (simp add: s(2) disconnect_sent sleep_client_socket)
  then have cc: "concat cs = frames (map route (fst (parse_stream 16777216 (sk_sent (tcp_socket (KLsender s1))))))"
    using assms(4) by simp
  have h: "list_all (signal_text example_sender) [hello]" "\<forall>t \<in> set [hello]. route (signal_msg example_sender (utf8_bytes t)) = utf8_bytes t"
    using example_sender(3) assms(1) by simp_all
  from signals_delivered [OF example_sender(1,2) h(1) e h(2) example_subscriber(1-5) assms(3) cc,
      of "\<lambda>t out. out @ [callback_line t]"]
  obtain u where "sub_receive (sub_app_user (\<lambda>t out. out @ [callback_line t])) (map Recv_Data cs) example_subscriber = Some (Continue, u)"
      "sub_app u = [callback_line hello]"
    by (auto simp: example_subscriber(6) hello_def str_lit_def)
  then show ?thesis by (simp add: s subscriber_main_eq closed callback_line_def hello_def str_lit_def)
qed

text \<open>
  The example of the querier asks for the open socket \<^verbatim>\<open>0x00000011\<close>, the example of the
  responser registers \<^verbatim>\<open>0x00000002\<close>; and without a reply the querier, which has no timeout,
  never goes past its first query.
\<close>

lemma example_query_blocks:
  assumes "\<forall>ev \<in> set evs. (\<forall>d. ev \<noteq> Ev_message d) \<and> ev \<noteq> Ev_disconnect"
  shows "querier_main ok r evs evs' r2 evs2 = None"
proof -
  let ?q = "q_set_RecvFunc (Some ()) (new_open_socket_querier ok (Some (str_lit ''0x00000001'')) (Some (str_lit ''0x00000011'')) [])
     :: (unit, pystr list) open_socket_querier"
  let ?user = "q_app_user (\<lambda>t out. out @ [callback_line t]) :: (unit, pystr list) q_user"
  have sd: "q_sendable ?q hello"
    by (simp add: q_set_RecvFunc_def new_open_socket_querier_def q_init_def q_sendable_def q_encodable_def query_msg_def
        connect_to_server_def sock_connect_def new_client_def new_socket_def client_simps
        fstr_def topic_def dash_def hello_def str_lit_def is_surrogate_def SEP_simps utf8_char_def)
  have "query_spec False evs evs' = None" using assms mode_ready_iff [of evs] by (auto simp: query_spec_def Let_def)
  with query_refines [OF q_app_user_keeps sd, of "\<lambda>t out. out @ [callback_line t]" r False evs evs']
  have "query ?user r hello False evs evs' ?q = None" by simp
  then show ?thesis by (simp add: querier_main_def)
qed

lemma example_names_differ:
  "topic (str_lit ''0x00000001'') (str_lit ''0x00000011'') \<noteq> topic (str_lit ''0x00000001'') (str_lit ''0x00000002'')"
  by (simp add: topic_def str_lit_def)

lemma example_kludf:
  "kludf_main =
     ([(str_lit ''key1'', str_lit ''value1''), (str_lit ''key2'', str_lit ''value2'')],
      str_lit ''key1=value1;key2=value2'',
      [(str_lit ''key1'', str_lit ''value1''), (str_lit ''key2'', str_lit ''value2'')], str_lit ''value1'', [])"
  by (simp add: kludf_main_def klkv_setitem_def serialize_def deserialize_def klkv_get_def str_lit_def semicolon_def equals_sign_def Let_def)

section \<open>Instances\<close>

definition example_route :: "bytes \<Rightarrow> bytes" where
  "example_route m = (case find_sub SEP_bytes m of None \<Rightarrow> [] | Some n \<Rightarrow> drop (n + 3) m)"

lemma example_route: "example_route (signal_msg example_sender (utf8_bytes hello)) = utf8_bytes hello"
  by (simp add: example_route_def signal_msg_def example_sender_def new_signal_sender_def fstr_def topic_def dash_def
      str_lit_def SEP_simps utf8_char_def)

lemma example_wire:
  "emitt_all [hello] example_sender = (Inr (), snd (emitt_all [hello] example_sender))"
  "frames (map example_route (fst (parse_stream 16777216 (sk_sent (tcp_socket (KLsender (snd (emitt_all [hello] example_sender)))))))) =
     frame (utf8_bytes hello)"
proof -
  have l: "list_all (signal_text example_sender) [hello]" using example_sender(3) by simp
  have sent: "sk_sent (tcp_socket (KLsender (snd (emitt_all [hello] example_sender)))) =
      frames [signal_msg example_sender (utf8_bytes hello)]"
    using emitt_all_sends [OF example_sender(1) l] example_sender(2) by simp
  have "parse_stream 16777216 ([] @ frames [signal_msg example_sender (utf8_bytes hello)]) =
      ([signal_msg example_sender (utf8_bytes hello)], [], Need_More)"
    using example_sender(3) by (intro frames_chunks_parse) (simp_all add: signal_text_def valid_msg_def signal_msg_nonempty)
  then show "frames (map example_route (fst (parse_stream 16777216 (sk_sent (tcp_socket (KLsender (snd (emitt_all [hello] example_sender)))))))) =
     frame (utf8_bytes hello)"
    unfolding sent by (simp add: example_route)
  show "emitt_all [hello] example_sender = (Inr (), snd (emitt_all [hello] example_sender))"
    using emitt_all_sends [OF example_sender(1) l] by (simp add: prod_eq_iff)
qed


theorem example_signal_is_printed_witness:
  "\<exists>u. subscriber_main True Send_Ok (map Recv_Data [frame (utf8_bytes hello)]) = Some (Inr (), u) \<and>
       sub_app u = [str_lit ''Callback received data: Hello, Server!'']"
proof -
  obtain x s where s: "sender_main True Send_Ok [Recv_Error] = (x, s)" by fastforce
  have "sk_sent (tcp_socket (KLsender s)) = sk_sent (tcp_socket (KLsender (snd (emitt_all [hello] example_sender))))"
    using s unfolding sender_main_eq by (auto simp: disconnect_sent sleep_client_socket)
  then have "concat [frame (utf8_bytes hello)] = frames (map example_route
      (fst (parse_stream 16777216 (sk_sent (tcp_socket (KLsender s))))))"
    using example_wire(2) by simp
  moreover have "[] \<notin> set [frame (utf8_bytes hello)]" by (simp add: frame_def MAGIC_def)
  ultimately show ?thesis using example_signal_is_printed [where route = example_route, OF example_route s] by blast
qed

end
