(* ===== verification/KL_QueryThreads.thy ===== *)
theory KL_QueryThreads
  imports KL_OpenSocketQuerier
begin

text \<open>
  Several threads that call \<^verbatim>\<open>query\<close> of one \<^verbatim>\<open>OpenSocketQuerier\<close>.  A call goes through its
  two locked sections, the send and the wait, and the calls of other threads, the receive
  thread and the rest of the program may run between any two of them.  One call on its own
  is the definition \<open>query\<close>; with several, the fields are shared.
\<close>

section \<open>Calls as threads\<close>

datatype qpc =
    Q_begin pystr bool
  | Q_send pystr bool
  | Q_wait bool
  | Q_end bool
  | Q_returned "pystr option res"

text \<open>
  One step of a call: \<open>r\<close> is the outcome of the send, \<open>late\<close> tells that the timeout, if one
  was given, has passed.  A wait whose event is not set stays where it is.
\<close>

fun qpc_step ::
  "send_result \<Rightarrow> bool \<Rightarrow> qpc \<Rightarrow> ('u, 'w) open_socket_querier \<Rightarrow> qpc \<times> ('u, 'w) open_socket_querier" where
  "qpc_step r late (Q_begin data timeout) s = (Q_send data timeout, query_begin s)"
| "qpc_step r late (Q_send data timeout) s =
     (case query_async r data s of
        (Inl e, s1) \<Rightarrow> (Q_returned (Inl e), s1)
      | (Inr _, s1) \<Rightarrow> (Q_wait timeout, s1))"
| "qpc_step r late (Q_wait timeout) s =
     (if query_event s then (Q_end True, s)
      else if timeout \<and> late then (Q_end False, s)
      else (Q_wait timeout, s))"
| "qpc_step r late (Q_end success) s = (case query_end success s of (x, s1) \<Rightarrow> (Q_returned x, s1))"
| "qpc_step r late (Q_returned x) s = (Q_returned x, s)"

text \<open>
  The querier, the calls that were made, the messages that arrived so far, and for each call
  how many of them there were when it was made.
\<close>

record ('u, 'w) qthreads =
  qobj :: "('u, 'w) open_socket_querier"
  qcalls :: "qpc list"
  arrived :: "bytes list"
  since :: "nat list"

datatype 'u qt_event =
    Qe_call pystr bool
  | Qe_step nat send_result bool
  | Qe_other "'u q_event"

fun arrives :: "'u q_event \<Rightarrow> bytes list" where
  "arrives (Ev_message d) = [d]"
| "arrives _ = []"

fun qt_exec :: "('u, 'w) q_user \<Rightarrow> 'u qt_event \<Rightarrow> ('u, 'w) qthreads \<Rightarrow> ('u, 'w) qthreads" where
  "qt_exec user (Qe_call data timeout) s =
     s\<lparr>qcalls := qcalls s @ [Q_begin data timeout], since := since s @ [length (arrived s)]\<rparr>"
| "qt_exec user (Qe_step i r late) s =
     (if i < length (qcalls s)
      then (case qpc_step r late (qcalls s ! i) (qobj s) of
              (p, q) \<Rightarrow> s\<lparr>qobj := q, qcalls := (qcalls s)[i := p]\<rparr>)
      else s)"
| "qt_exec user (Qe_other ev) s =
     s\<lparr>qobj := q_exec user ev (qobj s), arrived := arrived s @ arrives ev\<rparr>"

definition qt_start :: "('u, 'w) open_socket_querier \<Rightarrow> ('u, 'w) qthreads" where
  "qt_start q = \<lparr>qobj = q, qcalls = [], arrived = [], since = []\<rparr>"

text \<open>Everything that can happen to a querier from its constructor on.\<close>

inductive qt_reach :: "('u, 'w) q_user \<Rightarrow> ('u, 'w) qthreads \<Rightarrow> bool" for user where
  start: "qt_reach user (qt_start (new_open_socket_querier ok a i w))"
| exec: "qt_reach user s \<Longrightarrow> qt_reach user (qt_exec user ev s)"

lemma qt_reach_run: "qt_reach user s \<Longrightarrow> qt_reach user (fold (qt_exec user) evs s)"
  by (induction evs arbitrary: s) (auto intro: qt_reach.exec simp del: qt_exec.simps)

section \<open>One call at a time\<close>

lemma others_run:
  "fold (qt_exec user) (map Qe_other evs) s =
     s\<lparr>qobj := fold (q_exec user) evs (qobj s), arrived := arrived s @ concat (map arrives evs)\<rparr>"
  by (induction evs arbitrary: s) simp_all

text \<open>The schedule of one call with \<open>evs\<close> before its wait returns and \<open>evs'\<close> after it.\<close>

definition query_schedule ::
  "nat \<Rightarrow> send_result \<Rightarrow> pystr \<Rightarrow> bool \<Rightarrow> 'u q_event list \<Rightarrow> 'u q_event list \<Rightarrow> 'u qt_event list" where
  "query_schedule n r data timeout evs evs' =
     [Qe_call data timeout, Qe_step n r False, Qe_step n r False] @ map Qe_other evs @
     [Qe_step n r True] @ map Qe_other evs' @ [Qe_step n r False]"


section \<open>What overlapping calls return\<close>

text \<open>A call that is past its first locked section and has not returned yet.\<close>

fun pending :: "qpc \<Rightarrow> bool" where
  "pending (Q_begin data timeout) = False"
| "pending (Q_returned x) = False"
| "pending p = True"

definition fresh :: "('u, 'w) qthreads \<Rightarrow> nat \<Rightarrow> pystr \<Rightarrow> bool" where
  "fresh s i t \<longleftrightarrow> t \<in> decode_replace ` set (drop (since s ! i) (arrived s))"

text \<open>What call \<open>i\<close> at point \<open>p\<close> has returned, or may return when the shared result is \<open>res\<close>.\<close>

definition fresh_at :: "('u, 'w) qthreads \<Rightarrow> nat \<Rightarrow> qpc \<Rightarrow> pystr option \<Rightarrow> bool" where
  "fresh_at s i p res \<longleftrightarrow> (\<forall>t. pending p \<and> res = Some t \<longrightarrow> fresh s i t) \<and>
     (\<forall>t. p = Q_returned (Inr (Some t)) \<longrightarrow> fresh s i t)"

definition fresh_inv :: "('u, 'w) qthreads \<Rightarrow> bool" where
  "fresh_inv s \<longleftrightarrow> length (since s) = length (qcalls s) \<and>
     (\<forall>i < length (qcalls s). since s ! i \<le> length (arrived s) \<and> fresh_at s i (qcalls s ! i) (query_result (qobj s)))"

lemma qpc_step_result:
  assumes "qpc_step r late p q = (p', q')"
  shows "query_result q' = query_result q \<and> (pending p' \<longrightarrow> pending p) \<or> query_result q' = None"
    and "p' = Q_returned (Inr (Some t)) \<Longrightarrow> p = p' \<or> pending p \<and> query_result q = Some t"
  using assms
  by (cases p; auto simp: query_begin_def query_end_def Let_def query_async_eq split: if_splits prod.splits sum.splits)+

lemma q_exec_result:
  assumes "keeps_query user"
  shows "query_result (q_exec user ev q) = query_result q \<or>
    (\<exists>d. arrives ev = [d] \<and> query_result (q_exec user ev q) = Some (decode_replace d))"
  using assms by (cases ev) (auto simp: q_internal_data_recv_def q_disconnect_def query_async_frame
      q_set_RecvFunc_def q_set_config_def keeps_query_def Let_def split: option.splits)

lemma fresh_inv_exec:
  assumes "keeps_query user" and "fresh_inv s"
  shows "fresh_inv (qt_exec user ev s)"
proof (cases ev)
  case (Qe_call data timeout)
  with assms(2) show ?thesis by (auto simp: fresh_inv_def fresh_at_def nth_append fresh_def)
next
  case (Qe_step i r late)
  show ?thesis
  proof (cases "i < length (qcalls s)")
    case True
    obtain p' q' where p: "qpc_step r late (qcalls s ! i) (qobj s) = (p', q')" by fastforce
    have at: "fresh_at s k (qcalls s ! k) (query_result (qobj s))" if "k < length (qcalls s)" for k
      using assms(2) that by (simp add: fresh_inv_def)
    have "fresh_at s k ((qcalls s)[i := p'] ! k) (query_result q')" if "k < length (qcalls s)" for k
      using at [OF that] qpc_step_result [OF p] that by (cases "k = i") (auto simp: fresh_at_def)
    with assms(2) True Qe_step p show ?thesis by (simp add: fresh_inv_def fresh_at_def fresh_def)
  qed (use assms(2) Qe_step in simp)
next
  case (Qe_other e)
  let ?s = "qt_exec user ev s"
  have up: "fresh s k t \<Longrightarrow> fresh ?s k t" and new: "k < length (qcalls s) \<Longrightarrow> arrives e = [d] \<Longrightarrow> fresh ?s k (decode_replace d)" for k t d
    using assms(2) by (auto simp: Qe_other fresh_def fresh_inv_def)
  have "fresh_at ?s k (qcalls s ! k) (query_result (qobj ?s))" if "k < length (qcalls s)" for k
    using assms(2) that q_exec_result [OF assms(1), of e "qobj s"] up new [OF that]
    by (auto simp: fresh_inv_def fresh_at_def Qe_other simp del: qt_exec.simps)
       (auto simp: Qe_other)
  with assms(2) show ?thesis by (auto simp: fresh_inv_def Qe_other)
qed

lemma fresh_inv_reach: "qt_reach user s \<Longrightarrow> keeps_query user \<Longrightarrow> fresh_inv s"
proof (induction rule: qt_reach.induct)
  case (start ok a i w)
  show ?case by (simp add: fresh_inv_def qt_start_def)
qed (simp add: fresh_inv_exec)

text \<open>
  Claim C16 (safety): however many calls of \<^verbatim>\<open>query\<close> overlap, a text that a call returns is the
  decoding of a message that arrived after that call was made: no call returns an answer
  from before it.
\<close>

theorem answers_are_fresh:
  assumes "qt_reach user s" and "keeps_query user" and "i < length (qcalls s)"
    and "qcalls s ! i = Q_returned (Inr (Some t))"
  shows "\<exists>m \<in> set (drop (since s ! i) (arrived s)). t = decode_replace m"
proof -
  have "fresh s i t" using fresh_inv_reach [OF assms(1,2)] assms(3,4) by (simp add: fresh_inv_def fresh_at_def)
  then show ?thesis by (auto simp: fresh_def)
qed

section \<open>Disconnecting\<close>

fun begins :: "qpc \<Rightarrow> bool" where
  "begins (Q_begin data timeout) = True"
| "begins p = False"

fun is_call_event :: "'u qt_event \<Rightarrow> bool" where
  "is_call_event (Qe_call data timeout) = True"
| "is_call_event ev = False"

text \<open>The event is set and no call is going to clear it.\<close>

definition released :: "('u, 'w) qthreads \<Rightarrow> bool" where
  "released s \<longleftrightarrow> query_event (qobj s) \<and> (\<forall>p \<in> set (qcalls s). \<not> begins p)"

lemma qpc_step_event:
  "qpc_step r late p q = (p', q') \<Longrightarrow> \<not> begins p \<Longrightarrow> query_event q' = query_event q \<and> \<not> begins p'"
  by (cases p) (auto simp: query_end_def Let_def query_async_eq split: if_splits prod.splits sum.splits)

lemma q_exec_event: "keeps_query user \<Longrightarrow> query_event q \<Longrightarrow> query_event (q_exec user ev q)"
  by (cases ev) (auto simp: q_internal_data_recv_def q_disconnect_def query_async_frame
      q_set_RecvFunc_def q_set_config_def keeps_query_def Let_def split: option.splits)

lemma released_exec:
  assumes "keeps_query user" and "\<not> is_call_event ev" and "released s"
  shows "released (qt_exec user ev s)"
proof (cases ev)
  case (Qe_step i r late)
  show ?thesis
  proof (cases "i < length (qcalls s)")
    case True
    obtain p' q' where p: "qpc_step r late (qcalls s ! i) (qobj s) = (p', q')" by fastforce
    with True assms(3) qpc_step_event [OF p] show ?thesis
      by (auto simp: Qe_step released_def dest: set_update_subset_insert [THEN subsetD])
  qed (use assms(3) Qe_step in simp)
qed (use assms in \<open>simp_all add: released_def q_exec_event\<close>)

lemma released_run:
  "keeps_query user \<Longrightarrow> \<forall>ev \<in> set evs. \<not> is_call_event ev \<Longrightarrow> released s \<Longrightarrow> released (fold (qt_exec user) evs s)"
  by (induction evs arbitrary: s) (simp_all add: released_exec del: qt_exec.simps)

lemma qt_exec_calls: "length (qcalls s) \<le> length (qcalls (qt_exec user ev s))"
  by (cases ev) (simp_all split: prod.splits)

lemma qt_run_calls: "length (qcalls s) \<le> length (qcalls (fold (qt_exec user) evs s))"
proof (induction evs arbitrary: s)
  case (Cons ev evs)
  from Cons [of "qt_exec user ev s"] qt_exec_calls [of s user ev] show ?case by (simp del: qt_exec.simps)
qed simp

lemma released_steps:
  assumes "released s" and "i < length (qcalls s)"
  shows "\<exists>x. qcalls (fold (qt_exec user) (replicate 3 (Qe_step i r late)) s) ! i = Q_returned x"
proof -
  have "\<not> begins (qcalls s ! i)" and ev: "query_event (qobj s)" using assms by (simp_all add: released_def)
  then show ?thesis
    using assms(2) by (cases "qcalls s ! i")
      (auto simp: numeral_3_eq_3 query_end_def Let_def query_async_eq split: prod.splits sum.splits)
qed

text \<open>
  Claim C28 (liveness): \<^verbatim>\<open>disconnect\<close> wakes every call.  If all calls made so far are past their
  first locked section and no new one is made, then after \<^verbatim>\<open>disconnect\<close> and whatever else
  the program does, each of them returns within three steps of its own thread, also one
  that was called without a timeout.
\<close>

theorem disconnect_wakes_queries:
  assumes "keeps_query user" and "\<forall>p \<in> set (qcalls s). \<not> begins p" and "\<forall>ev \<in> set evs. \<not> is_call_event ev"
    and "i < length (qcalls s)"
  shows "\<exists>x. qcalls (fold (qt_exec user) (Qe_other Ev_disconnect # evs @ replicate 3 (Qe_step i r late)) s) ! i = Q_returned x"
proof -
  let ?s = "qt_exec user (Qe_other Ev_disconnect) s"
  have "released ?s" using assms(2) by (simp add: released_def q_disconnect_def Let_def)
  from released_steps [OF released_run [OF assms(1,3) this], of i] assms(4) qt_run_calls [of ?s user evs]
  show ?thesis by simp
qed

section \<open>Interference\<close>

lemma idle_messages:
  assumes "keeps_query user" and "\<not> is_querying q"
  shows "\<not> is_querying (fold (q_exec user) (map Ev_message ms) q) \<and>
         query_event (fold (q_exec user) (map Ev_message ms) q) = query_event q"
  using assms(2)
proof (induction ms arbitrary: q)
  case (Cons m ms)
  from assms(1) Cons.prems have "\<not> is_querying (q_exec user (Ev_message m) q) \<and> query_event (q_exec user (Ev_message m) q) = query_event q"
    by (auto simp: q_internal_data_recv_def keeps_query_def Let_def split: option.splits)
  with Cons.IH show ?case by simp
qed simp

definition two_callers :: "(unit, pystr list) qthreads" where
  "two_callers = qt_start (new_open_socket_querier True (Some (str_lit ''app'')) (Some (str_lit ''sock'')) [])"

abbreviation collect_app :: "(unit, pystr list) q_user" where
  "collect_app \<equiv> q_app_user (\<lambda>t w. w @ [t])"

text \<open>The second call begins when the first has been woken and not yet read its result.\<close>

definition overtaking_run :: "unit qt_event list" where
  "overtaking_run =
     [Qe_other (Ev_set_RecvFunc (Some ())),
      Qe_call (str_lit ''a'') False, Qe_step 0 Send_Ok False, Qe_step 0 Send_Ok False,
      Qe_other (Ev_message (b_lit ''A'')), Qe_step 0 Send_Ok False,
      Qe_call (str_lit ''b'') False, Qe_step 1 Send_Ok False,
      Qe_step 0 Send_Ok False, Qe_step 1 Send_Ok False,
      Qe_other (Ev_message (b_lit ''B'')), Qe_step 1 Send_Ok False]"

text \<open>Both calls wait when the first reply arrives.\<close>

definition sharing_run :: "unit qt_event list" where
  "sharing_run =
     [Qe_other (Ev_set_RecvFunc (Some ())),
      Qe_call (str_lit ''a'') False, Qe_step 0 Send_Ok False, Qe_step 0 Send_Ok False,
      Qe_call (str_lit ''b'') False, Qe_step 1 Send_Ok False, Qe_step 1 Send_Ok False,
      Qe_other (Ev_message (b_lit ''A'')),
      Qe_step 0 Send_Ok False, Qe_step 1 Send_Ok False, Qe_step 0 Send_Ok False, Qe_step 1 Send_Ok False,
      Qe_other (Ev_message (b_lit ''B''))]"

lemma fold_qt_exec: "qt_exec user ev s = s1 \<Longrightarrow> fold (qt_exec user) (ev # evs) s = fold (qt_exec user) evs s1"
  by simp

lemmas caller_simps = two_callers_def qt_start_def new_open_socket_querier_def q_init_def connect_to_server_def
  sock_connect_def new_client_def new_socket_def client_simps q_set_RecvFunc_def query_begin_def query_end_def
  q_internal_data_recv_def q_app_user_def q_encodable_def query_msg_def query_async_eq send_data_def write_eq
  fstr_def topic_def dash_def str_lit_def is_surrogate_def SEP_simps utf8_char_def

lemma two_callers_reach: "qt_reach collect_app (fold (qt_exec collect_app) evs two_callers)"
  unfolding two_callers_def by (rule qt_reach_run [OF qt_reach.start])

lemma run_overtaking:
  "qcalls (fold (qt_exec collect_app) overtaking_run two_callers) = [Q_returned (Inr None), Q_wait False]"
  "connected (KLquerier (qobj (fold (qt_exec collect_app) overtaking_run two_callers)))"
  "arrived (fold (qt_exec collect_app) overtaking_run two_callers) = [b_lit ''A'', b_lit ''B'']"
  "q_app (qobj (fold (qt_exec collect_app) overtaking_run two_callers)) = [decode_replace (b_lit ''B'')]"
  "\<not> is_querying (qobj (fold (qt_exec collect_app) overtaking_run two_callers))"
  "\<not> query_event (qobj (fold (qt_exec collect_app) overtaking_run two_callers))"
  by (simp_all add: overtaking_run_def caller_simps fold_qt_exec del: fold_simps(2) fold.simps(2))

lemma run_sharing:
  "qcalls (fold (qt_exec collect_app) sharing_run two_callers) =
     [Q_returned (Inr (Some (decode_replace (b_lit ''A'')))), Q_returned (Inr (Some (decode_replace (b_lit ''A''))))]"
  "q_app (qobj (fold (qt_exec collect_app) sharing_run two_callers)) = [decode_replace (b_lit ''B'')]"
  "arrived (fold (qt_exec collect_app) sharing_run two_callers) = [b_lit ''A'', b_lit ''B'']"
  "since (fold (qt_exec collect_app) sharing_run two_callers) = [0, 0]"
  by (simp_all add: sharing_run_def caller_simps fold_qt_exec del: fold_simps(2) fold.simps(2))

text \<open>
  Claim C29 (safety): \<^verbatim>\<open>query\<close> is not safe for several threads, in spite of its lock.  Two threads
  each send a request and both replies arrive, with the connection up and nobody calling
  \<^verbatim>\<open>disconnect\<close>.  In the first schedule one call returns None, the reply to the other goes
  to the callback, and that call waits for ever: no further message wakes it.  In the
  second schedule both calls return the first reply.
\<close>

theorem overlapping_queries_interfere:
  "qt_reach collect_app (fold (qt_exec collect_app) overtaking_run two_callers) \<and>
   arrived (fold (qt_exec collect_app) overtaking_run two_callers) = [b_lit ''A'', b_lit ''B''] \<and>
   connected (KLquerier (qobj (fold (qt_exec collect_app) overtaking_run two_callers))) \<and>
   qcalls (fold (qt_exec collect_app) overtaking_run two_callers) = [Q_returned (Inr None), Q_wait False] \<and>
   q_app (qobj (fold (qt_exec collect_app) overtaking_run two_callers)) = [decode_replace (b_lit ''B'')] \<and>
   (\<forall>ms r late. qcalls (fold (qt_exec collect_app)
        (overtaking_run @ map Qe_other (map Ev_message ms) @ [Qe_step 1 r late]) two_callers) ! 1 = Q_wait False) \<and>
   qt_reach collect_app (fold (qt_exec collect_app) sharing_run two_callers) \<and>
   qcalls (fold (qt_exec collect_app) sharing_run two_callers) =
     [Q_returned (Inr (Some (decode_replace (b_lit ''A'')))), Q_returned (Inr (Some (decode_replace (b_lit ''A''))))]"
proof -
  let ?s = "fold (qt_exec collect_app) overtaking_run two_callers"
  have "qcalls (fold (qt_exec collect_app) (map Qe_other (map Ev_message ms) @ [Qe_step 1 r late]) ?s) ! 1 = Q_wait False"
    for ms r late
    using idle_messages [OF q_app_user_keeps run_overtaking(5), of _ ms] run_overtaking(1,6)
    by (simp add: others_run del: map_map)
  then show ?thesis using two_callers_reach run_overtaking(1-4) run_sharing(1) by simp
qed

section \<open>Instances\<close>


theorem answers_are_fresh_witness:
  "\<exists>m \<in> set (drop 0 [b_lit ''A'', b_lit ''B'']). decode_replace (b_lit ''A'') = decode_replace m"
proof -
  let ?s = "fold (qt_exec collect_app) sharing_run two_callers"
  have "1 < length (qcalls ?s)" "qcalls ?s ! 1 = Q_returned (Inr (Some (decode_replace (b_lit ''A''))))"
    "since ?s ! 1 = 0" "arrived ?s = [b_lit ''A'', b_lit ''B'']"
    by (simp_all add: run_sharing)
  with answers_are_fresh [OF two_callers_reach q_app_user_keeps this(1,2)] show ?thesis by simp
qed

theorem disconnect_wakes_queries_witness:
  "\<exists>x. qcalls (fold (qt_exec collect_app)
      (Qe_other Ev_disconnect # [Qe_other (Ev_message (b_lit ''C''))] @ replicate 3 (Qe_step 1 Send_Ok False))
      (fold (qt_exec collect_app) overtaking_run two_callers)) ! 1 = Q_returned x"
  by (rule disconnect_wakes_queries [OF q_app_user_keeps]) (simp_all add: run_overtaking)

end
