(* ===== verification/KL_RpcSystem.thy ===== *)
theory KL_RpcSystem
  imports KL_QueryThreads KL_ResponserLife
begin

text \<open>
  A querier and a responser at work together.  One thread of the querier's program makes a
  series of synchronous queries; the caller, the receive threads of both roles, the worker
  of the responser and the broker run in any order, and the bytes on the two incoming
  connections arrive in pieces of any size.

  The broker is not part of the repository.  It takes the next complete message off a
  connection and passes it on: \<open>to_resp n\<close> is what it makes of the \<open>n\<close>-th request and
  \<open>to_querier\<close> what it makes of an answer.
\<close>

section \<open>The system\<close>

text \<open>
  \<open>rpc_read_q\<close> and \<open>rpc_read_p\<close> count the bytes that the broker has taken off the connection
  of the querier and of the responser; \<open>rpc_to_q\<close> and \<open>rpc_to_p\<close> are the bytes on the way to
  them.  The caller is between two calls or at a point of \<^verbatim>\<open>query\<close>.
\<close>

record ('u, 'w, 'v) rpc =
  rpc_q :: "('u, 'v) open_socket_querier"
  rpc_call :: "qpc option"
  rpc_todo :: "pystr list"
  rpc_done :: "pystr option res list"
  rpc_p :: "('u, 'w) open_socket_responser"
  rpc_read_q :: nat
  rpc_read_p :: nat
  rpc_to_p :: bytes
  rpc_to_q :: bytes
  rpc_count :: nat

datatype rpc_event = Rpc_caller | Rpc_request | Rpc_to_p nat | Rpc_work | Rpc_reply | Rpc_to_q nat

text \<open>Whose step an event is.\<close>

fun actor :: "rpc_event \<Rightarrow> nat" where
  "actor Rpc_caller = 0"
| "actor Rpc_request = 1"
| "actor (Rpc_to_p n) = 2"
| "actor Rpc_work = 3"
| "actor Rpc_reply = 4"
| "actor (Rpc_to_q n) = 5"

text \<open>The bytes the broker has not taken yet.\<close>

definition unread :: "nat \<Rightarrow> tcp_client \<Rightarrow> bytes" where
  "unread n c = drop n (sk_sent (tcp_socket c))"

text \<open>The thread of the querier's program; \<open>r\<close> is the outcome of a send.\<close>

definition caller_step :: "send_result \<Rightarrow> ('u, 'w, 'v) rpc \<Rightarrow> ('u, 'w, 'v) rpc" where
  "caller_step r s =
     (case rpc_call s of
        None \<Rightarrow> (case rpc_todo s of [] \<Rightarrow> s | d # ds \<Rightarrow> s\<lparr>rpc_call := Some (Q_begin d False), rpc_todo := ds\<rparr>)
      | Some (Q_returned x) \<Rightarrow> s\<lparr>rpc_call := None, rpc_done := rpc_done s @ [x]\<rparr>
      | Some p \<Rightarrow> (case qpc_step r False p (rpc_q s) of (p', q') \<Rightarrow> s\<lparr>rpc_call := Some p', rpc_q := q'\<rparr>))"

fun rpc_exec ::
  "(pystr \<Rightarrow> 'w \<Rightarrow> pystr \<times> 'w) \<Rightarrow> (pystr \<Rightarrow> 'v \<Rightarrow> 'v) \<Rightarrow> (nat \<Rightarrow> bytes \<Rightarrow> bytes) \<Rightarrow> (bytes \<Rightarrow> bytes) \<Rightarrow>
   rpc_event \<Rightarrow> ('u, 'w, 'v) rpc \<Rightarrow> ('u, 'w, 'v) rpc" where
  "rpc_exec g f to_resp to_querier Rpc_caller s = caller_step Send_Ok s"
| "rpc_exec g f to_resp to_querier Rpc_request s =
     (case next_frame 16777216 (unread (rpc_read_q s) (KLquerier (rpc_q s))) of
        Frame m rest \<Rightarrow> s\<lparr>rpc_read_q := rpc_read_q s + length (frame m),
                          rpc_to_p := rpc_to_p s @ frame (to_resp (rpc_count s) m), rpc_count := Suc (rpc_count s)\<rparr>
      | _ \<Rightarrow> s)"
| "rpc_exec g f to_resp to_querier (Rpc_to_p n) s =
     (if rpc_to_p s = [] then s
      else (case resp_receive [Recv_Data (take (Suc n) (rpc_to_p s))] (rpc_p s) of
              None \<Rightarrow> s
            | Some (_, p) \<Rightarrow> s\<lparr>rpc_p := p, rpc_to_p := drop (Suc n) (rpc_to_p s)\<rparr>))"
| "rpc_exec g f to_resp to_querier Rpc_work s =
     s\<lparr>rpc_p := snd (process_queue_step (resp_app_user g) Send_Ok (rpc_p s))\<rparr>"
| "rpc_exec g f to_resp to_querier Rpc_reply s =
     (case next_frame 16777216 (unread (rpc_read_p s) (KLresponser (rpc_p s))) of
        Frame m rest \<Rightarrow> s\<lparr>rpc_read_p := rpc_read_p s + length (frame m),
                          rpc_to_q := rpc_to_q s @ frame (to_querier m)\<rparr>
      | _ \<Rightarrow> s)"
| "rpc_exec g f to_resp to_querier (Rpc_to_q n) s =
     (if rpc_to_q s = [] then s
      else (case q_receive (q_app_user f) [Recv_Data (take (Suc n) (rpc_to_q s))] (rpc_q s) of
              None \<Rightarrow> s
            | Some (_, q) \<Rightarrow> s\<lparr>rpc_q := q, rpc_to_q := drop (Suc n) (rpc_to_q s)\<rparr>))"

text \<open>Both roles are connected and have said who they are; nothing is under way.\<close>

definition rpc_start ::
  "('u, 'v) open_socket_querier \<Rightarrow> ('u, 'w) open_socket_responser \<Rightarrow> pystr list \<Rightarrow> ('u, 'w, 'v) rpc" where
  "rpc_start q p ds =
     \<lparr>rpc_q = q, rpc_call = None, rpc_todo = ds, rpc_done = [], rpc_p = p,
      rpc_read_q = length (sk_sent (tcp_socket (KLquerier q))),
      rpc_read_p = length (sk_sent (tcp_socket (KLresponser p))),
      rpc_to_p = [], rpc_to_q = [], rpc_count = 0\<rparr>"

section \<open>Bytes that arrive in pieces\<close>

text \<open>The start of a frame is no frame, and the rest of it completes exactly this one.\<close>

lemma piece_incomplete:
  assumes "valid_msg 16777216 m" and "b @ y = frame m" and "y \<noteq> []"
  shows "next_frame 16777216 b = Incomplete"
proof (cases "next_frame 16777216 b")
  case (Frame m' r)
  from next_frame_append(1) [OF this, of y] next_frame_frame [of 16777216 m "[]"] assms show ?thesis by simp
next
  case Invalid
  from next_frame_append(2) [OF this, of y] next_frame_frame [of 16777216 m "[]"] assms show ?thesis by simp
qed simp

lemma piece_parse:
  assumes "valid_msg 16777216 m" and "b @ x = frame m" and "x \<noteq> []"
  shows "parse_stream 16777216 (b @ take (Suc n) x) =
    (if drop (Suc n) x = [] then ([m], [], Need_More) else ([], b @ take (Suc n) x, Need_More))"
proof (cases "drop (Suc n) x = []")
  case True
  then have "b @ take (Suc n) x = frames [m]" using assms(2) by simp
  with frames_chunks_parse [of 16777216 "[m]"] assms(1) True show ?thesis by simp
next
  case False
  have "(b @ take (Suc n) x) @ drop (Suc n) x = frame m" using assms(2) by simp
  from parse_stream_unfold(1) [OF piece_incomplete [OF assms(1) this False]] False show ?thesis by simp
qed

lemma serving_takes:
  assumes "serving p" and "c \<noteq> []" and "parse_stream 16777216 (buffer (KLresponser p) @ c) = (ms, left, Need_More)"
    and "HEARTBEAT_RESPONSE \<notin> set ms"
  shows "\<exists>p'. resp_receive [Recv_Data c] p = Some (Continue, p') \<and> serving p' \<and>
     resp_data_queue p' = resp_data_queue p @ List.map_filter request_item ms \<and> resp_app p' = resp_app p \<and>
     KLresponser p' = (KLresponser p)\<lparr>buffer := left\<rparr>"
proof -
  have cb: "received_data_callback (KLresponser p) = Some OpenSocketResponser_internal_data_recv"
    and mx: "MAX_MSG_SIZE (KLresponser p) = 16777216" using assms(1) by (simp_all add: serving_def)
  have hb: "filter (\<lambda>m. m \<noteq> HEARTBEAT_RESPONSE) ms = ms" using assms(4) by (induction ms) auto
  have ne: "[] \<notin> set [c]" and cc: "parse_stream (MAX_MSG_SIZE (KLresponser p)) (buffer (KLresponser p) @ concat [c]) = (ms, left, Need_More)"
    using assms(2,3) mx by simp_all
  have "next_frame 16777216 left = Incomplete" using parse_stream_sound [OF assms(3)] by simp
  with responser_app.receive_chunks [OF cb _ _ _ _ ne cc] assms(1) show ?thesis
    by (auto simp: resp_receive_def serving_def online_def hb fold_enqueue connected_def)
qed

text \<open>All that a message changes of a querier.\<close>

fun q_full_act :: "(pystr \<Rightarrow> 'v \<Rightarrow> 'v) \<Rightarrow> bytes \<Rightarrow>
   bool \<times> bool \<times> pystr option \<times> bool \<times> 'u option \<times> 'v \<times> 'i \<Rightarrow> bool \<times> bool \<times> pystr option \<times> bool \<times> 'u option \<times> 'v \<times> 'i" where
  "q_full_act f d (iq, late, res, ev, cb, w, ids) =
     (if iq \<and> \<not> late then (iq, late, Some (decode_replace d), True, cb, w, ids)
      else (iq, late, res, ev, cb, (case cb of None \<Rightarrow> w | Some _ \<Rightarrow> f (decode_replace d) w), ids))"

interpretation querier_full: quiet_owner KLquerier KLquerier_update "q_call (q_app_user f)"
    OpenSocketQuerier_internal_data_recv
    "\<lambda>s. (is_querying s, timeout_occurred s, query_result s, query_event s, q_callback s, q_app s,
          q_appID s, q_openSocketID s)"
    "q_full_act f"
  for f :: "pystr \<Rightarrow> 'v \<Rightarrow> 'v"
  by unfold_locales
    (auto simp: q_call_def q_internal_data_recv_def q_app_user_def Let_def split: option.splits)

definition listening :: "('u, 'v) open_socket_querier \<Rightarrow> bool" where
  "listening q \<longleftrightarrow> online (KLquerier q) \<and> MAX_MSG_SIZE (KLquerier q) = 16777216 \<and>
     received_data_callback (KLquerier q) = Some OpenSocketQuerier_internal_data_recv"

text \<open>A query that waits, without or with a reply.\<close>

definition box :: "('u, 'v) open_socket_querier \<Rightarrow> pystr option \<Rightarrow> bool" where
  "box q res \<longleftrightarrow> is_querying q \<and> \<not> timeout_occurred q \<and> query_result q = res \<and> query_event q = (res \<noteq> None)"

lemma waiting_takes:
  assumes "listening q" and "box q None" and "c \<noteq> []"
    and "parse_stream 16777216 (buffer (KLquerier q) @ c) = (ms, left, Need_More)"
    and "ms = [] \<or> ms = [m]" and "HEARTBEAT_RESPONSE \<notin> set ms"
  shows "\<exists>q'. q_receive (q_app_user f) [Recv_Data c] q = Some (Continue, q') \<and> listening q' \<and>
     box q' (if ms = [] then None else Some (decode_replace m)) \<and>
     q_appID q' = q_appID q \<and> q_openSocketID q' = q_openSocketID q \<and> KLquerier q' = (KLquerier q)\<lparr>buffer := left\<rparr>"
proof -
  have cb: "received_data_callback (KLquerier q) = Some OpenSocketQuerier_internal_data_recv"
    and mx: "MAX_MSG_SIZE (KLquerier q) = 16777216" using assms(1) by (simp_all add: listening_def)
  have hb: "filter (\<lambda>m. m \<noteq> HEARTBEAT_RESPONSE) ms = ms" using assms(6) by (induction ms) auto
  have ne: "[] \<notin> set [c]" and cc: "parse_stream (MAX_MSG_SIZE (KLquerier q)) (buffer (KLquerier q) @ concat [c]) = (ms, left, Need_More)"
    using assms(3,4) mx by simp_all
  have "next_frame 16777216 left = Incomplete" using parse_stream_sound [OF assms(4)] by simp
  with querier_full.receive_chunks [OF cb _ _ _ _ ne cc, of f] assms(1,2,5) show ?thesis
    by (auto simp: q_receive_def listening_def online_def hb connected_def box_def)
qed

text \<open>A piece of the frame of a request reaches the responser.\<close>

lemma request_piece:
  assumes "serving p" and "good_request (d, key)" and "buffer (KLresponser p) @ x = frame (keyed_msg key d)" and "x \<noteq> []"
  obtains p' where "resp_receive [Recv_Data (take (Suc n) x)] p = Some (Continue, p')" and "serving p'"
    and "resp_data_queue p' = resp_data_queue p @ (if drop (Suc n) x = [] then [(d, key)] else [])"
    and "resp_app p' = resp_app p"
    and "KLresponser p' = (KLresponser p)\<lparr>buffer := (if drop (Suc n) x = [] then [] else buffer (KLresponser p) @ take (Suc n) x)\<rparr>"
proof -
  let ?m = "keyed_msg key d" and ?rest = "drop (Suc n) x" and ?c = "take (Suc n) x"
  have v: "valid_msg 16777216 ?m" using assms(2) by (simp add: good_request_def valid_msg_def)
  have item: "request_item ?m = Some (d, key)"
    using assms(2) by (intro request_item_keyed) (simp_all add: good_request_def)
  have c: "?c \<noteq> []" using assms(4) by simp
  note pp = piece_parse [OF v assms(3,4), of n]
  show thesis
  proof (cases "?rest = []")
    case True
    have "HEARTBEAT_RESPONSE \<notin> set [?m]" using not_heartbeat_keyed [of key d] by auto
    from serving_takes [OF assms(1) c pp [unfolded if_P [OF True]] this] that [unfolded if_P [OF True]] item show ?thesis
      by (auto simp: List.map_filter_simps)
  next
    case False
    from serving_takes [OF assms(1) c pp [unfolded if_not_P [OF False]]] that [unfolded if_not_P [OF False]] show ?thesis
      by (auto simp: List.map_filter_simps)
  qed
qed

section \<open>What the system promises\<close>

text \<open>The answers of an application to a series of requests, and its state after them.\<close>

fun replies :: "(pystr \<Rightarrow> 'w \<Rightarrow> pystr \<times> 'w) \<Rightarrow> pystr list \<Rightarrow> 'w \<Rightarrow> pystr list" where
  "replies g [] w = []"
| "replies g (d # ds) w = fst (g d w) # replies g ds (snd (g d w))"

fun state_after :: "(pystr \<Rightarrow> 'w \<Rightarrow> pystr \<times> 'w) \<Rightarrow> pystr list \<Rightarrow> 'w \<Rightarrow> 'w" where
  "state_after g [] w = w"
| "state_after g (d # ds) w = state_after g ds (snd (g d w))"

lemma length_replies [simp]: "length (replies g ds w) = length ds"
  by (induction ds arbitrary: w) auto

lemma replies_nth: "k < length ds \<Longrightarrow> replies g ds w ! k = fst (g (ds ! k) (state_after g (take k ds) w))"
  by (induction ds arbitrary: k w) (auto simp: less_Suc_eq_0_disj)

lemma state_after_Suc:
  "k < length ds \<Longrightarrow> state_after g (take (Suc k) ds) w = snd (g (ds ! k) (state_after g (take k ds) w))"
  by (induction ds arbitrary: k w) (auto simp: less_Suc_eq_0_disj)

text \<open>
  What is used of the application and the broker: requests and answers that fit in a
  message, keys in which no early separator occurs, and that the broker passes on the texts.
\<close>

definition good_answer :: "pystr \<Rightarrow> bool" where
  "good_answer a \<longleftrightarrow> list_all is_scalar a \<and> a \<noteq> [] \<and> length (utf8_bytes a) \<le> 16777216 \<and>
     a \<noteq> str_lit ''heartbeat_response''"

text \<open>A piece of the frame of an answer reaches a querier that waits for it.\<close>

lemma answer_piece:
  assumes "listening q" and "box q None" and "good_answer a" and "buffer (KLquerier q) @ x = frame (utf8_bytes a)" and "x \<noteq> []"
  obtains q' where "q_receive (q_app_user f) [Recv_Data (take (Suc n) x)] q = Some (Continue, q')" and "listening q'"
    and "box q' (if drop (Suc n) x = [] then Some a else None)"
    and "q_appID q' = q_appID q" and "q_openSocketID q' = q_openSocketID q"
    and "KLquerier q' = (KLquerier q)\<lparr>buffer := (if drop (Suc n) x = [] then [] else buffer (KLquerier q) @ take (Suc n) x)\<rparr>"
proof -
  let ?m = "utf8_bytes a" and ?rest = "drop (Suc n) x" and ?c = "take (Suc n) x"
  have v: "valid_msg 16777216 ?m" and dec: "decode_replace ?m = a" and hb: "?m \<noteq> HEARTBEAT_RESPONSE"
    using assms(3) by (auto simp: good_answer_def decode_utf8_bytes utf8_heartbeat_response valid_msg_def)
  have c: "?c \<noteq> []" using assms(5) by simp
  note pp = piece_parse [OF v assms(4,5), of n]
  show thesis
  proof (cases "?rest = []")
    case True
    have "HEARTBEAT_RESPONSE \<notin> set [?m]" using hb by auto
    from waiting_takes [OF assms(1,2) c pp [unfolded if_P [OF True]] _ this, of ?m f] that [unfolded if_P [OF True]] dec show ?thesis
      by auto
  next
    case False
    from waiting_takes [OF assms(1,2) c pp [unfolded if_not_P [OF False]], of ?m f] that [unfolded if_not_P [OF False]] show ?thesis
      by auto
  qed
qed

definition broker_ok ::
  "(pystr \<Rightarrow> 'w \<Rightarrow> pystr \<times> 'w) \<Rightarrow> (nat \<Rightarrow> bytes \<Rightarrow> bytes) \<Rightarrow> (bytes \<Rightarrow> bytes) \<Rightarrow> (nat \<Rightarrow> pystr) \<Rightarrow>
   ('u, 'v) open_socket_querier \<Rightarrow> 'w \<Rightarrow> pystr list \<Rightarrow> bool" where
  "broker_ok g to_resp to_querier key q w ds \<longleftrightarrow>
     (\<forall>d \<in> set ds. q_sendable q d \<and> (\<forall>n. good_request (d, key n) \<and> to_resp n (query_msg q d) = keyed_msg (key n) d)) \<and>
     (\<forall>a \<in> set (replies g ds w). good_answer a \<and>
        (\<forall>n. length (keyed_msg (key n) a) \<le> 16777216 \<and> to_querier (keyed_msg (key n) a) = utf8_bytes a))"

definition rpc_ready :: "('u, 'v) open_socket_querier \<Rightarrow> ('u, 'w) open_socket_responser \<Rightarrow> bool" where
  "rpc_ready q p \<longleftrightarrow> listening q \<and> buffer (KLquerier q) = [] \<and> serving p \<and> buffer (KLresponser p) = [] \<and>
     resp_data_queue p = []"

section \<open>The stages of a request\<close>

text \<open>
  A request is being made, on the connection of the querier, on its way to the responser,
  in its queue; its answer on the connection of the responser, on its way back, stored in
  the querier, returned.
\<close>

datatype stage = Calling | Asked | Sent | Queued | Answered | Returning | Arrived | Returned

fun at_call :: "stage \<Rightarrow> pystr \<Rightarrow> pystr \<Rightarrow> qpc option \<Rightarrow> ('u, 'v) open_socket_querier \<Rightarrow> bool" where
  "at_call Calling d a c q = (c = Some (Q_begin d False) \<or> c = Some (Q_send d False) \<and> box q None)"
| "at_call Arrived d a c q = ((c = Some (Q_wait False) \<or> c = Some (Q_end True)) \<and> box q (Some a))"
| "at_call Returned d a c q = (c = Some (Q_returned (Inr (Some a))))"
| "at_call _ d a c q = (c = Some (Q_wait False) \<and> box q None)"

text \<open>
  \<open>on_way st s\<close> for a request \<open>d\<close> with key \<open>key\<close> and answer \<open>a\<close>: where they are, and that
  there is nothing else anywhere.
\<close>

definition on_way :: "bytes \<Rightarrow> pystr \<Rightarrow> pystr \<Rightarrow> pystr \<Rightarrow> stage \<Rightarrow> ('u, 'w, 'v) rpc \<Rightarrow> bool" where
  "on_way m d key a st s \<longleftrightarrow>
     unread (rpc_read_q s) (KLquerier (rpc_q s)) = (if st = Asked then frame m else []) \<and>
     buffer (KLresponser (rpc_p s)) @ rpc_to_p s = (if st = Sent then frame (keyed_msg key d) else []) \<and>
     (st = Sent \<longrightarrow> rpc_to_p s \<noteq> []) \<and>
     resp_data_queue (rpc_p s) = (if st = Queued then [(d, key)] else []) \<and>
     unread (rpc_read_p s) (KLresponser (rpc_p s)) = (if st = Answered then frame (keyed_msg key a) else []) \<and>
     buffer (KLquerier (rpc_q s)) @ rpc_to_q s = (if st = Returning then frame (utf8_bytes a) else []) \<and>
     (st = Returning \<longrightarrow> rpc_to_q s \<noteq> [])"

definition healthy :: "('u, 'v) open_socket_querier \<Rightarrow> ('u, 'w, 'v) rpc \<Rightarrow> bool" where
  "healthy q0 s \<longleftrightarrow> listening (rpc_q s) \<and> serving (rpc_p s) \<and>
     q_appID (rpc_q s) = q_appID q0 \<and> q_openSocketID (rpc_q s) = q_openSocketID q0 \<and>
     rpc_read_q s \<le> length (sk_sent (tcp_socket (KLquerier (rpc_q s)))) \<and>
     rpc_read_p s \<le> length (sk_sent (tcp_socket (KLresponser (rpc_p s))))"

text \<open>Where the thread of the caller is: before request \<open>k\<close>, or in it.\<close>

definition call_at ::
  "(pystr \<Rightarrow> 'w \<Rightarrow> pystr \<times> 'w) \<Rightarrow> 'w \<Rightarrow> pystr list \<Rightarrow> nat \<Rightarrow> stage \<Rightarrow> ('u, 'w, 'v) rpc \<Rightarrow> bool" where
  "call_at g w ds k st s \<longleftrightarrow>
     k \<le> length ds \<and> st = Calling \<and> rpc_call s = None \<and> rpc_todo s = drop k ds \<or>
     k < length ds \<and> rpc_todo s = drop (Suc k) ds \<and> at_call st (ds ! k) (replies g ds w ! k) (rpc_call s) (rpc_q s)"

lemma call_at_cases:
  assumes "call_at g w ds k st s"
  obtains (between) "rpc_call s = None" "st = Calling" "rpc_todo s = drop k ds" "k \<le> length ds"
    | (begins) "rpc_call s = Some (Q_begin (ds ! k) False)" "st = Calling" "k < length ds"
    | (sends) "rpc_call s = Some (Q_send (ds ! k) False)" "st = Calling" "k < length ds" "box (rpc_q s) None"
    | (waits) "rpc_call s = Some (Q_wait False)" "st \<in> {Asked, Sent, Queued, Answered, Returning}" "k < length ds" "box (rpc_q s) None"
    | (woken) "rpc_call s = Some (Q_wait False)" "st = Arrived" "k < length ds" "box (rpc_q s) (Some (replies g ds w ! k))"
    | (ends) "rpc_call s = Some (Q_end True)" "st = Arrived" "k < length ds" "box (rpc_q s) (Some (replies g ds w ! k))"
    | (returned) "rpc_call s = Some (Q_returned (Inr (Some (replies g ds w ! k))))" "st = Returned" "k < length ds"
  using assms by (cases st) (auto simp: call_at_def)

definition rpc_at ::
  "(pystr \<Rightarrow> 'w \<Rightarrow> pystr \<times> 'w) \<Rightarrow> (nat \<Rightarrow> pystr) \<Rightarrow> ('u, 'v) open_socket_querier \<Rightarrow> 'w \<Rightarrow> pystr list \<Rightarrow>
   nat \<Rightarrow> stage \<Rightarrow> ('u, 'w, 'v) rpc \<Rightarrow> bool" where
  "rpc_at g key q0 w ds k st s \<longleftrightarrow>
     healthy q0 s \<and> rpc_done s = map (\<lambda>a. Inr (Some a)) (take k (replies g ds w)) \<and>
     on_way (query_msg q0 (ds ! k)) (ds ! k) (key (rpc_count s - 1)) (replies g ds w ! k) st s \<and>
     resp_app (rpc_p s) = state_after g (take (if st \<in> {Calling, Asked, Sent, Queued} then k else Suc k) ds) w \<and>
     call_at g w ds k st s"

text \<open>What is left to do: requests, stages of the request under way, bytes on the way.\<close>

definition rpc_rank :: "nat \<Rightarrow> ('u, 'w, 'v) rpc \<Rightarrow> nat \<times> nat \<times> nat" where
  "rpc_rank n s = (n - length (rpc_done s),
     (case rpc_call s of
        None \<Rightarrow> 12
      | Some (Q_begin d t) \<Rightarrow> 11
      | Some (Q_send d t) \<Rightarrow> 10
      | Some (Q_wait t) \<Rightarrow>
          (if unread (rpc_read_q s) (KLquerier (rpc_q s)) \<noteq> [] then 9
           else if rpc_to_p s \<noteq> [] then 8
           else if resp_data_queue (rpc_p s) \<noteq> [] then 7
           else if unread (rpc_read_p s) (KLresponser (rpc_p s)) \<noteq> [] then 6
           else if rpc_to_q s \<noteq> [] then 5 else 4)
      | Some (Q_end b) \<Rightarrow> 3
      | Some (Q_returned x) \<Rightarrow> 2),
     length (rpc_to_p s) + length (rpc_to_q s))"

abbreviation rank_less :: "((nat \<times> nat \<times> nat) \<times> (nat \<times> nat \<times> nat)) set" where
  "rank_less \<equiv> less_than <*lex*> less_than <*lex*> less_than"

section \<open>Steps\<close>

lemma unread_simps:
  "n \<le> length (sk_sent (tcp_socket c)) \<Longrightarrow> unread n (add_sent b c) = unread n c @ b"
  "unread (n + m) c = drop m (unread n c)"
  "unread n (c\<lparr>buffer := b\<rparr>) = unread n c" "buffer (add_sent b c) = buffer c"
  by (simp_all add: unread_def add_sent_def add.commute)

locale rpc_run =
  fixes g :: "pystr \<Rightarrow> 'w \<Rightarrow> pystr \<times> 'w" and f :: "pystr \<Rightarrow> 'v \<Rightarrow> 'v"
    and to_resp :: "nat \<Rightarrow> bytes \<Rightarrow> bytes" and to_querier :: "bytes \<Rightarrow> bytes" and key :: "nat \<Rightarrow> pystr"
    and q0 :: "('u, 'v) open_socket_querier" and w :: 'w and ds :: "pystr list"
  assumes broker: "broker_ok g to_resp to_querier key q0 w ds"
begin

abbreviation "at \<equiv> rpc_at g key q0 w ds"

abbreviation "step \<equiv> rpc_exec g f to_resp to_querier"

text \<open>A step that takes the system to the same or another stage, with less left to do.\<close>

definition moves :: "('u, 'w, 'v) rpc \<Rightarrow> ('u, 'w, 'v) rpc \<Rightarrow> bool" where
  "moves s s' \<longleftrightarrow> (\<exists>k st. at k st s') \<and> (rpc_rank (length ds) s', rpc_rank (length ds) s) \<in> rank_less"

lemma request_facts:
  assumes "k < length ds"
  shows "q_sendable q0 (ds ! k)" "good_request (ds ! k, key n)" "to_resp n (query_msg q0 (ds ! k)) = keyed_msg (key n) (ds ! k)"
    "length (keyed_msg (key n) (replies g ds w ! k)) \<le> 16777216" "good_answer (replies g ds w ! k)" "to_querier (keyed_msg (key n) (replies g ds w ! k)) = utf8_bytes (replies g ds w ! k)"
  using broker assms nth_mem [of k ds] nth_mem [of k "replies g ds w"] unfolding broker_ok_def by simp_all

lemma request_valid:
  assumes "k < length ds"
  shows "valid_msg 16777216 (query_msg q0 (ds ! k))" "valid_msg 16777216 (keyed_msg (key n) (ds ! k))"
    "valid_msg 16777216 (keyed_msg (key n) (replies g ds w ! k))" "valid_msg 16777216 (utf8_bytes (replies g ds w ! k))"
proof -
  show "valid_msg 16777216 (query_msg q0 (ds ! k))"
    using request_facts(1) [OF assms] by (simp add: q_sendable_def valid_msg_def query_msg_def)
  show "valid_msg 16777216 (keyed_msg (key n) (ds ! k))"
    using request_facts(2) [OF assms] by (simp add: good_request_def valid_msg_def)
  show "valid_msg 16777216 (keyed_msg (key n) (replies g ds w ! k))"
    using request_facts(4) [OF assms] by (simp add: valid_msg_def)
  show "valid_msg 16777216 (utf8_bytes (replies g ds w ! k))"
    using request_facts(5) [OF assms] by (simp add: good_answer_def valid_msg_def)
qed

lemma next_frame_Nil: "next_frame mx [] = Incomplete"
  by (simp add: next_frame_def)

lemma at_busy: "at k st s \<Longrightarrow> st \<noteq> Calling \<Longrightarrow> k < length ds"
  by (auto simp: rpc_at_def call_at_def)

lemmas at_defs = rpc_at_def call_at_def on_way_def healthy_def rpc_rank_def

lemma request_moves:
  assumes "at k Asked s"
  shows "moves s (step Rpc_request s)"
proof -
  have k: "k < length ds" using at_busy [OF assms] by simp
  have "next_frame 16777216 (frame (query_msg q0 (ds ! k)) @ []) = Frame (query_msg q0 (ds ! k)) []"
    by (rule next_frame_frame [OF _ request_valid(1) [OF k]]) simp
  then have n: "next_frame 16777216 (unread (rpc_read_q s) (KLquerier (rpc_q s))) = Frame (query_msg q0 (ds ! k)) []"
    using assms by (simp add: at_defs)
  let ?s = "step Rpc_request s"
  have s': "?s = s\<lparr>rpc_read_q := rpc_read_q s + length (frame (query_msg q0 (ds ! k))),
      rpc_to_p := rpc_to_p s @ frame (keyed_msg (key (rpc_count s)) (ds ! k)), rpc_count := Suc (rpc_count s)\<rparr>"
    using n request_facts(3) [OF k] by simp
  have len: "rpc_read_q s + length (frame (query_msg q0 (ds ! k))) \<le> length (sk_sent (tcp_socket (KLquerier (rpc_q s))))"
    using assms unfolding at_defs unread_def by (metis add_le_cancel_left le_add_diff_inverse length_drop order_refl)
  have "at k Sent ?s" unfolding s' using assms len by (auto simp: at_defs unread_simps)
  moreover have "(rpc_rank (length ds) ?s, rpc_rank (length ds) s) \<in> rank_less"
    unfolding s' using assms by (auto simp: at_defs unread_simps)
  ultimately show ?thesis unfolding moves_def by blast
qed

lemma request_idle:
  assumes "at k st s" and "st \<noteq> Asked"
  shows "step Rpc_request s = s"
proof -
  have "unread (rpc_read_q s) (KLquerier (rpc_q s)) = []" using assms by (simp add: at_defs)
  then show ?thesis by (simp add: next_frame_Nil)
qed

lemma reply_moves:
  assumes "at k Answered s"
  shows "moves s (step Rpc_reply s)"
proof -
  have k: "k < length ds" using at_busy [OF assms] by simp
  let ?m = "keyed_msg (key (rpc_count s - 1)) (replies g ds w ! k)"
  have "next_frame 16777216 (frame ?m @ []) = Frame ?m []"
    by (rule next_frame_frame [OF _ request_valid(3) [OF k]]) simp
  then have n: "next_frame 16777216 (unread (rpc_read_p s) (KLresponser (rpc_p s))) = Frame ?m []"
    using assms by (simp add: at_defs)
  let ?s = "step Rpc_reply s"
  have s': "?s = s\<lparr>rpc_read_p := rpc_read_p s + length (frame ?m),
      rpc_to_q := rpc_to_q s @ frame (utf8_bytes (replies g ds w ! k))\<rparr>"
    using n request_facts(6) [OF k] by simp
  have len: "rpc_read_p s + length (frame ?m) \<le> length (sk_sent (tcp_socket (KLresponser (rpc_p s))))"
    using assms unfolding at_defs unread_def by (metis add_le_cancel_left le_add_diff_inverse length_drop order_refl)
  have "at k Returning ?s" unfolding s' using assms len by (auto simp: at_defs unread_simps)
  moreover have "(rpc_rank (length ds) ?s, rpc_rank (length ds) s) \<in> rank_less"
    unfolding s' using assms by (auto simp: at_defs unread_simps)
  ultimately show ?thesis unfolding moves_def by blast
qed

lemma reply_idle:
  assumes "at k st s" and "st \<noteq> Answered"
  shows "step Rpc_reply s = s"
proof -
  have "unread (rpc_read_p s) (KLresponser (rpc_p s)) = []" using assms by (simp add: at_defs)
  then show ?thesis by (simp add: next_frame_Nil)
qed

lemma work_moves:
  assumes "at k Queued s"
  shows "moves s (step Rpc_work s)"
proof -
  have k: "k < length ds" using at_busy [OF assms] by simp
  let ?key = "key (rpc_count s - 1)" and ?p = "rpc_p s"
  let ?a = "replies g ds w ! k" and ?w = "state_after g (take (Suc k) ds) w"
  have sv: "serving ?p" and q: "resp_data_queue ?p = [(ds ! k, ?key)]" and
    ap: "resp_app ?p = state_after g (take k ds) w"
    using assms by (simp_all add: at_defs)
  have ga: "g (ds ! k) (resp_app ?p) = (?a, ?w)" by (simp add: ap replies_nth [OF k] state_after_Suc [OF k])
  have "\<not> list_ex is_surrogate ?key" "\<not> list_ex is_surrogate ?a"
    using request_facts(2,5) [OF k] scalar_not_surrogate by (auto simp: good_request_def good_answer_def)
  note st = process_queue_step_sends [where g = g, OF sv q ga this request_facts(4) [OF k, of "rpc_count s - 1"]]
  let ?p' = "?p\<lparr>resp_data_queue := [], resp_unfinished := 0, resp_app := ?w,
      KLresponser := add_sent (frame (keyed_msg ?key ?a)) (KLresponser ?p)\<rparr>"
  have s': "step Rpc_work s = s\<lparr>rpc_p := ?p'\<rparr>" using st by simp
  have sv': "serving ?p'" using serving_step [OF sv, where q = "[]" and w = ?w] by simp
  have len: "rpc_read_p s \<le> length (sk_sent (tcp_socket (KLresponser ?p')))"
    using assms by (simp add: at_defs add_sent_def)
  have "at k Answered (step Rpc_work s)" unfolding s' using assms sv' len
    by (auto simp: at_defs unread_simps)
  moreover have "(rpc_rank (length ds) (step Rpc_work s), rpc_rank (length ds) s) \<in> rank_less"
    unfolding s' using assms by (auto simp: at_defs)
  ultimately show ?thesis unfolding moves_def by blast
qed

lemma work_idle:
  assumes "at k st s" and "st \<noteq> Queued"
  shows "step Rpc_work s = s"
proof -
  have "process_queue_step (resp_app_user g) Send_Ok (rpc_p s) = (Continue, rpc_p s)"
    using assms by (simp add: at_defs process_queue_step_def serving_def online_def)
  then show ?thesis by simp
qed

lemma to_p_moves:
  assumes "at k Sent s"
  shows "moves s (step (Rpc_to_p n) s)"
proof -
  have k: "k < length ds" using at_busy [OF assms] by simp
  let ?key = "key (rpc_count s - 1)" and ?p = "rpc_p s" and ?rest = "drop (Suc n) (rpc_to_p s)"
  have sv: "serving ?p" and fr: "buffer (KLresponser ?p) @ rpc_to_p s = frame (keyed_msg ?key (ds ! k))" and ne: "rpc_to_p s \<noteq> []"
    using assms by (simp_all add: at_defs)
  obtain p' where p': "resp_receive [Recv_Data (take (Suc n) (rpc_to_p s))] ?p = Some (Continue, p')" "serving p'"
      "resp_data_queue p' = resp_data_queue ?p @ (if ?rest = [] then [(ds ! k, ?key)] else [])" "resp_app p' = resp_app ?p"
      "KLresponser p' = (KLresponser ?p)\<lparr>buffer := (if ?rest = [] then [] else buffer (KLresponser ?p) @ take (Suc n) (rpc_to_p s))\<rparr>"
    by (rule request_piece [OF sv request_facts(2) [OF k] fr ne])
  have s': "step (Rpc_to_p n) s = s\<lparr>rpc_p := p', rpc_to_p := ?rest\<rparr>" using p'(1) ne by simp
  have "at k (if ?rest = [] then Queued else Sent) (step (Rpc_to_p n) s)"
    unfolding s' using assms p'(2-5) fr by (cases "?rest = []") (auto simp: at_defs unread_simps)
  moreover have "(rpc_rank (length ds) (step (Rpc_to_p n) s), rpc_rank (length ds) s) \<in> rank_less"
    unfolding s' using assms p'(3,5) ne by (auto simp: at_defs unread_simps)
  ultimately show ?thesis unfolding moves_def by blast
qed

lemma to_p_idle:
  assumes "at k st s" and "st \<noteq> Sent"
  shows "step (Rpc_to_p n) s = s"
proof -
  have "rpc_to_p s = []" using assms by (simp add: at_defs)
  then show ?thesis by simp
qed

lemma to_q_moves:
  assumes "at k Returning s"
  shows "moves s (step (Rpc_to_q n) s)"
proof -
  have k: "k < length ds" using at_busy [OF assms] by simp
  let ?a = "replies g ds w ! k" and ?q = "rpc_q s" and ?rest = "drop (Suc n) (rpc_to_q s)"
  have ls: "listening ?q" and bx: "box ?q None" and fr: "buffer (KLquerier ?q) @ rpc_to_q s = frame (utf8_bytes ?a)" and ne: "rpc_to_q s \<noteq> []"
    using assms by (auto simp: at_defs)
  obtain q' where q': "q_receive (q_app_user f) [Recv_Data (take (Suc n) (rpc_to_q s))] ?q = Some (Continue, q')" "listening q'"
      "box q' (if ?rest = [] then Some ?a else None)" "q_appID q' = q_appID ?q" "q_openSocketID q' = q_openSocketID ?q"
      "KLquerier q' = (KLquerier ?q)\<lparr>buffer := (if ?rest = [] then [] else buffer (KLquerier ?q) @ take (Suc n) (rpc_to_q s))\<rparr>"
    by (rule answer_piece [OF ls bx request_facts(5) [OF k] fr ne])
  have s': "step (Rpc_to_q n) s = s\<lparr>rpc_q := q', rpc_to_q := ?rest\<rparr>" using q'(1) ne by simp
  have "at k (if ?rest = [] then Arrived else Returning) (step (Rpc_to_q n) s)"
    unfolding s' using assms q'(2-6) fr by (cases "?rest = []") (auto simp: at_defs unread_simps)
  moreover have "(rpc_rank (length ds) (step (Rpc_to_q n) s), rpc_rank (length ds) s) \<in> rank_less"
    unfolding s' using assms q'(6) ne by (auto simp: at_defs unread_simps)
  ultimately show ?thesis unfolding moves_def by blast
qed

lemma to_q_idle:
  assumes "at k st s" and "st \<noteq> Returning"
  shows "step (Rpc_to_q n) s = s"
proof -
  have "rpc_to_q s = []" using assms by (simp add: at_defs)
  then show ?thesis by simp
qed

lemma same_ids: "q_appID q = q_appID q0 \<Longrightarrow> q_openSocketID q = q_openSocketID q0 \<Longrightarrow> query_msg q d = query_msg q0 d \<and> q_encodable q d = q_encodable q0 d"
  by (simp add: query_msg_def q_encodable_def)

lemma listening_sends:
  assumes "listening q" and "q_appID q = q_appID q0" and "q_openSocketID q = q_openSocketID q0" and "k < length ds"
  shows "query_async r (ds ! k) q = (Inr (), q\<lparr>KLquerier := (case r of
      Send_Ok \<Rightarrow> add_sent (frame (query_msg q0 (ds ! k))) (KLquerier q)
    | Send_Fail n \<Rightarrow> set_connected False (add_sent (take n (frame (query_msg q0 (ds ! k)))) (KLquerier q)))\<rparr>)"
proof -
  have h: "query_msg q (ds ! k) = query_msg q0 (ds ! k)" "q_encodable q (ds ! k) = q_encodable q0 (ds ! k)"
    using same_ids [OF assms(2,3)] by simp_all
  then have "q_sendable q (ds ! k)"
    using request_facts(1) [OF assms(4)] assms(1) by (simp add: q_sendable_def listening_def)
  with assms(1) h show ?thesis
    by (cases r) (auto simp: query_async_sendable send_data_def write_eq listening_def online_def q_sendable_def)
qed

lemma query_begin_ids: "q_appID (query_begin q) = q_appID q" "q_openSocketID (query_begin q) = q_openSocketID q"
  by (simp_all add: query_begin_def)

lemma listening_fields:
  "listening (query_begin q) = listening q" "KLquerier (query_begin q) = KLquerier q" "box (query_begin q) None"
  "listening (q\<lparr>is_querying := b\<rparr>) = listening q"
  "listening (q\<lparr>KLquerier := add_sent x (KLquerier q)\<rparr>) = listening q" "box (q\<lparr>KLquerier := c\<rparr>) r = box q r"
  by (simp_all add: listening_def query_begin_def box_def online_def add_sent_def connected_def)

lemma drop_Cons_nth:
  "drop k xs = y # ys \<Longrightarrow> k < length xs \<and> y = xs ! k \<and> ys = drop (Suc k) xs"
  by (metis drop_eq_Nil list.discI not_less Cons_nth_drop_Suc list.inject)

lemma movesI:
  "at k st s' \<Longrightarrow> (rpc_rank (length ds) s', rpc_rank (length ds) s) \<in> rank_less \<Longrightarrow> moves s s'"
  unfolding moves_def by blast

lemma caller_begins:
  assumes "at k Calling s" and "rpc_call s = None" and "rpc_todo s = d # ds'"
  shows "moves s (s\<lparr>rpc_call := Some (Q_begin d False), rpc_todo := ds'\<rparr>)"
proof -
  have "drop k ds = d # ds'" using assms by (auto simp: rpc_at_def call_at_def)
  note d = drop_Cons_nth [OF this]
  show ?thesis by (rule movesI [of k Calling]; use assms d in \<open>auto simp: at_defs\<close>)
qed

lemma caller_sends:
  assumes "at k Calling s" and "rpc_call s = Some (Q_send (ds ! k) False)" and "k < length ds" and "box (rpc_q s) None"
  shows "moves s (caller_step Send_Ok s)"
proof -
  let ?q = "rpc_q s"
  have len: "length (sk_sent (tcp_socket (add_sent x c))) = length (sk_sent (tcp_socket c)) + length x" for x c
    by (simp add: add_sent_def)
  have "listening ?q" "q_appID ?q = q_appID q0" "q_openSocketID ?q = q_openSocketID q0" using assms(1) by (simp_all add: at_defs)
  from listening_sends [OF this assms(3), of Send_Ok] assms(2) have s': "caller_step Send_Ok s = s\<lparr>rpc_call := Some (Q_wait False),
      rpc_q := ?q\<lparr>KLquerier := add_sent (frame (query_msg q0 (ds ! k))) (KLquerier ?q)\<rparr>\<rparr>"
    by (simp add: caller_step_def)
  show ?thesis
    by (rule movesI [of k Asked]; unfold s'; use assms in \<open>auto simp: at_defs listening_fields unread_simps len\<close>)
qed

lemma step_caller:
  assumes "at k st s"
  shows "moves s (step Rpc_caller s) \<or> step Rpc_caller s = s \<and>
    (st = Calling \<and> k = length ds \<or> st \<in> {Asked, Sent, Queued, Answered, Returning})"
proof -
  have "call_at g w ds k st s" using assms by (simp add: rpc_at_def)
  then show ?thesis
  proof (cases rule: call_at_cases)
    case between
    show ?thesis
    proof (cases "rpc_todo s")
      case Nil
      with between assms show ?thesis by (auto simp: caller_step_def rpc_at_def)
    next
      case (Cons d ds')
      with between(1,2) assms caller_begins [of k s d ds'] show ?thesis by (simp add: caller_step_def)
    qed
  next
    case begins
    have "moves s (s\<lparr>rpc_call := Some (Q_send (ds ! k) False), rpc_q := query_begin (rpc_q s)\<rparr>)"
      by (rule movesI [of k Calling]; use assms begins in \<open>auto simp: at_defs listening_fields query_begin_ids\<close>)
    with begins show ?thesis by (simp add: caller_step_def)
  next
    case sends
    with caller_sends [of k s] assms show ?thesis by simp
  next
    case waits
    then show ?thesis by (simp add: caller_step_def box_def)
  next
    case woken
    have "moves s (s\<lparr>rpc_call := Some (Q_end True)\<rparr>)" by (rule movesI [of k Arrived]; use assms woken in \<open>auto simp: at_defs\<close>)
    with woken show ?thesis by (simp add: caller_step_def box_def)
  next
    case ends
    have "moves s (s\<lparr>rpc_call := Some (Q_returned (Inr (Some (replies g ds w ! k)))), rpc_q := (rpc_q s)\<lparr>is_querying := False\<rparr>\<rparr>)"
      by (rule movesI [of k Returned]; use assms ends in \<open>auto simp: at_defs listening_fields\<close>)
    with ends show ?thesis by (simp add: caller_step_def box_def query_end_def Let_def)
  next
    case returned
    have "moves s (s\<lparr>rpc_call := None, rpc_done := rpc_done s @ [Inr (Some (replies g ds w ! k))]\<rparr>)"
      by (rule movesI [of "Suc k" Calling]; use assms returned in \<open>auto simp: at_defs take_Suc_conv_app_nth\<close>)
    with returned show ?thesis by (simp add: caller_step_def)
  qed
qed

lemma step_moves: "at k st s \<Longrightarrow> step ev s = s \<or> moves s (step ev s)"
proof (cases ev)
  case Rpc_caller
  assume "at k st s"
  from step_caller [OF this] Rpc_caller show ?thesis by (simp del: rpc_exec.simps) blast
next
  case Rpc_request
  assume "at k st s"
  then show ?thesis unfolding Rpc_request using request_moves request_idle by (cases "st = Asked") blast+
next
  case (Rpc_to_p n)
  assume "at k st s"
  then show ?thesis unfolding Rpc_to_p using to_p_moves to_p_idle by (cases "st = Sent") blast+
next
  case Rpc_work
  assume "at k st s"
  then show ?thesis unfolding Rpc_work using work_moves work_idle by (cases "st = Queued") blast+
next
  case Rpc_reply
  assume "at k st s"
  then show ?thesis unfolding Rpc_reply using reply_moves reply_idle by (cases "st = Answered") blast+
next
  case (Rpc_to_q n)
  assume "at k st s"
  then show ?thesis unfolding Rpc_to_q using to_q_moves to_q_idle by (cases "st = Returning") blast+
qed

lemma moves_neq: "moves s s' \<Longrightarrow> s' \<noteq> s"
  by (cases "rpc_rank (length ds) s") (auto simp: moves_def)

lemma at_step: "at k st s \<Longrightarrow> \<exists>k st. at k st (step ev s)"
  using step_moves [of k st s ev] unfolding moves_def by metis

lemma at_run: "at k st s \<Longrightarrow> \<exists>k st. at k st (fold step evs s)"
proof (induction evs arbitrary: k st s)
  case (Cons ev evs)
  from at_step [OF Cons.prems, of ev] Cons.IH show ?case by (auto simp del: rpc_exec.simps)
qed auto

text \<open>Who can move at each stage: all events of that kind do.\<close>

lemma some_actor_moves:
  assumes "at k st s" and "\<not> (st = Calling \<and> k = length ds)"
  shows "\<exists>c < 6. \<forall>ev. actor ev = c \<longrightarrow> moves s (step ev s)"
proof -
  have caller: "moves s (step Rpc_caller s)" if "st \<in> {Calling, Arrived, Returned}"
    using step_caller [OF assms(1)] that assms(2) by auto
  have ex: "\<exists>c < 6. \<forall>ev. actor ev = c \<longrightarrow> P ev" if "i < 6" "\<And>ev. actor ev = i \<Longrightarrow> P ev" for i P
    using that by blast
  show ?thesis
  proof (cases st)
    case Asked
    show ?thesis by (rule ex [of 1], simp, case_tac ev, use request_moves assms(1) Asked in \<open>simp_all del: rpc_exec.simps\<close>)
  next
    case Sent
    show ?thesis by (rule ex [of 2], simp, case_tac ev, use to_p_moves assms(1) Sent in \<open>simp_all del: rpc_exec.simps\<close>)
  next
    case Queued
    show ?thesis by (rule ex [of 3], simp, case_tac ev, use work_moves assms(1) Queued in \<open>simp_all del: rpc_exec.simps\<close>)
  next
    case Answered
    show ?thesis by (rule ex [of 4], simp, case_tac ev, use reply_moves assms(1) Answered in \<open>simp_all del: rpc_exec.simps\<close>)
  next
    case Returning
    show ?thesis by (rule ex [of 5], simp, case_tac ev, use to_q_moves assms(1) Returning in \<open>simp_all del: rpc_exec.simps\<close>)
  qed (rule ex [of 0], simp, case_tac ev, use caller in \<open>simp_all del: rpc_exec.simps\<close>)+
qed

lemma complete_stays:
  assumes "at (length ds) Calling s"
  shows "step ev s = s"
proof (cases ev)
  case Rpc_caller
  have "rpc_call s = None" "rpc_todo s = []" using assms by (auto simp: rpc_at_def call_at_def)
  then show ?thesis by (simp add: Rpc_caller caller_step_def)
qed (use assms request_idle to_p_idle work_idle reply_idle to_q_idle in \<open>auto simp del: rpc_exec.simps\<close>)

lemma first_change:
  fixes x :: "nat \<Rightarrow> 'z"
  assumes "i \<le> j"
  shows "x j = x i \<or> (\<exists>m. i \<le> m \<and> m < j \<and> x m = x i \<and> x (Suc m) \<noteq> x m)"
  using assms
proof (induction j rule: dec_induct)
  case (step j)
  then show ?case by (metis le_refl less_Suc_eq)
qed simp

lemma fair_completes:
  assumes "\<And>i. x (Suc i) = step (sched i) (x i)" and "\<And>c i. c < 6 \<Longrightarrow> \<exists>j \<ge> i. actor (sched j) = c"
    and "\<exists>k st. at k st (x i)"
  shows "\<exists>n. at (length ds) Calling (x n)"
proof -
  have "wf rank_less" by auto
  then show ?thesis
    using assms(3)
  proof (induction "rpc_rank (length ds) (x i)" arbitrary: i rule: wf_induct_rule)
    case less
    have again: ?case if "moves (x i) (x n)" for n
      using that less.hyps [of n] unfolding moves_def by blast
    from less.prems obtain k st where a: "at k st (x i)" by blast
    show ?case
    proof (cases "st = Calling \<and> k = length ds")
      case True
      with a show ?thesis by blast
    next
      case False
      obtain c where c: "c < 6" "\<And>ev. actor ev = c \<Longrightarrow> moves (x i) (step ev (x i))"
        using some_actor_moves [OF a False] by blast
      obtain j where j: "i \<le> j" "actor (sched j) = c" using assms(2) [OF c(1)] by blast
      from first_change [OF j(1), of x] show ?thesis
      proof (elim disjE exE conjE)
        assume "x j = x i"
        with c(2) [OF j(2)] assms(1) [of j] show ?thesis by (intro again [of "Suc j"]) simp
      next
        fix m
        assume "x m = x i" "x (Suc m) \<noteq> x m"
        with step_moves [OF a, of "sched m"] assms(1) [of m] show ?thesis by (intro again [of "Suc m"]) simp
      qed
    qed
  qed
qed

lemma complete_done: "at (length ds) Calling s \<Longrightarrow> rpc_done s = map (\<lambda>a. Inr (Some a)) (replies g ds w)"
  by (simp add: rpc_at_def)

lemma at_done: "at k st s \<Longrightarrow> rpc_done s = map (\<lambda>a. Inr (Some a)) (take (length (rpc_done s)) (replies g ds w))"
  by (auto simp: rpc_at_def min_def)

end

text \<open>The system at the start.\<close>

lemma rpc_at_start:
  assumes "rpc_ready q p"
  shows "rpc_at g key q (resp_app p) ds 0 Calling (rpc_start q p ds)"
  using assms by (simp add: rpc_at_def call_at_def rpc_start_def rpc_ready_def healthy_def on_way_def unread_def)

section \<open>Requests and answers, in any order of steps\<close>

text \<open>
  Claim C3 (refinement): the system of querier, broker and responser implements a call of the
  application's function.  The program of the querier makes a series of queries one after
  the other; whatever the order in which the caller, the broker, the receive threads and
  the worker make their steps, and however the bytes arrive, the results so far are the
  answers of the application to the first requests, each made once and in order, with the
  application's state carried on from request to request.
\<close>

theorem rpc_answers_in_order:
  assumes "rpc_ready q p" and "broker_ok g to_resp to_querier key q (resp_app p) ds"
    and "s = fold (rpc_exec g f to_resp to_querier) evs (rpc_start q p ds)"
  shows "rpc_done s = map (\<lambda>a. Inr (Some a)) (take (length (rpc_done s)) (replies g ds (resp_app p)))"
proof -
  have run: "rpc_run g to_resp to_querier key q (resp_app p) ds" by (rule rpc_run.intro [OF assms(2)])
  from rpc_run.at_run [OF run rpc_at_start [OF assms(1)], of f evs] rpc_run.at_done [OF run] assms(3)
  show ?thesis by blast
qed

text \<open>
  Claim C4 (liveness): every query is answered.  If no part of the system stops for ever, that is if the
  caller, the broker in both directions, the receive threads and the worker each get to
  make a step again and again, in whatever order and with bytes arriving in pieces of any
  size, then after finitely many steps all queries have returned, each with the answer of
  the application.
\<close>

theorem rpc_fair_run_completes:
  assumes "rpc_ready q p" and "broker_ok g to_resp to_querier key q (resp_app p) ds"
    and "x 0 = rpc_start q p ds" and "\<forall>i. x (Suc i) = rpc_exec g f to_resp to_querier (sched i) (x i)"
    and "\<forall>c < 6. \<forall>i. \<exists>j \<ge> i. actor (sched j) = c"
  shows "\<exists>n. \<forall>m \<ge> n. rpc_done (x m) = map (\<lambda>a. Inr (Some a)) (replies g ds (resp_app p))"
proof -
  have run: "rpc_run g to_resp to_querier key q (resp_app p) ds" by (rule rpc_run.intro [OF assms(2)])
  have "\<exists>k st. rpc_at g key q (resp_app p) ds k st (x 0)" using rpc_at_start [OF assms(1)] assms(3) by metis
  then obtain n where n: "rpc_at g key q (resp_app p) ds (length ds) Calling (x n)"
    using rpc_run.fair_completes [OF run, of x f sched 0] assms(4,5) by blast
  have "x m = x n" if "n \<le> m" for m
    using that
  proof (induction m rule: dec_induct)
    case (step m)
    then show ?case using assms(4) rpc_run.complete_stays [OF run n, of f] by (simp del: rpc_exec.simps)
  qed simp
  with rpc_run.complete_done [OF run n] show ?thesis by metis
qed

section \<open>A broker\<close>

text \<open>
  A broker that keeps to the contract.  It replaces the topic by the key 7 on the way to the
  responser, and strips the key on the way back.
\<close>

definition sample_to_resp :: "bytes \<Rightarrow> bytes" where
  "sample_to_resp m =
     (case find_sub SEP_bytes m of
        None \<Rightarrow> []
      | Some n \<Rightarrow> utf8_bytes (str_lit ''7'') @ SEP_bytes @ drop (n + 3) m)"

definition sample_to_querier :: "bytes \<Rightarrow> bytes" where
  "sample_to_querier m = drop (length (utf8_bytes (str_lit ''7'')) + 3) m"

end
