(* ===== verification/KL_RpcFaults.thy ===== *)
theory KL_RpcFaults
  imports KL_RpcSystem
begin

text \<open>
  The system of \<^verbatim>\<open>KL_RpcSystem\<close> when connections fail.  A send of the querier or of the
  responser may fail after any number of bytes, a connection may be lost or report an error
  in a receive thread, and either program may call \<^verbatim>\<open>disconnect\<close>, at any time and any
  number of times.  A client that has lost its connection is not connected again, as in the
  code.
\<close>

section \<open>Faults\<close>

datatype fault_event =
    F_step rpc_event
  | F_call nat
  | F_work nat
  | F_lost_q bool
  | F_lost_p bool
  | F_close_q
  | F_close_p

text \<open>What \<^verbatim>\<open>recv\<close> gives when the connection is gone: the end of the stream or an error.\<close>

definition lost_result :: "bool \<Rightarrow> recv_result" where
  "lost_result eof = (if eof then Recv_Data [] else Recv_Error)"

fun fault_exec ::
  "(pystr \<Rightarrow> 'w \<Rightarrow> pystr \<times> 'w) \<Rightarrow> (pystr \<Rightarrow> 'v \<Rightarrow> 'v) \<Rightarrow> (nat \<Rightarrow> bytes \<Rightarrow> bytes) \<Rightarrow> (bytes \<Rightarrow> bytes) \<Rightarrow>
   fault_event \<Rightarrow> ('u, 'w, 'v) rpc \<Rightarrow> ('u, 'w, 'v) rpc" where
  "fault_exec g f to_resp to_querier (F_step ev) s = rpc_exec g f to_resp to_querier ev s"
| "fault_exec g f to_resp to_querier (F_call n) s = caller_step (Send_Fail n) s"
| "fault_exec g f to_resp to_querier (F_work n) s =
     s\<lparr>rpc_p := snd (process_queue_step (resp_app_user g) (Send_Fail n) (rpc_p s))\<rparr>"
| "fault_exec g f to_resp to_querier (F_lost_q eof) s =
     (case q_receive (q_app_user f) [lost_result eof] (rpc_q s) of None \<Rightarrow> s | Some (_, q) \<Rightarrow> s\<lparr>rpc_q := q\<rparr>)"
| "fault_exec g f to_resp to_querier (F_lost_p eof) s =
     (case resp_receive [lost_result eof] (rpc_p s) of None \<Rightarrow> s | Some (_, p) \<Rightarrow> s\<lparr>rpc_p := p\<rparr>)"
| "fault_exec g f to_resp to_querier F_close_q s = s\<lparr>rpc_q := q_disconnect (rpc_q s)\<rparr>"
| "fault_exec g f to_resp to_querier F_close_p s = s\<lparr>rpc_p := resp_disconnect (rpc_p s)\<rparr>"

section \<open>Clients that are not connected\<close>

lemma dead_receive: "\<not> connected (get s) \<Longrightarrow> receive_data get upd call rs s = Some (Exit, s)"
  by (cases rs) simp_all

lemma unread_disconnect: "unread n (disconnect c) = unread n c"
  by (simp add: unread_def disconnect_sent)

lemmas disconnect_effect = disconnect_frame unread_disconnect

lemma set_connected_effect:
  "\<not> connected (set_connected False c)" "unread n (set_connected b c) = unread n c" "buffer (set_connected b c) = buffer c"
  "sk_sent (tcp_socket (set_connected b c)) = sk_sent (tcp_socket c)"
  by (simp_all add: set_connected_def connected_def unread_def)

lemmas dead_simps = disconnect_effect disconnect_sent set_connected_effect

lemma lost_q:
  assumes "listening q"
  shows "q_receive user [lost_result eof] q = Some (Exit, KLquerier_update (set_connected False) q)"
  using assms
  by (auto simp: q_receive_def lost_result_def listening_def online_def receive_body_def sock_recv_def receive_error_def)

lemma lost_p:
  assumes "serving p"
  shows "resp_receive [lost_result eof] p = Some (Exit, KLresponser_update (set_connected False) p)"
  using assms
  by (auto simp: resp_receive_def lost_result_def serving_def online_def receive_body_def sock_recv_def receive_error_def)

lemma dead_q: "\<not> connected (KLquerier q) \<Longrightarrow> q_receive user rs q = Some (Exit, q)"
  by (simp add: q_receive_def dead_receive)

lemma dead_p:
  assumes "\<not> connected (KLresponser p)"
  shows "resp_receive rs p = Some (Exit, p)" "process_queue_step user r p = (Exit, p)"
  using assms by (simp_all add: resp_receive_def dead_receive process_queue_step_def)

lemma dead_query:
  assumes "\<not> connected (KLquerier q)" and "q_encodable q d"
  shows "query_async r d q = (Inr (), q)"
  using assms by (simp add: query_async_eq send_data_def write_with_length_prefix_def querier.upd_same)

text \<open>A frame that was sent in part, or whole.\<close>

lemma part_of_frame:
  assumes "valid_msg 16777216 m"
  shows "take n (frame m) = frame m \<or> next_frame 16777216 (take n (frame m)) = Incomplete"
proof (cases "drop n (frame m) = []")
  case False
  from piece_incomplete [OF assms _ this, of "take n (frame m)"] show ?thesis by simp
qed simp

section \<open>What is left after a fault\<close>

text \<open>How many requests the responser has handled when request \<open>k\<close> is at a stage.\<close>

fun handled :: "nat \<Rightarrow> stage \<Rightarrow> nat" where
  "handled k Calling = k"
| "handled k Asked = k"
| "handled k Sent = k"
| "handled k Queued = k"
| "handled k _ = Suc k"

lemma handled_eq: "handled k st = (if st \<in> {Calling, Asked, Sent, Queued} then k else Suc k)"
  by (cases st) simp_all

text \<open>
  A call on a querier without connection.  Its result is \<open>None\<close> or an answer \<open>ans\<close> that arrived
  before the connection was lost.
\<close>

fun lost_call :: "pystr set \<Rightarrow> pystr option \<Rightarrow> qpc option \<Rightarrow> ('u, 'v) open_socket_querier \<Rightarrow> bool" where
  "lost_call D ans None q = True"
| "lost_call D ans (Some (Q_begin d t)) q = (d \<in> D \<and> \<not> t)"
| "lost_call D ans (Some (Q_send d t)) q = (d \<in> D \<and> \<not> t \<and> query_result q \<in> {None, ans})"
| "lost_call D ans (Some (Q_wait t)) q = (\<not> t \<and> query_result q \<in> {None, ans})"
| "lost_call D ans (Some (Q_end b)) q = (b \<and> query_result q \<in> {None, ans})"
| "lost_call D ans (Some (Q_returned x)) q = (x \<in> {Inr None, Inr ans})"

context rpc_run
begin

abbreviation "fault \<equiv> fault_exec g f to_resp to_querier"

abbreviation answer :: "nat \<Rightarrow> pystr" where
  "answer k \<equiv> replies g ds w ! k"

text \<open>
  The side of the responser, as far as it does not depend on the querier: a request may still
  be on its way.  It has handled \<open>c\<close> requests and will not handle more than \<open>e\<close>.
\<close>

definition p_forward :: "nat \<Rightarrow> stage \<Rightarrow> ('u, 'w, 'v) rpc \<Rightarrow> bool" where
  "p_forward k st s \<longleftrightarrow> st \<in> {Calling, Asked, Sent, Queued, Answered, Returning} \<and>
     k \<le> length ds \<and> (st \<noteq> Calling \<longrightarrow> k < length ds) \<and>
     serving (rpc_p s) \<and> resp_app (rpc_p s) = state_after g (take (handled k st) ds) w \<and>
     (if st = Asked then unread (rpc_read_q s) (KLquerier (rpc_q s)) = frame (query_msg q0 (ds ! k))
      else next_frame 16777216 (unread (rpc_read_q s) (KLquerier (rpc_q s))) = Incomplete) \<and>
     buffer (KLresponser (rpc_p s)) @ rpc_to_p s = (if st = Sent then frame (keyed_msg (key (rpc_count s - 1)) (ds ! k)) else []) \<and>
     (st = Sent \<longrightarrow> rpc_to_p s \<noteq> []) \<and>
     resp_data_queue (rpc_p s) = (if st = Queued then [(ds ! k, key (rpc_count s - 1))] else [])"

definition p_part :: "nat \<Rightarrow> nat \<Rightarrow> ('u, 'w, 'v) rpc \<Rightarrow> bool" where
  "p_part c e s \<longleftrightarrow>
     (\<exists>k st. p_forward k st s \<and> c = handled k st \<and> e = (if st = Calling then k else Suc k)) \<or>
     \<not> connected (KLresponser (rpc_p s)) \<and> resp_app (rpc_p s) = state_after g (take c ds) w \<and> c \<le> e"

lemma p_partE:
  assumes "p_part c e s"
  obtains (forward) k st where "p_forward k st s" "c = handled k st" "e = (if st = Calling then k else Suc k)"
    | (dead) "\<not> connected (KLresponser (rpc_p s))" "resp_app (rpc_p s) = state_after g (take c ds) w" "c \<le> e"
  using assms unfolding p_part_def by blast

lemma p_part_forward:
  "p_forward k st s \<Longrightarrow> c = handled k st \<Longrightarrow> e = (if st = Calling then k else Suc k) \<Longrightarrow> p_part c e s"
  unfolding p_part_def by blast

lemma p_part_deadI:
  "\<not> connected (KLresponser (rpc_p s)) \<Longrightarrow> resp_app (rpc_p s) = state_after g (take c ds) w \<Longrightarrow> c \<le> e \<Longrightarrow> p_part c e s"
  unfolding p_part_def by blast

lemma p_part_cong:
  assumes "p_part c e s" and "rpc_p s' = rpc_p s" and "rpc_to_p s' = rpc_to_p s" and "rpc_count s' = rpc_count s"
    and "unread (rpc_read_q s') (KLquerier (rpc_q s')) = unread (rpc_read_q s) (KLquerier (rpc_q s))"
  shows "p_part c e s'"
  using assms(1) unfolding p_part_def p_forward_def assms(2-5) .

lemma p_part_dead:
  assumes "p_part c e s" and "\<not> connected (KLresponser p)" and "resp_app p = resp_app (rpc_p s)"
  shows "p_part c e (s\<lparr>rpc_p := p\<rparr>)"
  using assms(1)
proof (cases rule: p_partE)
  case (forward k st)
  then have "resp_app (rpc_p s) = state_after g (take c ds) w" "c \<le> e"
    by (simp_all add: p_forward_def) (cases st; simp)
  with assms(2,3) show ?thesis by (intro p_part_deadI) simp_all
qed (use assms(2,3) in \<open>auto intro: p_part_deadI\<close>)

lemma p_request:
  assumes "p_part c e s"
  shows "p_part c e (step Rpc_request s)"
  using assms
proof (cases rule: p_partE)
  case dead
  then show ?thesis by (intro p_part_deadI) (simp_all split: frame_result.split)
next
  case (forward k st)
  show ?thesis
  proof (cases "st = Asked")
    case False
    then have "step Rpc_request s = s" using forward(1) by (simp add: p_forward_def)
    with assms show ?thesis by simp
  next
    case st: True
    let ?m = "query_msg q0 (ds ! k)"
    have k: "k < length ds" using forward(1) st by (auto simp: p_forward_def)
    have n: "next_frame 16777216 (unread (rpc_read_q s) (KLquerier (rpc_q s))) = Frame ?m []"
      using forward(1) next_frame_frame [OF _ request_valid(1) [OF k], of "[]"] by (simp add: st p_forward_def)
    have "unread (rpc_read_q s + length (frame ?m)) (KLquerier (rpc_q s)) = []"
      using forward(1) by (simp add: st p_forward_def unread_simps)
    then have "p_forward k Sent (step Rpc_request s)"
      using forward(1) n request_facts(3) [OF k] by (simp add: p_forward_def st next_frame_Nil)
    from p_part_forward [OF this] forward(2,3) st show ?thesis by (simp del: rpc_exec.simps)
  qed
qed

lemma p_to_p:
  assumes "p_part c e s"
  shows "p_part c e (step (Rpc_to_p n) s)"
  using assms
proof (cases rule: p_partE)
  case dead
  then show ?thesis by (intro p_part_deadI) (simp_all add: dead_p(1))
next
  case (forward k st)
  show ?thesis
  proof (cases "st = Sent")
    case False
    then have "step (Rpc_to_p n) s = s" using forward(1) by (simp add: p_forward_def)
    with assms show ?thesis by simp
  next
    case st: True
    let ?p = "rpc_p s" and ?key = "key (rpc_count s - 1)" and ?rest = "drop (Suc n) (rpc_to_p s)"
    have k: "k < length ds" and sv: "serving ?p" and fr: "buffer (KLresponser ?p) @ rpc_to_p s = frame (keyed_msg ?key (ds ! k))"
      and ne: "rpc_to_p s \<noteq> []"
      using forward(1) by (auto simp: p_forward_def st)
    obtain p' where p': "resp_receive [Recv_Data (take (Suc n) (rpc_to_p s))] ?p = Some (Continue, p')" "serving p'"
        "resp_data_queue p' = resp_data_queue ?p @ (if ?rest = [] then [(ds ! k, ?key)] else [])" "resp_app p' = resp_app ?p"
        "KLresponser p' = (KLresponser ?p)\<lparr>buffer := (if ?rest = [] then [] else buffer (KLresponser ?p) @ take (Suc n) (rpc_to_p s))\<rparr>"
      by (rule request_piece [OF sv request_facts(2) [OF k] fr ne])
    have "p_forward k (if ?rest = [] then Queued else Sent) (step (Rpc_to_p n) s)"
      using forward(1) p' ne fr by (cases "?rest = []") (auto simp: p_forward_def st)
    from p_part_forward [OF this] forward(2,3) st show ?thesis by (cases "?rest = []") (simp_all del: rpc_exec.simps)
  qed
qed

text \<open>A pass of the worker whose send succeeds or fails.\<close>

lemma work_effect:
  assumes "serving p" and "resp_data_queue p = [(ds ! k, key i)]" and "resp_app p = state_after g (take k ds) w" and "k < length ds"
  shows "process_queue_step (resp_app_user g) r p =
    (Continue, p\<lparr>resp_data_queue := [], resp_unfinished := 0, resp_app := state_after g (take (Suc k) ds) w,
       KLresponser := (case r of
           Send_Ok \<Rightarrow> add_sent (frame (keyed_msg (key i) (answer k))) (KLresponser p)
         | Send_Fail n \<Rightarrow> set_connected False (add_sent (take n (frame (keyed_msg (key i) (answer k)))) (KLresponser p)))\<rparr>)"
proof -
  obtain u where u: "resp_recv_func p = Some u" using assms(1) by (auto simp: serving_def)
  have ga: "g (ds ! k) (resp_app p) = (answer k, state_after g (take (Suc k) ds) w)"
    by (simp add: assms(3) replies_nth [OF assms(4)] state_after_Suc [OF assms(4)])
  have "\<not> list_ex is_surrogate (key i)" "\<not> list_ex is_surrogate (answer k)"
    using request_facts(2,5) [OF assms(4)] scalar_not_surrogate by (auto simp: good_request_def good_answer_def)
  with u assms(1,2) ga request_facts(4) [OF assms(4), of i] show ?thesis
    by (cases r) (simp_all add: process_queue_step_def resp_app_user_def serving_def online_def sendBack_eq send_data_def
        write_eq finish_task_def task_done_def)
qed

lemma p_work:
  assumes "p_part c e s"
  shows "\<exists>c'. c \<le> c' \<and> p_part c' e (s\<lparr>rpc_p := snd (process_queue_step (resp_app_user g) r (rpc_p s))\<rparr>)"
  using assms
proof (cases rule: p_partE)
  case dead
  with assms show ?thesis by (intro exI [of _ c]) (simp add: dead_p(2) p_part_deadI)
next
  case (forward k st)
  show ?thesis
  proof (cases "st = Queued")
    case False
    then have "process_queue_step (resp_app_user g) r (rpc_p s) = (Continue, rpc_p s)"
      using forward(1) by (simp add: p_forward_def process_queue_step_def serving_def online_def)
    with assms show ?thesis by (intro exI [of _ c]) simp
  next
    case st: True
    let ?p = "rpc_p s" and ?i = "rpc_count s - 1"
    have p: "serving ?p" "resp_data_queue ?p = [(ds ! k, key ?i)]" "resp_app ?p = state_after g (take k ds) w" "k < length ds"
      using forward(1) by (auto simp: p_forward_def st)
    note we = work_effect [OF p, of r]
    have "p_part (Suc k) (Suc k) (s\<lparr>rpc_p := snd (process_queue_step (resp_app_user g) r ?p)\<rparr>)"
    proof (cases r)
      case Send_Ok
      have "p_forward k Answered (s\<lparr>rpc_p := snd (process_queue_step (resp_app_user g) r ?p)\<rparr>)"
        unfolding we using forward(1) Send_Ok by (auto simp: p_forward_def st serving_def online_def add_sent_def connected_def)
      then show ?thesis by (rule p_part_forward) simp_all
    next
      case (Send_Fail n)
      then show ?thesis unfolding we by (intro p_part_deadI) (simp_all add: set_connected_effect)
    qed
    with forward(2,3) st show ?thesis by (intro exI [of _ "Suc k"]) (simp add:)
  qed
qed

text \<open>The side of a querier that has lost its connection: \<open>n\<close> answers were returned, then \<open>m\<close> times \<open>None\<close>.\<close>

definition in_time :: "nat \<Rightarrow> nat \<Rightarrow> nat \<Rightarrow> pystr option" where
  "in_time n m c = (if m = 0 \<and> n < c then Some (answer n) else None)"

definition q_lost :: "nat \<Rightarrow> nat \<Rightarrow> nat \<Rightarrow> ('u, 'w, 'v) rpc \<Rightarrow> bool" where
  "q_lost n m c s \<longleftrightarrow> \<not> connected (KLquerier (rpc_q s)) \<and>
     q_appID (rpc_q s) = q_appID q0 \<and> q_openSocketID (rpc_q s) = q_openSocketID q0 \<and>
     rpc_done s = map (\<lambda>a. Inr (Some a)) (take n (replies g ds w)) @ replicate m (Inr None) \<and>
     set (rpc_todo s) \<subseteq> set ds \<and> lost_call (set ds) (in_time n m c) (rpc_call s) (rpc_q s)"

lemma q_lost_mono:
  assumes "q_lost n m c s" and "c \<le> c'"
  shows "q_lost n m c' s"
proof -
  have "in_time n m c = None \<or> in_time n m c = in_time n m c'" using assms(2) by (auto simp: in_time_def)
  then have "lost_call D (in_time n m c) x q \<Longrightarrow> lost_call D (in_time n m c') x q" for D x and q :: "('u, 'v) open_socket_querier"
    by (cases "(D, in_time n m c, x, q)" rule: lost_call.cases) auto
  with assms(1) show ?thesis by (simp add: q_lost_def)
qed

lemma q_lost_cong:
  "q_lost n m c s \<Longrightarrow> rpc_q s' = rpc_q s \<Longrightarrow> rpc_done s' = rpc_done s \<Longrightarrow> rpc_todo s' = rpc_todo s \<Longrightarrow> rpc_call s' = rpc_call s \<Longrightarrow>
   q_lost n m c s'"
  by (simp add: q_lost_def)

lemma encodable: "d \<in> set ds \<Longrightarrow> q_appID q = q_appID q0 \<Longrightarrow> q_openSocketID q = q_openSocketID q0 \<Longrightarrow> q_encodable q d"
  using broker same_ids [of q d] by (simp add: broker_ok_def q_sendable_def)

lemma q_lost_returned:
  assumes "q_lost n m c s" and "rpc_call s = Some (Q_returned x)" and "n \<le> c" and "c \<le> length ds"
  shows "\<exists>n' m'. n \<le> n' \<and> n' \<le> c \<and> q_lost n' m' c (s\<lparr>rpc_call := None, rpc_done := rpc_done s @ [x]\<rparr>)"
proof (cases "x = Inr None")
  case True
  with assms show ?thesis by (intro exI [of _ n] exI [of _ "Suc m"]) (simp add: q_lost_def flip: replicate_append_same)
next
  case False
  with assms(1,2) have x: "m = 0" "n < c" "x = Inr (Some (answer n))" by (auto simp: q_lost_def in_time_def split: if_splits)
  then have "take (Suc n) (replies g ds w) = take n (replies g ds w) @ [answer n]"
    using assms(4) by (simp add: take_Suc_conv_app_nth)
  with assms x show ?thesis by (intro exI [of _ "Suc n"] exI [of _ 0]) (simp add: q_lost_def)
qed

lemma q_lost_caller:
  assumes "q_lost n m c s" and "n \<le> c" and "c \<le> length ds"
  shows "\<exists>n' m'. n \<le> n' \<and> n' \<le> c \<and> q_lost n' m' c (caller_step r s)"
proof (cases "rpc_call s")
  case None
  with assms(1,2) show ?thesis
    by (intro exI [of _ n] exI [of _ m]) (auto simp: caller_step_def q_lost_def split: list.split)
next
  case (Some p)
  show ?thesis
  proof (cases p)
    case (Q_send d t)
    with Some assms(1) have "query_async r d (rpc_q s) = (Inr (), rpc_q s)"
      by (intro dead_query encodable) (simp_all add: q_lost_def)
    with assms(1,2) Some Q_send show ?thesis
      by (intro exI [of _ n] exI [of _ m]) (simp add: caller_step_def q_lost_def)
  next
    case (Q_returned x)
    with q_lost_returned [OF assms(1) _ assms(2,3)] Some show ?thesis by (simp add: caller_step_def)
  next
    case (Q_begin d t)
    with assms(1,2) Some show ?thesis
      by (intro exI [of _ n] exI [of _ m]) (simp add: caller_step_def q_lost_def query_begin_def)
  next
    case (Q_wait t)
    with assms(1,2) Some show ?thesis
      by (intro exI [of _ n] exI [of _ m]) (simp add: caller_step_def q_lost_def)
  next
    case (Q_end b)
    with assms(1,2) Some show ?thesis
      by (intro exI [of _ n] exI [of _ m]) (auto simp: caller_step_def q_lost_def query_end_def Let_def)
  qed
qed

lemma q_lost_close: "q_lost n m c s \<Longrightarrow> q_lost n m c (s\<lparr>rpc_q := q_disconnect (rpc_q s)\<rparr>)"
  by (cases "(set ds, in_time n m c, rpc_call s, rpc_q s)" rule: lost_call.cases)
    (auto simp: q_lost_def q_disconnect_def disconnect_effect Let_def)

lemma caller_keeps:
  assumes "q_lost n m c s"
  shows "KLquerier (rpc_q (caller_step r s)) = KLquerier (rpc_q s)" "rpc_p (caller_step r s) = rpc_p s"
    "rpc_to_p (caller_step r s) = rpc_to_p s" "rpc_count (caller_step r s) = rpc_count s" "rpc_read_q (caller_step r s) = rpc_read_q s"
proof -
  have "query_async r d (rpc_q s) = (Inr (), rpc_q s)" if "rpc_call s = Some (Q_send d t)" for d t
    using assms that by (intro dead_query encodable) (simp_all add: q_lost_def)
  then show "KLquerier (rpc_q (caller_step r s)) = KLquerier (rpc_q s)" "rpc_p (caller_step r s) = rpc_p s"
    "rpc_to_p (caller_step r s) = rpc_to_p s" "rpc_count (caller_step r s) = rpc_count s" "rpc_read_q (caller_step r s) = rpc_read_q s"
    by (auto simp: caller_step_def query_begin_def query_end_def Let_def split: option.split qpc.split list.split)
qed

text \<open>The system after the querier has lost its connection.\<close>

definition after_q :: "('u, 'w, 'v) rpc \<Rightarrow> bool" where
  "after_q s \<longleftrightarrow> (\<exists>n m c e. q_lost n m c s \<and> p_part c e s \<and> n \<le> c \<and> c \<le> e \<and> e \<le> Suc n \<and> e \<le> length ds)"

lemma after_qI:
  "q_lost n m c s \<Longrightarrow> p_part c e s \<Longrightarrow> n \<le> c \<Longrightarrow> c \<le> e \<Longrightarrow> e \<le> Suc n \<Longrightarrow> e \<le> length ds \<Longrightarrow> after_q s"
  unfolding after_q_def by blast

lemma p_part_le: "p_part c e s \<Longrightarrow> c \<le> e"
  by (erule p_partE) (auto simp: handled_eq)

lemma after_q_caller:
  assumes "after_q s"
  shows "after_q (caller_step r s)"
proof -
  obtain n m c e where a: "q_lost n m c s" "p_part c e s" "n \<le> c" "c \<le> e" "e \<le> Suc n" "e \<le> length ds"
    using assms unfolding after_q_def by blast
  obtain n' m' where "n \<le> n'" "n' \<le> c" "q_lost n' m' c (caller_step r s)"
    using q_lost_caller [OF a(1,3)] a(4,6) by (meson order_trans)
  moreover have "p_part c e (caller_step r s)"
    using caller_keeps [OF a(1), of r] by (intro p_part_cong [OF a(2)]) simp_all
  ultimately show ?thesis using a(4-6) by (intro after_qI [of n' m' c _ e]) simp_all
qed

lemma after_q_other:
  assumes "after_q s" and "rpc_q s' = rpc_q s" "rpc_done s' = rpc_done s" "rpc_todo s' = rpc_todo s" "rpc_call s' = rpc_call s"
    and "\<And>c e. p_part c e s \<Longrightarrow> \<exists>c'. c \<le> c' \<and> p_part c' e s'"
  shows "after_q s'"
proof -
  obtain n m c e where a: "q_lost n m c s" "p_part c e s" "n \<le> c" "c \<le> e" "e \<le> Suc n" "e \<le> length ds"
    using assms(1) unfolding after_q_def by blast
  obtain c' where c': "c \<le> c'" "p_part c' e s'" using assms(6) [OF a(2)] by blast
  have "q_lost n m c' s'" by (rule q_lost_cong [OF q_lost_mono [OF a(1) c'(1)] assms(2-5)])
  with a c' p_part_le [OF c'(2)] show ?thesis by (intro after_qI [of n m c' _ e]) simp_all
qed

lemma after_q_dead: "after_q s \<Longrightarrow> \<not> connected (KLquerier (rpc_q s))"
  by (auto simp: after_q_def q_lost_def)

lemma after_q_cut_p:
  assumes "after_q s" and "\<not> connected (KLresponser p)" and "resp_app p = resp_app (rpc_p s)"
  shows "after_q (s\<lparr>rpc_p := p\<rparr>)"
  by (rule after_q_other [OF assms(1)]) (use p_part_dead [OF _ assms(2,3)] in auto)

text \<open>The steps of the broker and of the responser.\<close>

lemma far_step_keeps:
  assumes "actor ev \<in> {1, 2, 3, 4}"
  shows "rpc_q (step ev s) = rpc_q s" "rpc_done (step ev s) = rpc_done s" "rpc_todo (step ev s) = rpc_todo s"
    "rpc_call (step ev s) = rpc_call s"
  using assms by (cases ev; auto split: frame_result.split option.split)+

lemma p_far_step:
  assumes "actor ev \<in> {1, 2, 3, 4}" and "p_part c e s"
  shows "\<exists>c'. c \<le> c' \<and> p_part c' e (step ev s)"
proof (cases ev)
  case Rpc_reply
  have "p_part c e (step ev s)" by (rule p_part_cong [OF assms(2)]) (simp_all add: Rpc_reply split: frame_result.split)
  then show ?thesis by blast
next
  case Rpc_work
  with p_work [OF assms(2)] show ?thesis by simp
qed (use assms p_request p_to_p in \<open>auto simp del: rpc_exec.simps\<close>)

lemma after_q_rpc_step:
  assumes "after_q s"
  shows "after_q (step ev s)"
proof (cases "actor ev \<in> {1, 2, 3, 4}")
  case True
  show ?thesis by (rule after_q_other [OF assms far_step_keeps [OF True] p_far_step [OF True]])
next
  case False
  then consider "ev = Rpc_caller" | n where "ev = Rpc_to_q n" by (cases ev) auto
  then show ?thesis
  proof cases
    case 1
    with after_q_caller [OF assms] show ?thesis by simp
  next
    case 2
    then have s': "step ev s = s\<lparr>rpc_to_q := drop (Suc n) (rpc_to_q s)\<rparr>" by (simp add: dead_q [OF after_q_dead [OF assms]])
    have "p_part c e (step ev s)" if "p_part c e s" for c e by (rule p_part_cong [OF that]) (simp_all add: s')
    then show ?thesis by (intro after_q_other [OF assms]) (auto simp: s')
  qed
qed

lemma after_q_close:
  assumes "after_q s"
  shows "after_q (s\<lparr>rpc_q := q_disconnect (rpc_q s)\<rparr>)"
proof -
  obtain n m c e where a: "q_lost n m c s" "p_part c e s" "n \<le> c" "c \<le> e" "e \<le> Suc n" "e \<le> length ds"
    using assms unfolding after_q_def by blast
  have "p_part c e (s\<lparr>rpc_q := q_disconnect (rpc_q s)\<rparr>)"
    by (rule p_part_cong [OF a(2)]) (simp_all add: q_disconnect_def disconnect_effect Let_def)
  from after_qI [OF q_lost_close [OF a(1)] this a(3-6)] show ?thesis .
qed

lemma after_q_step:
  assumes "after_q s"
  shows "after_q (fault ev s)"
proof (cases ev)
  case (F_step ev')
  with after_q_rpc_step [OF assms, of ev'] show ?thesis by (simp only: fault_exec.simps)
next
  case (F_call n)
  with after_q_caller [OF assms] show ?thesis by simp
next
  case (F_work n)
  show ?thesis unfolding F_work fault_exec.simps by (intro after_q_other [OF assms]) (use p_work in simp_all)
next
  case (F_lost_q eof)
  with assms show ?thesis by (simp add: dead_q [OF after_q_dead [OF assms]])
next
  case (F_lost_p eof)
  show ?thesis
  proof (cases "serving (rpc_p s)")
    case True
    with F_lost_p after_q_cut_p [OF assms] show ?thesis by (simp add: lost_p set_connected_effect)
  next
    case False
    with assms have "\<not> connected (KLresponser (rpc_p s))" by (auto simp: after_q_def p_forward_def elim: p_partE)
    with F_lost_p assms show ?thesis by (simp add: dead_p(1))
  qed
next
  case F_close_q
  with after_q_close [OF assms] show ?thesis by simp
next
  case F_close_p
  with after_q_cut_p [OF assms] show ?thesis by (simp add: resp_disconnect_def disconnect_effect)
qed

section \<open>A querier at work and a responser that is gone\<close>

text \<open>
  The responser has handled \<open>c\<close> requests and does no more.  An answer may still be on its
  way back; if there is none, the querier waits for ever.
\<close>

definition p_lost :: "nat \<Rightarrow> stage \<Rightarrow> nat \<Rightarrow> ('u, 'w, 'v) rpc \<Rightarrow> bool" where
  "p_lost k st c s \<longleftrightarrow>
     listening (rpc_q s) \<and> q_appID (rpc_q s) = q_appID q0 \<and> q_openSocketID (rpc_q s) = q_openSocketID q0 \<and>
     \<not> connected (KLresponser (rpc_p s)) \<and> resp_app (rpc_p s) = state_after g (take c ds) w \<and>
     k \<le> c \<and> c \<le> Suc k \<and> c \<le> length ds \<and> (st \<in> {Answered, Returning, Arrived, Returned} \<longrightarrow> c = Suc k) \<and>
     rpc_done s = map (\<lambda>a. Inr (Some a)) (take k (replies g ds w)) \<and>
     (if st = Answered then \<exists>i. unread (rpc_read_p s) (KLresponser (rpc_p s)) = frame (keyed_msg (key i) (answer k))
      else next_frame 16777216 (unread (rpc_read_p s) (KLresponser (rpc_p s))) = Incomplete) \<and>
     buffer (KLquerier (rpc_q s)) @ rpc_to_q s = (if st = Returning then frame (utf8_bytes (answer k)) else []) \<and>
     (st = Returning \<longrightarrow> rpc_to_q s \<noteq> []) \<and> call_at g w ds k st s"

text \<open>When the querier loses its connection as well, or first.\<close>

lemma lost_pending:
  assumes "call_at g w ds k st s" and "c = k \<or> c = Suc k" and "st \<in> {Arrived, Returned} \<longrightarrow> c = Suc k"
    and "query_result q' = query_result (rpc_q s)"
  shows "set (rpc_todo s) \<subseteq> set ds \<and> lost_call (set ds) (in_time k 0 c) (rpc_call s) q'"
proof -
  have "set (rpc_todo s) \<subseteq> set ds" using assms(1) set_drop_subset [of _ ds] unfolding call_at_def by metis
  moreover from assms(1) have "lost_call (set ds) (in_time k 0 c) (rpc_call s) q'"
    by (cases rule: call_at_cases) (use assms(2-4) in \<open>simp_all add: box_def in_time_def\<close>)
  ultimately show ?thesis ..
qed

definition safe :: "('u, 'w, 'v) rpc \<Rightarrow> bool" where
  "safe s \<longleftrightarrow> (\<exists>k st. at k st s) \<or> (\<exists>k st c. p_lost k st c s) \<or> after_q s"

lemma safeI:
  "at k st s \<Longrightarrow> safe s" "p_lost k st c s \<Longrightarrow> safe s" "after_q s \<Longrightarrow> safe s"
  unfolding safe_def by blast+

text \<open>What \<^verbatim>\<open>disconnect\<close> and a lost connection do to a querier.\<close>

definition cut :: "('u, 'v) open_socket_querier \<Rightarrow> ('u, 'v) open_socket_querier \<Rightarrow> bool" where
  "cut q q' \<longleftrightarrow> \<not> connected (KLquerier q') \<and> q_appID q' = q_appID q \<and> q_openSocketID q' = q_openSocketID q \<and>
     query_result q' = query_result q \<and> (\<forall>n. unread n (KLquerier q') = unread n (KLquerier q))"

lemma cut_q: "cut q (KLquerier_update (set_connected False) q)" "cut q (q_disconnect q)"
  by (simp_all add: cut_def q_disconnect_def dead_simps Let_def)

lemma p_lost_cut:
  assumes "p_lost k st c s" and "cut (rpc_q s) q'"
  shows "after_q (s\<lparr>rpc_q := q'\<rparr>)"
proof (rule after_qI [of k 0 c _ c])
  have "set (rpc_todo s) \<subseteq> set ds \<and> lost_call (set ds) (in_time k 0 c) (rpc_call s) q'"
    using assms by (intro lost_pending) (auto simp: p_lost_def cut_def)
  with assms show "q_lost k 0 c (s\<lparr>rpc_q := q'\<rparr>)" by (auto simp: q_lost_def p_lost_def cut_def)
  show "p_part c c (s\<lparr>rpc_q := q'\<rparr>)" using assms(1) by (intro p_part_deadI) (simp_all add: p_lost_def)
qed (use assms(1) in \<open>simp_all add: p_lost_def\<close>)

lemma at_forward:
  assumes "at k st s"
  shows "p_forward k (if st \<in> {Arrived, Returned} then Returning else st) s"
  using assms by (cases st) (auto simp: at_defs p_forward_def next_frame_Nil)

lemma at_cut:
  assumes "at k st s" and "cut (rpc_q s) q'"
  shows "after_q (s\<lparr>rpc_q := q'\<rparr>)"
proof (rule after_qI [of k 0 "handled k st" _ "if st = Calling then k else Suc k"])
  have "p_part (handled k st) (if st = Calling then k else Suc k) s"
    by (rule p_part_forward [OF at_forward [OF assms(1)]]) (auto simp: handled_eq)
  then show "p_part (handled k st) (if st = Calling then k else Suc k) (s\<lparr>rpc_q := q'\<rparr>)"
    by (rule p_part_cong) (use assms(2) in \<open>simp_all add: cut_def\<close>)
  have "set (rpc_todo s) \<subseteq> set ds \<and> lost_call (set ds) (in_time k 0 (handled k st)) (rpc_call s) q'"
    using assms by (intro lost_pending) (auto simp: rpc_at_def handled_eq cut_def)
  with assms show "q_lost k 0 (handled k st) (s\<lparr>rpc_q := q'\<rparr>)" by (auto simp: q_lost_def at_defs cut_def)
qed (use assms(1) in \<open>auto simp: at_defs handled_eq\<close>)

section \<open>Every step is safe\<close>

lemma at_cut_p:
  assumes "at k st s" and "\<not> connected (KLresponser p)" and "resp_app p = resp_app (rpc_p s)"
    and "\<And>n. unread n (KLresponser p) = unread n (KLresponser (rpc_p s))"
  shows "p_lost k st (handled k st) (s\<lparr>rpc_p := p\<rparr>)"
  using assms by (cases st) (auto simp: at_defs p_lost_def next_frame_Nil)

text \<open>The worker answers request \<open>k\<close> and loses its connection.\<close>

lemma at_work_fails:
  assumes "at k st s"
  shows "safe (fault (F_work n) s)"
proof (cases "st = Queued")
  case False
  then have "process_queue_step (resp_app_user g) (Send_Fail n) (rpc_p s) = (Continue, rpc_p s)"
    using assms by (simp add: at_defs process_queue_step_def serving_def online_def)
  with assms safeI(1) show ?thesis by simp
next
  case st: True
  let ?p = "rpc_p s" and ?i = "rpc_count s - 1"
  have k: "k < length ds" using at_busy [OF assms] st by simp
  let ?fr = "frame (keyed_msg (key ?i) (answer k))"
  have p: "serving ?p" "resp_data_queue ?p = [(ds ! k, key ?i)]" "resp_app ?p = state_after g (take k ds) w"
    and u: "unread (rpc_read_p s) (KLresponser ?p) = []" "rpc_read_p s \<le> length (sk_sent (tcp_socket (KLresponser ?p)))"
    using assms by (auto simp: at_defs st)
  have s': "fault (F_work n) s = s\<lparr>rpc_p := ?p\<lparr>resp_data_queue := [], resp_unfinished := 0, resp_app := state_after g (take (Suc k) ds) w,
       KLresponser := set_connected False (add_sent (take n ?fr) (KLresponser ?p))\<rparr>\<rparr>"
    using work_effect [OF p k, of "Send_Fail n"] by simp
  have un: "unread (rpc_read_p s) (set_connected False (add_sent (take n ?fr) (KLresponser ?p))) = take n ?fr"
    using u by (simp add: set_connected_effect unread_simps)
  from part_of_frame [OF request_valid(3) [OF k], of n ?i] show ?thesis
  proof
    assume "take n ?fr = ?fr"
    with un assms k have "p_lost k Answered (Suc k) (fault (F_work n) s)"
      unfolding s' by (auto simp: at_defs p_lost_def st set_connected_effect)
    then show ?thesis by (rule safeI)
  next
    assume "next_frame 16777216 (take n ?fr) = Incomplete"
    with un assms k have "p_lost k Queued (Suc k) (fault (F_work n) s)"
      unfolding s' by (auto simp: at_defs p_lost_def st set_connected_effect)
    then show ?thesis by (rule safeI)
  qed
qed

text \<open>A send of the caller that fails.\<close>

lemma caller_step_same:
  assumes "\<nexists>d t. rpc_call s = Some (Q_send d t)"
  shows "caller_step r s = caller_step r' s"
  using assms by (auto simp: caller_step_def split: option.split qpc.split)

lemma caller_fails:
  assumes "listening (rpc_q s)" and "q_appID (rpc_q s) = q_appID q0" and "q_openSocketID (rpc_q s) = q_openSocketID q0"
    and "k < length ds" and "rpc_call s = Some (Q_send (ds ! k) False)"
  shows "caller_step (Send_Fail n) s = s\<lparr>rpc_call := Some (Q_wait False), rpc_q := (rpc_q s)\<lparr>KLquerier :=
     set_connected False (add_sent (take n (frame (query_msg q0 (ds ! k)))) (KLquerier (rpc_q s)))\<rparr>\<rparr>"
  using listening_sends [OF assms(1-4), of "Send_Fail n"] assms(5) by (simp add: caller_step_def)

lemma lost_send:
  assumes "listening (rpc_q s)" and "q_appID (rpc_q s) = q_appID q0" and "q_openSocketID (rpc_q s) = q_openSocketID q0"
    and "k < length ds" and "rpc_call s = Some (Q_send (ds ! k) False)" and "box (rpc_q s) None"
    and "rpc_todo s = drop (Suc k) ds" and "rpc_done s = map (\<lambda>a. Inr (Some a)) (take k (replies g ds w))"
  shows "q_lost k 0 c (caller_step (Send_Fail n) s)"
proof -
  have "set (drop (Suc k) ds) \<subseteq> set ds" by (rule set_drop_subset)
  with assms(2,3,6-8) show ?thesis unfolding caller_fails [OF assms(1-5)]
    by (simp add: q_lost_def set_connected_effect box_def)
qed

lemma at_send_fails:
  assumes "at k Calling s" and "rpc_call s = Some (Q_send (ds ! k) False)" and "k < length ds" and "box (rpc_q s) None"
  shows "after_q (caller_step (Send_Fail n) s)"
proof -
  let ?q = "rpc_q s" and ?fr = "frame (query_msg q0 (ds ! k))"
  have q: "listening ?q" "q_appID ?q = q_appID q0" "q_openSocketID ?q = q_openSocketID q0" using assms(1) by (simp_all add: at_defs)
  have rest: "rpc_todo s = drop (Suc k) ds" "rpc_done s = map (\<lambda>a. Inr (Some a)) (take k (replies g ds w))"
    using assms(1,2) by (auto simp: at_defs)
  have un: "unread (rpc_read_q s) (set_connected False (add_sent x (KLquerier ?q))) = x" for x
    using assms(1) by (simp add: at_defs set_connected_effect unread_simps)
  note s' = caller_fails [OF q assms(3,2), of n]
  define st where "st = (if take n ?fr = ?fr then Asked else Calling)"
  have "p_forward k st (caller_step (Send_Fail n) s)"
    using assms(1,3) part_of_frame [OF request_valid(1) [OF assms(3)], of n] un
    unfolding s' st_def by (auto simp: at_defs p_forward_def)
  then have "p_part k (if st = Calling then k else Suc k) (caller_step (Send_Fail n) s)"
    by (rule p_part_forward) (simp_all add: st_def)
  with lost_send [OF q assms(3,2,4) rest] show ?thesis
    by (rule after_qI) (use assms(3) in simp_all)
qed

lemma at_caller_fails:
  assumes "at k st s"
  shows "safe (fault (F_call n) s)"
proof (cases "\<exists>d t. rpc_call s = Some (Q_send d t)")
  case False
  then have "fault (F_call n) s = step Rpc_caller s" using caller_step_same [of s "Send_Fail n" Send_Ok] by simp
  with at_step [OF assms, of Rpc_caller] safeI(1) show ?thesis by auto
next
  case True
  have "call_at g w ds k st s" using assms by (simp add: rpc_at_def)
  then have c: "rpc_call s = Some (Q_send (ds ! k) False)" "st = Calling" "k < length ds" "box (rpc_q s) None"
    by (cases rule: call_at_cases; use True in auto)+
  with at_send_fails [of k s n] assms safeI(3) show ?thesis by simp
qed

lemma p_lost_sends:
  assumes "p_lost k Calling c s" and "rpc_call s = Some (Q_send (ds ! k) False)" and "k < length ds" and "box (rpc_q s) None"
  shows "safe (caller_step r s)"
proof -
  have q: "listening (rpc_q s)" "q_appID (rpc_q s) = q_appID q0" "q_openSocketID (rpc_q s) = q_openSocketID q0"
    and res: "rpc_done s = map (\<lambda>a. Inr (Some a)) (take k (replies g ds w))" and todo: "rpc_todo s = drop (Suc k) ds"
    using assms(1,2) by (auto simp: p_lost_def call_at_def)
  show ?thesis
  proof (cases r)
    case Send_Ok
    with listening_sends [OF q assms(3), of r] assms todo show ?thesis
      by (intro safeI(2) [of k Asked c]) (simp add: caller_step_def p_lost_def call_at_def listening_fields unread_simps)
  next
    case (Send_Fail n)
    have "p_part c c (caller_step (Send_Fail n) s)"
      using assms(1) unfolding caller_fails [OF q assms(3,2)] by (intro p_part_deadI) (simp_all add: p_lost_def)
    with lost_send [OF q assms(3,2,4) todo res] assms(1) show ?thesis
      unfolding Send_Fail by (intro safeI(3) after_qI [of k 0 c _ c]) (simp_all add: p_lost_def)
  qed
qed

lemma p_lost_caller:
  assumes "p_lost k st c s"
  shows "safe (caller_step r s)"
proof -
  have "call_at g w ds k st s" using assms by (simp add: p_lost_def)
  note defs = caller_step_def p_lost_def call_at_def
  from \<open>call_at g w ds k st s\<close> show ?thesis
  proof (cases rule: call_at_cases)
    case between
    show ?thesis
    proof (cases "rpc_todo s")
      case Nil
      with between assms show ?thesis by (intro safeI(2) [of k st c]) (simp add: caller_step_def)
    next
      case (Cons d ds')
      then have "d = ds ! k" "ds' = drop (Suc k) ds" "k < length ds" using between(3) drop_Cons_nth [of k ds d ds'] by simp_all
      then have "p_lost k Calling c (s\<lparr>rpc_call := Some (Q_begin d False), rpc_todo := ds'\<rparr>)"
        using assms between(2) by (simp add: p_lost_def call_at_def)
      with Cons between(1) safeI(2) show ?thesis by (simp add: caller_step_def)
    qed
  next
    case begins
    from begins assms show ?thesis by (intro safeI(2) [of k Calling c]) (simp add: defs listening_fields query_begin_ids)
  next
    case sends
    with p_lost_sends [of k c s r] assms show ?thesis by simp
  next
    case waits
    then have "caller_step r s = s" by (simp add: caller_step_def box_def)
    with assms safeI(2) show ?thesis by simp
  next
    case woken
    with assms show ?thesis by (intro safeI(2) [of k Arrived c]) (simp add: defs box_def)
  next
    case ends
    with assms show ?thesis
      by (intro safeI(2) [of k Returned c]) (simp add: defs box_def query_end_def Let_def listening_fields)
  next
    case returned
    with assms show ?thesis
      by (intro safeI(2) [of "Suc k" Calling c]) (auto simp: defs take_Suc_conv_app_nth)
  qed
qed

lemma p_lost_reply:
  assumes "p_lost k st c s"
  shows "safe (step Rpc_reply s)"
proof (cases "st = Answered")
  case False
  with assms have "step Rpc_reply s = s" by (simp add: p_lost_def)
  with assms safeI(2) show ?thesis by simp
next
  case st: True
  obtain i where fr: "unread (rpc_read_p s) (KLresponser (rpc_p s)) = frame (keyed_msg (key i) (answer k))"
    using assms by (auto simp: p_lost_def st)
  have k: "k < length ds" using assms by (simp add: p_lost_def st)
  let ?m = "keyed_msg (key i) (answer k)"
  have "next_frame 16777216 (unread (rpc_read_p s) (KLresponser (rpc_p s))) = Frame ?m []"
    using fr next_frame_frame [OF _ request_valid(3) [OF k, of i], of "[]"] by simp
  then have s': "step Rpc_reply s = s\<lparr>rpc_read_p := rpc_read_p s + length (frame ?m),
      rpc_to_q := rpc_to_q s @ frame (utf8_bytes (answer k))\<rparr>"
    using request_facts(6) [OF k] by simp
  have "p_lost k Returning c (step Rpc_reply s)"
    unfolding s' using assms fr by (auto simp: p_lost_def st unread_simps next_frame_Nil call_at_def)
  then show ?thesis by (rule safeI)
qed

lemma p_lost_to_q:
  assumes "p_lost k st c s"
  shows "safe (step (Rpc_to_q n) s)"
proof (cases "st = Returning")
  case False
  with assms have "step (Rpc_to_q n) s = s" by (simp add: p_lost_def)
  with assms safeI(2) show ?thesis by simp
next
  case st: True
  let ?q = "rpc_q s" and ?rest = "drop (Suc n) (rpc_to_q s)"
  have k: "k < length ds" and ls: "listening ?q" and fr: "buffer (KLquerier ?q) @ rpc_to_q s = frame (utf8_bytes (answer k))"
    and ne: "rpc_to_q s \<noteq> []" and bx: "box ?q None"
    using assms by (auto simp: p_lost_def st call_at_def)
  obtain q' where q': "q_receive (q_app_user f) [Recv_Data (take (Suc n) (rpc_to_q s))] ?q = Some (Continue, q')" "listening q'"
      "box q' (if ?rest = [] then Some (answer k) else None)" "q_appID q' = q_appID ?q" "q_openSocketID q' = q_openSocketID ?q"
      "KLquerier q' = (KLquerier ?q)\<lparr>buffer := (if ?rest = [] then [] else buffer (KLquerier ?q) @ take (Suc n) (rpc_to_q s))\<rparr>"
    by (rule answer_piece [OF ls bx request_facts(5) [OF k] fr ne])
  have s': "step (Rpc_to_q n) s = s\<lparr>rpc_q := q', rpc_to_q := ?rest\<rparr>" using q'(1) ne by simp
  have "p_lost k (if ?rest = [] then Arrived else Returning) c (step (Rpc_to_q n) s)"
    unfolding s' using assms q'(2-6) fr by (cases "?rest = []") (auto simp: p_lost_def st call_at_def)
  then show ?thesis by (rule safeI)
qed

lemma p_lost_safe:
  assumes "p_lost k st c s"
  shows "safe (fault ev s)"
proof -
  have dead: "\<not> connected (KLresponser (rpc_p s))" and ls: "listening (rpc_q s)" using assms by (simp_all add: p_lost_def)
  have same: "safe s'" if "rpc_q s' = rpc_q s" "rpc_call s' = rpc_call s" "rpc_todo s' = rpc_todo s" "rpc_done s' = rpc_done s"
      "rpc_to_q s' = rpc_to_q s" "rpc_read_p s' = rpc_read_p s" "\<not> connected (KLresponser (rpc_p s'))"
      "resp_app (rpc_p s') = resp_app (rpc_p s)" "\<And>n. unread n (KLresponser (rpc_p s')) = unread n (KLresponser (rpc_p s))" for s'
  proof (rule safeI(2) [of k st c])
    show "p_lost k st c s'"
      using assms that(7) unfolding p_lost_def call_at_def that(1-6,8,9) by (elim conjE) (intro conjI; assumption)
  qed
  show ?thesis
  proof (cases ev)
    case (F_step ev')
    show ?thesis
    proof (cases ev')
      case Rpc_caller
      with F_step p_lost_caller [OF assms] show ?thesis by simp
    next
      case Rpc_reply
      with F_step p_lost_reply [OF assms] show ?thesis by simp
    next
      case (Rpc_to_q n)
      with p_lost_to_q [OF assms, of n] show ?thesis by (simp only: F_step fault_exec.simps)
    qed (rule same; simp add: F_step dead dead_p split: frame_result.split)+
  next
    case (F_call n)
    with p_lost_caller [OF assms] show ?thesis by simp
  next
    case (F_lost_q eof)
    with p_lost_cut [OF assms cut_q(1)] safeI(3) show ?thesis by (simp add: lost_q [OF ls])
  next
    case F_close_q
    with p_lost_cut [OF assms cut_q(2)] safeI(3) show ?thesis by simp
  qed (rule same; simp add: dead dead_p resp_disconnect_def disconnect_effect)+
qed

lemma at_safe:
  assumes "at k st s"
  shows "safe (fault ev s)"
proof -
  have ls: "listening (rpc_q s)" and sv: "serving (rpc_p s)" using assms by (simp_all add: at_defs)
  show ?thesis
  proof (cases ev)
    case (F_step ev')
    with at_step [OF assms, of ev'] safeI(1) show ?thesis by (auto simp del: rpc_exec.simps)
  next
    case (F_call n)
    with at_caller_fails [OF assms] show ?thesis by simp
  next
    case (F_work n)
    with at_work_fails [OF assms] show ?thesis by (simp only:)
  next
    case (F_lost_q eof)
    with at_cut [OF assms cut_q(1)] safeI(3) show ?thesis by (simp add: lost_q [OF ls])
  next
    case F_close_q
    with at_cut [OF assms cut_q(2)] safeI(3) show ?thesis by simp
  next
    case (F_lost_p eof)
    with safeI(2) [OF at_cut_p [OF assms, of "KLresponser_update (set_connected False) (rpc_p s)"]] show ?thesis
      by (simp add: lost_p [OF sv] set_connected_effect)
  next
    case F_close_p
    with safeI(2) [OF at_cut_p [OF assms, of "resp_disconnect (rpc_p s)"]] show ?thesis
      by (simp add: resp_disconnect_def disconnect_effect)
  qed
qed

lemma safe_step: "safe s \<Longrightarrow> safe (fault ev s)"
  using at_safe p_lost_safe after_q_step safeI(3) unfolding safe_def by blast

lemma safe_run: "safe s \<Longrightarrow> safe (fold fault evs s)"
  by (induction evs arbitrary: s) (auto simp del: fault_exec.simps intro: safe_step)

text \<open>What a safe state says of the results and of the application.\<close>

lemma safe_results:
  assumes "safe s"
  shows "\<exists>n m j. rpc_done s = map (\<lambda>a. Inr (Some a)) (take n (replies g ds w)) @ replicate m (Inr None) \<and>
     resp_app (rpc_p s) = state_after g (take j ds) w \<and> n \<le> j \<and> j \<le> Suc n \<and> j \<le> length ds"
proof -
  from assms consider (at) k st where "at k st s" | (lost) k st c where "p_lost k st c s" | (cut) "after_q s"
    unfolding safe_def by blast
  then show ?thesis
  proof cases
    case at
    then have "call_at g w ds k st s" by (simp only: rpc_at_def)
    then have "k \<le> length ds \<and> (st \<noteq> Calling \<longrightarrow> k < length ds)" by (cases rule: call_at_cases) auto
    with at show ?thesis
      by (intro exI [of _ k] exI [of _ 0] exI [of _ "handled k st"]) (cases st; simp add: rpc_at_def)
  next
    case lost
    then show ?thesis by (intro exI [of _ k] exI [of _ 0] exI [of _ c]) (simp add: p_lost_def)
  next
    case cut
    then obtain n m c e where a: "q_lost n m c s" "p_part c e s" "n \<le> c" "c \<le> e" "e \<le> Suc n" "e \<le> length ds"
      unfolding after_q_def by blast
    from a(2) have "resp_app (rpc_p s) = state_after g (take c ds) w" by (cases rule: p_partE) (simp_all add: p_forward_def)
    with a show ?thesis by (intro exI [of _ n] exI [of _ m] exI [of _ c]) (simp add: q_lost_def)
  qed
qed

end

section \<open>At most once\<close>


end
