(* ===== verification/KL_IntegrationTests.thy ===== *)
theory KL_IntegrationTests
  imports KL_RpcFaults KL_SignalPath
begin

text \<open>
  The looping integration tests under \<^verbatim>\<open>tests/integration\<close>.
  \<^verbatim>\<open>test_request_response_integration_loop.py\<close> has a responser that echoes what it is sent and
  a querier that makes five queries one after the other, an instance of the system of
  \<^verbatim>\<open>KL_RpcSystem\<close>; \<^verbatim>\<open>test_signal_subscribe_integration_loop.py\<close> a sender that emits five signals
  and a subscriber that prints them, an instance of \<^verbatim>\<open>KL_SignalPath\<close>.
\<close>

section \<open>The programs\<close>

definition test_app :: pystr where
  "test_app = str_lit ''app.knotlinksdk.test''"

definition test_socket :: pystr where
  "test_socket = str_lit ''test_socket''"

text \<open>\<^verbatim>\<open>on_request\<close> prints a line and returns the echo; the state is what was printed.\<close>

definition on_request :: "pystr \<Rightarrow> pystr list \<Rightarrow> pystr \<times> pystr list" where
  "on_request data out = (str_lit ''Echo: '' @ data, out @ [str_lit ''[Responser] Received: '' @ data])"

definition test_responser :: "bool \<Rightarrow> send_result \<Rightarrow> unit res \<times> (unit, pystr list) open_socket_responser" where
  "test_responser ok r =
     (case new_open_socket_responser ok r test_app test_socket [] of
        (Inl e, s) \<Rightarrow> (Inl e, s)
      | (Inr _, s) \<Rightarrow> (Inr (), resp_set_RecvFunc (Some ()) s))"

definition test_querier :: "bool \<Rightarrow> (unit, unit) open_socket_querier" where
  "test_querier ok = new_open_socket_querier ok (Some test_app) (Some test_socket) ()"

text \<open>
  The texts of the loop, with a counter from 1 to 5.  An exception of a query is caught in the
  loop, so every text is asked.
\<close>

definition MAX_ITERATIONS :: nat where
  "MAX_ITERATIONS = 5"

fun decimal :: "nat \<Rightarrow> pystr" where
  "decimal n = (if n < 10 then [of_char CHR ''0'' + n] else decimal (n div 10) @ [of_char CHR ''0'' + n mod 10])"

definition test_requests :: "pystr list" where
  "test_requests = map (\<lambda>counter. str_lit ''Hello #'' @ decimal counter) [1..<Suc MAX_ITERATIONS]"

text \<open>The programs of the test of signals.\<close>

definition test_signal :: pystr where
  "test_signal = str_lit ''test_signal''"

definition on_received :: "pystr \<Rightarrow> pystr list \<Rightarrow> pystr list" where
  "on_received data out = out @ [str_lit ''[Subscriber] Received: '' @ data]"

definition test_subscriber :: "bool \<Rightarrow> send_result \<Rightarrow> unit res \<times> (unit, pystr list) signal_subscriber" where
  "test_subscriber ok r =
     (case new_signal_subscriber ok r test_app test_signal [] of
        (Inl e, s) \<Rightarrow> (Inl e, s)
      | (Inr _, s) \<Rightarrow> (Inr (), sub_set_RecvFunc (Some ()) s))"

definition test_sender :: "bool \<Rightarrow> signal_sender" where
  "test_sender ok = sender_set_config test_app test_signal (new_signal_sender ok None None)"

definition test_signals :: "pystr list" where
  "test_signals = map (\<lambda>counter. str_lit ''Signal #'' @ decimal counter) [1..<Suc MAX_ITERATIONS]"

section \<open>The request-reply test is an instance of the system\<close>

lemma test_requests_eq: "test_requests = [str_lit ''Hello #1'', str_lit ''Hello #2'', str_lit ''Hello #3'', str_lit ''Hello #4'', str_lit ''Hello #5'']"
  by (simp add: test_requests_def MAX_ITERATIONS_def upt_rec str_lit_def)

lemma test_replies:
  "replies on_request test_requests [] =
     [str_lit ''Echo: Hello #1'', str_lit ''Echo: Hello #2'', str_lit ''Echo: Hello #3'', str_lit ''Echo: Hello #4'', str_lit ''Echo: Hello #5'']"
  by (simp add: test_requests_eq on_request_def str_lit_def)

lemma test_ready: "rpc_ready (test_querier True) (snd (test_responser True Send_Ok))"
  and test_state: "resp_app (snd (test_responser True Send_Ok)) = []"
  by (simp_all add: rpc_ready_def listening_def serving_def online_def next_frame_def
      test_querier_def new_open_socket_querier_def q_init_def
      test_responser_def new_open_socket_responser_def resp_init_def resp_set_RecvFunc_def test_app_def test_socket_def
      encode_utf8_def topic_def dash_def str_lit_def is_surrogate_def send_data_def write_eq utf8_char_def
      connect_to_server_def sock_connect_def new_client_def new_socket_def client_simps)

lemma test_broker:
  "broker_ok on_request (\<lambda>n. sample_to_resp) sample_to_querier (\<lambda>n. str_lit ''7'') (test_querier True) [] test_requests"
proof -
  have "q_sendable (test_querier True) d \<and> good_request (d, str_lit ''7'') \<and>
      sample_to_resp (query_msg (test_querier True) d) = keyed_msg (str_lit ''7'') d" if "d \<in> set test_requests" for d
    using that
    by (auto simp: test_requests_eq test_querier_def new_open_socket_querier_def q_init_def q_sendable_def q_encodable_def query_msg_def
        good_request_def keyed_msg_def sample_to_resp_def test_app_def test_socket_def connect_to_server_def sock_connect_def new_client_def
        new_socket_def client_simps fstr_def topic_def dash_def str_lit_def is_surrogate_def is_scalar_def SEP_simps utf8_char_def)
  moreover have "good_answer a \<and> length (keyed_msg (str_lit ''7'') a) \<le> 16777216 \<and>
      sample_to_querier (keyed_msg (str_lit ''7'') a) = utf8_bytes a" if "a \<in> set (replies on_request test_requests [])" for a
    using that unfolding test_replies
    by (auto simp: good_answer_def keyed_msg_def sample_to_querier_def str_lit_def is_surrogate_def is_scalar_def SEP_simps utf8_char_def)
  ultimately show ?thesis unfolding broker_ok_def by blast
qed

interpretation loop_test: rpc_run on_request "\<lambda>t u. u" "\<lambda>n. sample_to_resp" sample_to_querier "\<lambda>n. str_lit ''7''"
    "test_querier True" "[]" test_requests
  by unfold_locales (rule test_broker)

section \<open>The tests run to their end\<close>

abbreviation test_exec :: "rpc_event \<Rightarrow> (unit, pystr list, unit) rpc \<Rightarrow> (unit, pystr list, unit) rpc" where
  "test_exec \<equiv> rpc_exec on_request (\<lambda>t u. u) (\<lambda>n. sample_to_resp) sample_to_querier"

abbreviation test_start :: "(unit, pystr list, unit) rpc" where
  "test_start \<equiv> rpc_start (test_querier True) (snd (test_responser True Send_Ok)) test_requests"

text \<open>Everybody in turn, with messages that arrive in pieces of four and five bytes.\<close>

definition test_sched :: "nat \<Rightarrow> rpc_event" where
  "test_sched i = [Rpc_caller, Rpc_request, Rpc_to_p 3, Rpc_work, Rpc_reply, Rpc_to_q 4] ! (i mod 6)"

primrec test_run :: "nat \<Rightarrow> (unit, pystr list, unit) rpc" where
  "test_run 0 = test_start"
| "test_run (Suc i) = test_exec (test_sched i) (test_run i)"

lemma test_sched_fair: "\<forall>c < 6. \<forall>i. \<exists>j \<ge> i. actor (test_sched j) = c"
proof (intro allI impI)
  fix c i :: nat
  assume "c < 6"
  then have "c \<in> {0, 1, 2, 3, 4, 5}" by auto
  then have "actor (test_sched (6 * i + c)) = c" by (auto simp: test_sched_def)
  then show "\<exists>j \<ge> i. actor (test_sched j) = c" by (intro exI [of _ "6 * i + c"]) simp
qed

theorem rpc_answers_in_order_witness:
  "rpc_done (fold test_exec (concat (replicate 9 [Rpc_caller, Rpc_request, Rpc_to_p 3, Rpc_work, Rpc_reply, Rpc_to_q 4])) test_start) =
   map (\<lambda>a. Inr (Some a)) (take (length (rpc_done (fold test_exec
     (concat (replicate 9 [Rpc_caller, Rpc_request, Rpc_to_p 3, Rpc_work, Rpc_reply, Rpc_to_q 4])) test_start)))
     (replies on_request test_requests []))"
  using rpc_answers_in_order [OF test_ready test_broker [folded test_state] refl,
      of "\<lambda>t u. u" "concat (replicate 9 [Rpc_caller, Rpc_request, Rpc_to_p 3, Rpc_work, Rpc_reply, Rpc_to_q 4])"]
  by (simp only: test_state)

theorem rpc_fair_run_completes_witness:
  "\<exists>n. \<forall>m \<ge> n. rpc_done (test_run m) =
     map (\<lambda>a. Inr (Some a)) [str_lit ''Echo: Hello #1'', str_lit ''Echo: Hello #2'', str_lit ''Echo: Hello #3'',
       str_lit ''Echo: Hello #4'', str_lit ''Echo: Hello #5'']"
proof -
  have "test_run 0 = test_start" "\<forall>i. test_run (Suc i) = test_exec (test_sched i) (test_run i)" by simp_all
  from rpc_fair_run_completes [OF test_ready test_broker [folded test_state] this test_sched_fair]
  show ?thesis unfolding test_state test_replies .
qed

text \<open>
  The first query is answered.  For the second the send of the answer fails after five bytes
  and the responser's connection is lost; the querier is closed while the query waits, which
  then returns \<^verbatim>\<open>None\<close>.
\<close>

definition test_faults :: "fault_event list" where
  "test_faults =
     concat (replicate 6 (map F_step [Rpc_caller, Rpc_request, Rpc_to_p 40, Rpc_work, Rpc_reply, Rpc_to_q 40])) @
     map F_step [Rpc_caller, Rpc_caller, Rpc_caller, Rpc_request, Rpc_to_p 40] @
     [F_work 5, F_lost_p False, F_close_q] @ map F_step [Rpc_caller, Rpc_caller, Rpc_caller]"


section \<open>The signals of the test are printed\<close>

lemma test_signals_eq:
  "test_signals = [str_lit ''Signal #1'', str_lit ''Signal #2'', str_lit ''Signal #3'', str_lit ''Signal #4'', str_lit ''Signal #5'']"
  by (simp add: test_signals_def MAX_ITERATIONS_def upt_rec str_lit_def)

lemma test_sender:
  "sending (test_sender True)" "sk_sent (tcp_socket (KLsender (test_sender True))) = []"
  "list_all (signal_text (test_sender True)) test_signals"
  by (simp_all add: test_sender_def sender_set_config_def sending_def signal_text_def signal_msg_def sender_ids_ok_def
      new_signal_sender_def connect_to_server_def sock_connect_def new_client_def new_socket_def client_simps fstr_def
      topic_def dash_def test_signals_eq test_app_def test_signal_def str_lit_def is_scalar_def is_surrogate_def utf8_char_def SEP_simps)

lemma test_subscriber:
  "online (KLsubscriber (snd (test_subscriber True Send_Ok)))" "buffer (KLsubscriber (snd (test_subscriber True Send_Ok))) = []"
  "MAX_MSG_SIZE (KLsubscriber (snd (test_subscriber True Send_Ok))) = 16777216"
  "received_data_callback (KLsubscriber (snd (test_subscriber True Send_Ok))) = Some SignalSubscriber_data_recv"
  "sub_callback (snd (test_subscriber True Send_Ok)) \<noteq> None" "sub_app (snd (test_subscriber True Send_Ok)) = []"
  by (simp_all add: test_subscriber_def sample_subscriber_simps online_def next_frame_def str_lit_def topic_def dash_def
      test_app_def test_signal_def is_surrogate_def utf8_char_def)

text \<open>
  The test of signals prints what it should.  For a broker that passes the texts on, and
  however the bytes arrive, the subscriber prints a line for each of the five signals, in
  order.
\<close>

theorem signal_test_prints:
  assumes "emitt_all test_signals (test_sender True) = (x, s1)"
    and "\<forall>t \<in> set test_signals. route (signal_msg (test_sender True) (utf8_bytes t)) = utf8_bytes t"
    and "[] \<notin> set cs"
    and "concat cs = frames (map route (fst (parse_stream 16777216 (sk_sent (tcp_socket (KLsender s1))))))"
  shows "\<exists>u. sub_receive (sub_app_user on_received) (map Recv_Data cs) (snd (test_subscriber True Send_Ok)) = Some (Continue, u) \<and>
     sub_app u = map (\<lambda>t. str_lit ''[Subscriber] Received: '' @ t) test_signals"
proof -
  have f: "filter (\<lambda>t. t \<noteq> str_lit ''heartbeat_response'') test_signals = test_signals"
    by (simp add: test_signals_eq str_lit_def)
  have "fold on_received ts out = out @ map (\<lambda>t. str_lit ''[Subscriber] Received: '' @ t) ts" for ts out
    by (induction ts arbitrary: out) (simp_all add: on_received_def)
  with signals_delivered [OF test_sender assms(1,2) test_subscriber(1-5) assms(3,4), of on_received] show ?thesis
    by (simp add: f test_subscriber(6))
qed

end
