(* ===== verification/KL_QtTcpClient.thy ===== *)
theory KL_QtTcpClient
  imports KL_Framing
begin

text \<open>
  \<^verbatim>\<open>tcpclient.py\<close> of the PyQt SDK: the same wire format as the plain Python client, on
  \<^verbatim>\<open>QTcpSocket\<close>, \<^verbatim>\<open>QTimer\<close> and Qt signals instead of threads.

  Qt is not part of the repository.  Its sockets and timers are values of types \<open>'k\<close>
  and \<open>'t\<close>, and the methods that the code calls on them are the fields of a record
  \<open>qt_api\<close>, an argument of every definition that uses one.  A method that may emit signals
  before it returns gives the list of them; the slots connected to them run at once, in
  order (a direct connection).  \<^verbatim>\<open>readyRead\<close> and \<^verbatim>\<open>timeout\<close> come from the event loop.
  What the code relies on is stated as \<open>qt_laws\<close>.

  An exception that leaves a slot is not caught by the code: it ends the emission and
  everything above it, and is the result \<open>Inl\<close>.
\<close>

section \<open>What the code uses of Qt\<close>

datatype qt_socket_state =
    UnconnectedState | HostLookupState | ConnectingState | ConnectedState | BoundState | ClosingState

datatype qt_signal = Sig_connected | Sig_disconnected | Sig_errorOccurred nat

record ('k, 't) qt_api =
  api_QTcpSocket :: 'k
  api_connectToHost :: "pystr \<Rightarrow> nat \<Rightarrow> 'k \<Rightarrow> 'k \<times> qt_signal list"
  api_waitForConnected :: "nat \<Rightarrow> 'k \<Rightarrow> bool \<times> 'k \<times> qt_signal list"
  api_state :: "'k \<Rightarrow> qt_socket_state"
  api_write :: "bytes \<Rightarrow> 'k \<Rightarrow> 'k"
  api_readAll :: "'k \<Rightarrow> bytes \<times> 'k"
  api_disconnectFromHost :: "'k \<Rightarrow> 'k \<times> qt_signal list"
  api_QTimer :: 't
  api_setInterval :: "nat \<Rightarrow> 't \<Rightarrow> 't"
  api_start :: "'t \<Rightarrow> 't"
  api_stop :: "'t \<Rightarrow> 't"

text \<open>
  The documented behaviour the properties rely on.  \<open>wire\<close> reads the bytes a socket was
  given to send so far.  Bytes written to a connected socket are appended to them and leave
  it connected; no other call adds to them; reading does not change the state; \<^verbatim>\<open>disconnectFromHost\<close> leaves the connected
  state at once, for the closing or the unconnected state.
\<close>

definition qt_laws :: "('k, 't) qt_api \<Rightarrow> ('k \<Rightarrow> bytes) \<Rightarrow> bool" where
  "qt_laws api wire \<longleftrightarrow>
     (\<forall>k d. api_state api k = ConnectedState \<longrightarrow>
        wire (api_write api d k) = wire k @ d \<and> api_state api (api_write api d k) = ConnectedState) \<and>
     (\<forall>k. wire (snd (api_readAll api k)) = wire k \<and>
        api_state api (snd (api_readAll api k)) = api_state api k) \<and>
     (\<forall>ip port k. wire (fst (api_connectToHost api ip port k)) = wire k) \<and>
     (\<forall>ms k. wire (fst (snd (api_waitForConnected api ms k))) = wire k) \<and>
     (\<forall>k. wire (fst (api_disconnectFromHost api k)) = wire k \<and>
        api_state api (fst (api_disconnectFromHost api k)) \<noteq> ConnectedState)"

text \<open>
  A small model of the calls, in which every connection succeeds: the state, the bytes
  that arrived and the bytes written.
\<close>

type_synonym sample_socket = "qt_socket_state \<times> bytes \<times> bytes"

definition sample_qt :: "(sample_socket, bool) qt_api" where
  "sample_qt =
     \<lparr>api_QTcpSocket = (UnconnectedState, [], []),
      api_connectToHost = (\<lambda>ip port (st, inb, out). ((ConnectingState, inb, out), [])),
      api_waitForConnected = (\<lambda>msecs (st, inb, out). (True, (ConnectedState, inb, out), [Sig_connected])),
      api_state = fst,
      api_write = (\<lambda>d (st, inb, out). (st, inb, out @ d)),
      api_readAll = (\<lambda>(st, inb, out). (inb, (st, [], out))),
      api_disconnectFromHost = (\<lambda>(st, inb, out). ((UnconnectedState, inb, out), [Sig_disconnected])),
      api_QTimer = False, api_setInterval = (\<lambda>msecs t. t), api_start = (\<lambda>t. True), api_stop = (\<lambda>t. False)\<rparr>"

lemma sample_qt_laws: "qt_laws sample_qt (\<lambda>(st, inb, out). out)"
  by (auto simp: qt_laws_def sample_qt_def)

section \<open>State\<close>

text \<open>
  What can be connected to the signals of a client: the slots of the roles (the closure of
  a blocking query by the number of the call) and functions of the application.
\<close>

datatype qt_slot =
    SignalSubscriber_dataRecv
  | OpenSocketResponser_dataRecv
  | OpenSocketQuerier_dataRecv
  | On_data_received nat
  | App_slot nat

text \<open>The three signals of the class, with their arguments.\<close>

datatype qt_emission = Emit_connected | Emit_disconnected | Emit_receivedData bytes

record ('k, 't) qt_client =
  tcpSocket :: 'k
  heartBeatTimer :: 't
  qt_buffer :: bytes
  qt_MAX_MSG_SIZE :: nat
  connected_slots :: "qt_slot list"
  disconnected_slots :: "qt_slot list"
  receivedData_slots :: "qt_slot list"

definition new_qt_client :: "('k, 't) qt_api \<Rightarrow> ('k, 't) qt_client" where
  "new_qt_client api =
     \<lparr>tcpSocket = api_QTcpSocket api,
      heartBeatTimer = api_setInterval api 180000 (api_QTimer api),
      qt_buffer = [], qt_MAX_MSG_SIZE = 16 * 1024 * 1024,
      connected_slots = [], disconnected_slots = [], receivedData_slots = []\<rparr>"

section \<open>Operations\<close>

text \<open>
  As for the plain client, the code runs inside an object that owns the client: \<open>get\<close> and
  \<open>upd\<close> read and change the client, \<open>call\<close> runs a slot on the owner.
\<close>

type_synonym ('k, 't, 'o) qt_get = "'o \<Rightarrow> ('k, 't) qt_client"
type_synonym ('k, 't, 'o) qt_upd = "(('k, 't) qt_client \<Rightarrow> ('k, 't) qt_client) \<Rightarrow> 'o \<Rightarrow> 'o"
type_synonym 'o qt_call = "qt_slot \<Rightarrow> qt_emission \<Rightarrow> 'o \<Rightarrow> unit res \<times> 'o"

fun run_slots :: "'o qt_call \<Rightarrow> qt_slot list \<Rightarrow> qt_emission \<Rightarrow> 'o \<Rightarrow> unit res \<times> 'o" where
  "run_slots call [] em s = (Inr (), s)"
| "run_slots call (sl # sls) em s =
     (case call sl em s of
        (Inl e, s1) \<Rightarrow> (Inl e, s1)
      | (Inr _, s1) \<Rightarrow> run_slots call sls em s1)"

fun slots_of :: "qt_emission \<Rightarrow> ('k, 't) qt_client \<Rightarrow> qt_slot list" where
  "slots_of Emit_connected c = connected_slots c"
| "slots_of Emit_disconnected c = disconnected_slots c"
| "slots_of (Emit_receivedData d) c = receivedData_slots c"

definition qt_emit ::
  "('k, 't, 'o) qt_get \<Rightarrow> 'o qt_call \<Rightarrow> qt_emission \<Rightarrow> 'o \<Rightarrow> unit res \<times> 'o" where
  "qt_emit get call em s = run_slots call (slots_of em (get s)) em s"

definition socketConnected ::
  "('k, 't, 'o) qt_get \<Rightarrow> 'o qt_call \<Rightarrow> 'o \<Rightarrow> unit res \<times> 'o" where
  "socketConnected get call s = qt_emit get call Emit_connected s"

definition socketDisconnected ::
  "('k, 't) qt_api \<Rightarrow> ('k, 't, 'o) qt_get \<Rightarrow> ('k, 't, 'o) qt_upd \<Rightarrow> 'o qt_call \<Rightarrow> 'o \<Rightarrow> unit res \<times> 'o" where
  "socketDisconnected api get upd call s =
     (case qt_emit get call Emit_disconnected s of
        (Inl e, s1) \<Rightarrow> (Inl e, s1)
      | (Inr _, s1) \<Rightarrow> (Inr (), upd (\<lambda>c. c\<lparr>heartBeatTimer := api_stop api (heartBeatTimer c)\<rparr>) s1))"

text \<open>\<^verbatim>\<open>handleError\<close> only prints.\<close>

definition handleError :: "nat \<Rightarrow> 'o \<Rightarrow> unit res \<times> 'o" where
  "handleError socketError s = (Inr (), s)"

text \<open>The connections the constructor makes from the signals of the socket.\<close>

fun socket_signal ::
  "('k, 't) qt_api \<Rightarrow> ('k, 't, 'o) qt_get \<Rightarrow> ('k, 't, 'o) qt_upd \<Rightarrow> 'o qt_call \<Rightarrow>
   qt_signal \<Rightarrow> 'o \<Rightarrow> unit res \<times> 'o" where
  "socket_signal api get upd call Sig_connected s = socketConnected get call s"
| "socket_signal api get upd call Sig_disconnected s = socketDisconnected api get upd call s"
| "socket_signal api get upd call (Sig_errorOccurred e) s = handleError e s"

fun socket_signals ::
  "('k, 't) qt_api \<Rightarrow> ('k, 't, 'o) qt_get \<Rightarrow> ('k, 't, 'o) qt_upd \<Rightarrow> 'o qt_call \<Rightarrow>
   qt_signal list \<Rightarrow> 'o \<Rightarrow> unit res \<times> 'o" where
  "socket_signals api get upd call [] s = (Inr (), s)"
| "socket_signals api get upd call (sg # sgs) s =
     (case socket_signal api get upd call sg s of
        (Inl e, s1) \<Rightarrow> (Inl e, s1)
      | (Inr _, s1) \<Rightarrow> socket_signals api get upd call sgs s1)"

text \<open>\<^verbatim>\<open>self.tcpSocket.disconnectFromHost()\<close>, with the slots it runs.\<close>

definition close_socket ::
  "('k, 't) qt_api \<Rightarrow> ('k, 't, 'o) qt_get \<Rightarrow> ('k, 't, 'o) qt_upd \<Rightarrow> 'o qt_call \<Rightarrow> 'o \<Rightarrow> unit res \<times> 'o" where
  "close_socket api get upd call s =
     (case api_disconnectFromHost api (tcpSocket (get s)) of
        (k, sgs) \<Rightarrow> socket_signals api get upd call sgs (upd (\<lambda>c. c\<lparr>tcpSocket := k\<rparr>) s))"

definition connectToServer ::
  "('k, 't) qt_api \<Rightarrow> ('k, 't, 'o) qt_get \<Rightarrow> ('k, 't, 'o) qt_upd \<Rightarrow> 'o qt_call \<Rightarrow>
   pystr \<Rightarrow> nat \<Rightarrow> 'o \<Rightarrow> bool res \<times> 'o" where
  "connectToServer api get upd call ip port s =
     (case api_connectToHost api ip port (tcpSocket (get s)) of (k, sgs) \<Rightarrow>
        (case socket_signals api get upd call sgs (upd (\<lambda>c. c\<lparr>tcpSocket := k\<rparr>) s) of
           (Inl e, s1) \<Rightarrow> (Inl e, s1)
         | (Inr _, s1) \<Rightarrow>
             (case api_waitForConnected api 3000 (tcpSocket (get s1)) of (ok, k1, sgs1) \<Rightarrow>
                (case socket_signals api get upd call sgs1 (upd (\<lambda>c. c\<lparr>tcpSocket := k1\<rparr>) s1) of
                   (Inl e, s2) \<Rightarrow> (Inl e, s2)
                 | (Inr _, s2) \<Rightarrow>
                     (if \<not> ok then (Inr False, s2)
                      else (Inr True,
                            upd (\<lambda>c. c\<lparr>heartBeatTimer := api_start api (heartBeatTimer c)\<rparr>) s2))))))"

text \<open>Sending changes the client only, so it is a function of the client.\<close>

definition writeWithLengthPrefix ::
  "('k, 't) qt_api \<Rightarrow> bytes \<Rightarrow> ('k, 't) qt_client \<Rightarrow> bool res \<times> ('k, 't) qt_client" where
  "writeWithLengthPrefix api data c =
     (if api_state api (tcpSocket c) \<noteq> ConnectedState then (Inr False, c)
      else if length data > qt_MAX_MSG_SIZE c then (Inr False, c)
      else (case struct_pack_I (length data) of
          Inl e \<Rightarrow> (Inl e, c)
        | Inr length_bytes \<Rightarrow>
            (Inr True, c\<lparr>tcpSocket := api_write api ((MAGIC @ length_bytes) @ data) (tcpSocket c)\<rparr>)))"

definition sendData ::
  "('k, 't) qt_api \<Rightarrow> bytes \<Rightarrow> ('k, 't) qt_client \<Rightarrow> unit res \<times> ('k, 't) qt_client" where
  "sendData api data c =
     (case writeWithLengthPrefix api data c of
        (Inl e, c1) \<Rightarrow> (Inl e, c1)
      | (Inr _, c1) \<Rightarrow> (Inr (), c1))"

text \<open>The slot of \<^verbatim>\<open>heartBeatTimer.timeout\<close>.\<close>

definition sendHeartbeat ::
  "('k, 't) qt_api \<Rightarrow> ('k, 't) qt_client \<Rightarrow> unit res \<times> ('k, 't) qt_client" where
  "sendHeartbeat api c =
     (if api_state api (tcpSocket c) = ConnectedState
      then (case writeWithLengthPrefix api HEARTBEAT c of
              (Inl e, c1) \<Rightarrow> (Inl e, c1)
            | (Inr _, c1) \<Rightarrow> (Inr (), c1))
      else (Inr (), c\<lparr>heartBeatTimer := api_stop api (heartBeatTimer c)\<rparr>))"

text \<open>The loop of \<^verbatim>\<open>_processBuffer\<close>; a slot is arbitrary code, so it may never end.\<close>

partial_function (option) processBuffer ::
  "('k, 't) qt_api \<Rightarrow> ('k, 't, 'o) qt_get \<Rightarrow> ('k, 't, 'o) qt_upd \<Rightarrow> 'o qt_call \<Rightarrow> 'o \<Rightarrow>
   (unit res \<times> 'o) option" where
  "processBuffer api get upd call s =
     (let buf = qt_buffer (get s) in
      if length buf < HEADER_LEN then Some (Inr (), s)
      else if take MAGIC_LEN buf \<noteq> MAGIC then Some (close_socket api get upd call s)
      else (case struct_unpack_I (take (HEADER_LEN - MAGIC_LEN) (drop MAGIC_LEN buf)) of
          Inl e \<Rightarrow> Some (Inl e, s)
        | Inr len \<Rightarrow>
            if len = 0 \<or> len > qt_MAX_MSG_SIZE (get s) then Some (close_socket api get upd call s)
            else if length buf < HEADER_LEN + len then Some (Inr (), s)
            else (let msg = take len (drop HEADER_LEN buf);
                      s1 = upd (\<lambda>c. c\<lparr>qt_buffer := drop (HEADER_LEN + len) buf\<rparr>) s
                  in if msg = HEARTBEAT_RESPONSE then processBuffer api get upd call s1
                     else (case qt_emit get call (Emit_receivedData msg) s1 of
                             (Inl e, s2) \<Rightarrow> Some (Inl e, s2)
                           | (Inr _, s2) \<Rightarrow> processBuffer api get upd call s2))))"

text \<open>The slot of \<^verbatim>\<open>tcpSocket.readyRead\<close>.\<close>

definition readData ::
  "('k, 't) qt_api \<Rightarrow> ('k, 't, 'o) qt_get \<Rightarrow> ('k, 't, 'o) qt_upd \<Rightarrow> 'o qt_call \<Rightarrow> 'o \<Rightarrow>
   (unit res \<times> 'o) option" where
  "readData api get upd call s =
     (case api_readAll api (tcpSocket (get s)) of (new_data, k) \<Rightarrow>
        (let s1 = upd (\<lambda>c. c\<lparr>tcpSocket := k\<rparr>) s in
         if new_data = [] then Some (Inr (), s1)
         else processBuffer api get upd call (upd (\<lambda>c. c\<lparr>qt_buffer := qt_buffer c @ new_data\<rparr>) s1)))"

definition qt_disconnect ::
  "('k, 't) qt_api \<Rightarrow> ('k, 't, 'o) qt_get \<Rightarrow> ('k, 't, 'o) qt_upd \<Rightarrow> 'o qt_call \<Rightarrow> 'o \<Rightarrow> unit res \<times> 'o" where
  "qt_disconnect api get upd call s =
     (case close_socket api get upd call s of
        (Inl e, s1) \<Rightarrow> (Inl e, s1)
      | (Inr _, s1) \<Rightarrow> (Inr (), upd (\<lambda>c. c\<lparr>qt_buffer := []\<rparr>) s1))"

text \<open>
  A series of \<^verbatim>\<open>readyRead\<close> signals; at each of them the socket is in the given state.
\<close>

fun qt_reads ::
  "('k, 't) qt_api \<Rightarrow> ('k, 't, 'o) qt_get \<Rightarrow> ('k, 't, 'o) qt_upd \<Rightarrow> 'o qt_call \<Rightarrow> 'k list \<Rightarrow> 'o \<Rightarrow>
   (unit res \<times> 'o) option" where
  "qt_reads api get upd call [] s = Some (Inr (), s)"
| "qt_reads api get upd call (k # ks) s =
     (case readData api get upd call (upd (\<lambda>c. c\<lparr>tcpSocket := k\<rparr>) s) of
        None \<Rightarrow> None
      | Some (Inl e, s1) \<Rightarrow> Some (Inl e, s1)
      | Some (Inr _, s1) \<Rightarrow> qt_reads api get upd call ks s1)"

lemmas qt_constructor_defs [qt_simps] = connectToServer_def new_qt_client_def sample_qt_def
  socketConnected_def qt_emit_def

end
