(* ===== verification/KL_BufferLoop.thy ===== *)
theory KL_BufferLoop
  imports KL_Framing
begin

text \<open>
  The contract that the buffer loops of the two SDKs have in common, and what follows from
  it.  Both loops take one frame after the other off a buffer, skip heartbeat responses and
  hand every other message on; they differ in how they hand it on and in what they do at a
  bad frame.
\<close>

section \<open>Loops that take frames off a buffer\<close>

definition after_handling :: "('o \<Rightarrow> (unit res \<times> 'o) option) \<Rightarrow> unit res \<times> 'o \<Rightarrow> (unit res \<times> 'o) option" where
  "after_handling k r = (case r of (Inl e, s) \<Rightarrow> Some (Inl e, s) | (Inr _, s) \<Rightarrow> k s)"

lemma after_handling_simps [simp]:
  "after_handling k (Inl e, s) = Some (Inl e, s)" "after_handling k (Inr u, s) = k s"
  by (simp_all add: after_handling_def)

locale buffer_loop =
  fixes buf :: "'o \<Rightarrow> bytes" and mx :: "'o \<Rightarrow> nat" and set_buf :: "bytes \<Rightarrow> 'o \<Rightarrow> 'o"
    and handle :: "bytes \<Rightarrow> 'o \<Rightarrow> unit res \<times> 'o" and bad :: "'o \<Rightarrow> unit res \<times> 'o"
    and loop :: "'o \<Rightarrow> (unit res \<times> 'o) option"
  assumes buf_set: "buf (set_buf b s) = b"
    and mx_set: "mx (set_buf b s) = mx s"
    and loop_step: "loop s =
      (case next_frame (mx s) (buf s) of
         Incomplete \<Rightarrow> Some (Inr (), s)
       | Invalid \<Rightarrow> Some (bad s)
       | Frame m rest \<Rightarrow>
           (if m = HEARTBEAT_RESPONSE then loop (set_buf rest s)
            else after_handling loop (handle m (set_buf rest s))))"
begin

lemma loop_Frame:
  assumes "next_frame (mx s) (buf s) = Frame m rest"
  shows "loop s = (if m = HEARTBEAT_RESPONSE then loop (set_buf rest s)
                   else after_handling loop (handle m (set_buf rest s)))"
  using assms by (subst loop_step) simp

text \<open>
  A handler that adds nothing to the buffer cannot keep the loop from ending; it may well
  empty the buffer, as a handler that disconnects does.
\<close>

lemma loop_returns:
  assumes "\<And>m s. length (buf (snd (handle m s))) \<le> length (buf s)"
  shows "\<exists>r. loop s = Some r"
proof (induction "length (buf s)" arbitrary: s rule: less_induct)
  case less
  show ?case
  proof (cases "next_frame (mx s) (buf s)")
    case (Frame m rest)
    have lt: "length rest < length (buf s)"
      using next_frame_Frame(1,3) [OF Frame] by (simp add: length_frame)
    obtain x s2 where h: "handle m (set_buf rest s) = (x, s2)" by fastforce
    have "length (buf s2) < length (buf s)"
      using assms [of m "set_buf rest s"] lt by (simp add: h buf_set)
    from less [OF this] less [of "set_buf rest s"] lt h show ?thesis
      by (cases x) (simp_all add: loop_Frame [OF Frame] buf_set)
  qed (subst loop_step, simp)+
qed

text \<open>An emptied buffer ends the loop after the message that emptied it.\<close>

lemma loop_emptied:
  assumes "next_frame (mx s) (buf s) = Frame m rest" and "m \<noteq> HEARTBEAT_RESPONSE"
    and "handle m (set_buf rest s) = (Inr (), s2)" and "buf s2 = []"
  shows "loop s = Some (Inr (), s2)"
proof -
  have "loop s2 = Some (Inr (), s2)"
    by (subst loop_step) (simp add: assms(4) next_frame_def)
  with assms show ?thesis by (simp add: loop_Frame)
qed

end

section \<open>Loops whose handler leaves the buffer alone\<close>

text \<open>
  The owner is in a state (\<open>ready\<close>) in which handling a well-formed message (\<open>good\<close>)
  neither raises nor touches the buffer, and acts on the rest of the owner (\<open>view\<close>) by
  \<open>act\<close>.
\<close>

locale quiet_loop = buffer_loop buf mx set_buf handle bad loop
  for buf :: "'o \<Rightarrow> bytes" and mx and set_buf :: "bytes \<Rightarrow> 'o \<Rightarrow> 'o" and handle and bad and loop +
  fixes ready :: "'o \<Rightarrow> bool" and good :: "bytes \<Rightarrow> bool" and view :: "'o \<Rightarrow> 'v"
    and act :: "bytes \<Rightarrow> 'v \<Rightarrow> 'v"
  assumes ready_set: "ready (set_buf b s) = ready s"
    and view_set: "view (set_buf b s) = view s"
    and quiet: "ready s \<Longrightarrow> good m \<Longrightarrow>
      \<exists>s'. handle m s = (Inr (), s') \<and> buf s' = buf s \<and> mx s' = mx s \<and> ready s' \<and>
           view s' = act m (view s)"
begin

lemma quiet_run:
  assumes "ready s" and "parse_stream (mx s) (buf s) = (ms, left, e)"
    and "list_all good (filter (\<lambda>m. m \<noteq> HEARTBEAT_RESPONSE) ms)"
  shows "\<exists>s'. loop s = Some (case e of Need_More \<Rightarrow> (Inr (), s') | Bad_Frame \<Rightarrow> bad s') \<and>
              buf s' = left \<and> mx s' = mx s \<and> ready s' \<and>
              view s' = fold act (filter (\<lambda>m. m \<noteq> HEARTBEAT_RESPONSE) ms) (view s)"
  using assms
proof (induction "length (buf s)" arbitrary: s ms rule: less_induct)
  case less
  show ?case
  proof (cases "next_frame (mx s) (buf s)")
    case (Frame m rest)
    let ?s1 = "set_buf rest s"
    have lt: "length rest < length (buf s)"
      using next_frame_Frame(1,3) [OF Frame] by (simp add: length_frame)
    obtain ms' where p: "parse_stream (mx s) rest = (ms', left, e)" "ms = m # ms'"
      using less.prems(2) by (auto simp: parse_stream_unfold(3) [OF Frame] split: prod.splits)
    have IH: "\<exists>s'. loop s2 = Some (case e of Need_More \<Rightarrow> (Inr (), s') | Bad_Frame \<Rightarrow> bad s') \<and>
              buf s' = left \<and> mx s' = mx s \<and> ready s' \<and>
              view s' = fold act (filter (\<lambda>m. m \<noteq> HEARTBEAT_RESPONSE) ms') (view s2)"
      if "buf s2 = rest" "mx s2 = mx s" "ready s2" for s2
      using less.hyps [of s2 ms'] that lt p less.prems(3) by (simp split: if_splits)
    show ?thesis
    proof (cases "m = HEARTBEAT_RESPONSE")
      case True
      with IH [of ?s1] less.prems(1) p(2) show ?thesis
        by (simp add: loop_Frame [OF Frame] buf_set mx_set ready_set view_set)
    next
      case False
      with less.prems p(2) obtain s2 where "handle m ?s1 = (Inr (), s2)" "buf s2 = rest"
          "mx s2 = mx s" "ready s2" "view s2 = act m (view s)"
        using quiet [of ?s1 m] by (auto simp: buf_set mx_set ready_set view_set)
      with IH [of s2] False p(2) show ?thesis by (simp add: loop_Frame [OF Frame])
    qed
  next
    case Incomplete
    with less.prems show ?thesis
      by (subst loop_step) (auto simp: parse_stream_unfold)
  next
    case Invalid
    with less.prems show ?thesis
      by (subst loop_step) (auto simp: parse_stream_unfold)
  qed
qed

end

section \<open>The loop of the plain Python client\<close>

interpretation py_loop: buffer_loop "\<lambda>s. buffer (client s)" "\<lambda>s. MAX_MSG_SIZE (client s)"
    "\<lambda>b. client_update (\<lambda>c. c\<lparr>buffer := b\<rparr>)" "handle_received_data client call"
    "\<lambda>s. (Inr (), client_update drop_connection s)" "process_buffer client client_update call"
  for call :: "bound_method \<Rightarrow> bytes \<Rightarrow> 'w client_app \<Rightarrow> unit res \<times> 'w client_app"
  by unfold_locales
    (simp_all add: process_buffer_step [of client] after_handling_def Let_def split: frame_result.split)

interpretation py_app_loop: quiet_loop "\<lambda>s. buffer (client s)" "\<lambda>s. MAX_MSG_SIZE (client s)"
    "\<lambda>b. client_update (\<lambda>c. c\<lparr>buffer := b\<rparr>)" "handle_received_data client (app_callback f)"
    "\<lambda>s. (Inr (), client_update drop_connection s)" "process_buffer client client_update (app_callback f)"
    "\<lambda>s. received_data_callback (client s) \<noteq> None" "\<lambda>_. True" app f
  for f :: "bytes \<Rightarrow> 'w \<Rightarrow> 'w"
  by unfold_locales (auto simp: handle_received_data_def app_callback_def)

end
