(* ===== verification/KL_QtFraming.thy ===== *)
theory KL_QtFraming
  imports KL_QtTcpClient KL_BufferLoop
begin

text \<open>
  The receive side of the PyQt client.  Its buffer loop is an instance of the contract that
  the loop of the plain client satisfies, so the reference parser describes both; they
  differ in what a bad frame and a disconnect leave in the buffer.
\<close>

section \<open>The buffer loop\<close>

lemma processBuffer_step:
  "processBuffer api get upd call s =
     (case next_frame (qt_MAX_MSG_SIZE (get s)) (qt_buffer (get s)) of
        Incomplete \<Rightarrow> Some (Inr (), s)
      | Invalid \<Rightarrow> Some (close_socket api get upd call s)
      | Frame m rest \<Rightarrow>
          (if m = HEARTBEAT_RESPONSE
           then processBuffer api get upd call (upd (\<lambda>c. c\<lparr>qt_buffer := rest\<rparr>) s)
           else after_handling (processBuffer api get upd call)
                  (qt_emit get call (Emit_receivedData m) (upd (\<lambda>c. c\<lparr>qt_buffer := rest\<rparr>) s))))"
proof (cases "length (qt_buffer (get s)) < HEADER_LEN \<or> take MAGIC_LEN (qt_buffer (get s)) \<noteq> MAGIC")
  case True
  then show ?thesis
    by (subst processBuffer.simps) (auto simp: next_frame_def Let_def)
next
  case False
  then obtain n where "struct_unpack_I (take 4 (drop 4 (qt_buffer (get s)))) = Inr n"
    using struct_unpack_4 [of "take 4 (drop 4 (qt_buffer (get s)))"] by auto
  with False show ?thesis
    by (subst processBuffer.simps) (auto simp: next_frame_def Let_def after_handling_def)
qed

text \<open>The object that owns a client.\<close>

locale qt_lens =
  fixes get :: "'o \<Rightarrow> ('k, 't) qt_client"
    and upd :: "(('k, 't) qt_client \<Rightarrow> ('k, 't) qt_client) \<Rightarrow> 'o \<Rightarrow> 'o"
  assumes get_upd: "get (upd f s) = f (get s)"
    and upd_upd: "upd f (upd g s) = upd (\<lambda>c. f (g c)) s"
    and upd_same: "upd (\<lambda>c. c) s = s"
begin

text \<open>
  If nothing that is connected to \<^verbatim>\<open>connected\<close> and \<^verbatim>\<open>disconnected\<close> does anything, the signals
  of the socket change the timer only.
\<close>

lemma run_slots_silent:
  "(\<And>sl s. call sl em s = (Inr (), s)) \<Longrightarrow> run_slots call sls em s = (Inr (), s)"
  by (induction sls) simp_all

lemma socket_signal_silent:
  assumes "\<And>sl s. call sl Emit_connected s = (Inr (), s)" "\<And>sl s. call sl Emit_disconnected s = (Inr (), s)"
  shows "\<exists>g. socket_signal api get upd call sg s = (Inr (), upd (\<lambda>c. c\<lparr>heartBeatTimer := g (heartBeatTimer c)\<rparr>) s)"
proof (cases sg)
  case Sig_disconnected
  then show ?thesis
    by (auto simp: socketDisconnected_def qt_emit_def run_slots_silent assms intro: exI [of _ "api_stop api"])
qed (auto simp: socketConnected_def handleError_def qt_emit_def run_slots_silent assms upd_same
      intro: exI [of _ "\<lambda>t. t"])

lemma socket_signals_silent:
  assumes "\<And>sl s. call sl Emit_connected s = (Inr (), s)" "\<And>sl s. call sl Emit_disconnected s = (Inr (), s)"
  shows "\<exists>g. socket_signals api get upd call sgs s = (Inr (), upd (\<lambda>c. c\<lparr>heartBeatTimer := g (heartBeatTimer c)\<rparr>) s)"
proof (induction sgs arbitrary: s)
  case Nil
  show ?case by (rule exI [of _ "\<lambda>t. t"]) (simp add: upd_same)
next
  case (Cons sg sgs)
  obtain g where g: "socket_signal api get upd call sg s = (Inr (), upd (\<lambda>c. c\<lparr>heartBeatTimer := g (heartBeatTimer c)\<rparr>) s)"
    using socket_signal_silent [of call, OF assms] by blast
  obtain h where "socket_signals api get upd call sgs (upd (\<lambda>c. c\<lparr>heartBeatTimer := g (heartBeatTimer c)\<rparr>) s) =
      (Inr (), upd (\<lambda>c. c\<lparr>heartBeatTimer := h (heartBeatTimer c)\<rparr>) (upd (\<lambda>c. c\<lparr>heartBeatTimer := g (heartBeatTimer c)\<rparr>) s))"
    using Cons by blast
  with g show ?case by (intro exI [of _ "\<lambda>t. h (g t)"]) (simp add: upd_upd)
qed

lemma close_socket_silent:
  assumes "\<And>sl s. call sl Emit_connected s = (Inr (), s)" "\<And>sl s. call sl Emit_disconnected s = (Inr (), s)"
  shows "\<exists>g. close_socket api get upd call s =
     (Inr (), upd (\<lambda>c. c\<lparr>tcpSocket := fst (api_disconnectFromHost api (tcpSocket (get s))),
                        heartBeatTimer := g (heartBeatTimer c)\<rparr>) s)"
proof -
  obtain k sgs where d: "api_disconnectFromHost api (tcpSocket (get s)) = (k, sgs)" by fastforce
  obtain g where "socket_signals api get upd call sgs (upd (\<lambda>c. c\<lparr>tcpSocket := k\<rparr>) s) =
      (Inr (), upd (\<lambda>c. c\<lparr>heartBeatTimer := g (heartBeatTimer c)\<rparr>) (upd (\<lambda>c. c\<lparr>tcpSocket := k\<rparr>) s))"
    using socket_signals_silent [of call, OF assms] by blast
  then show ?thesis by (intro exI [of _ g]) (simp add: close_socket_def d upd_upd)
qed

lemma connectToServer_silent:
  assumes "\<And>sl s. call sl Emit_connected s = (Inr (), s)" "\<And>sl s. call sl Emit_disconnected s = (Inr (), s)"
    and "api_waitForConnected api 3000 (fst (api_connectToHost api ip port (tcpSocket (get s)))) = (ok, k, sgs)"
  shows "\<exists>g. connectToServer api get upd call ip port s =
     (Inr ok, upd (\<lambda>c. c\<lparr>tcpSocket := k, heartBeatTimer := g (heartBeatTimer c)\<rparr>) s)"
proof -
  note sig = socket_signals_silent [of call, OF assms(1,2)]
  obtain k0 sgs0 where c: "api_connectToHost api ip port (tcpSocket (get s)) = (k0, sgs0)" by fastforce
  let ?s0 = "upd (\<lambda>c. c\<lparr>tcpSocket := k0\<rparr>) s"
  obtain g where g: "socket_signals api get upd call sgs0 ?s0 =
      (Inr (), upd (\<lambda>c. c\<lparr>heartBeatTimer := g (heartBeatTimer c)\<rparr>) ?s0)"
    using sig by blast
  let ?s1 = "upd (\<lambda>c. c\<lparr>tcpSocket := k\<rparr>) (upd (\<lambda>c. c\<lparr>heartBeatTimer := g (heartBeatTimer c)\<rparr>) ?s0)"
  obtain h where h: "socket_signals api get upd call sgs ?s1 =
      (Inr (), upd (\<lambda>c. c\<lparr>heartBeatTimer := h (heartBeatTimer c)\<rparr>) ?s1)"
    using sig by blast
  show ?thesis
    using assms(3) g h
    by (intro exI [of _ "\<lambda>t. (if ok then api_start api else id) (h (g t))"])
      (simp add: connectToServer_def c get_upd upd_upd)
qed

end

sublocale qt_lens \<subseteq> loop: buffer_loop "\<lambda>s. qt_buffer (get s)" "\<lambda>s. qt_MAX_MSG_SIZE (get s)"
    "\<lambda>b. upd (\<lambda>c. c\<lparr>qt_buffer := b\<rparr>)" "\<lambda>m. qt_emit get call (Emit_receivedData m)"
    "close_socket api get upd call" "processBuffer api get upd call"
  for api call
  by unfold_locales (simp_all add: get_upd processBuffer_step [of api get] split: frame_result.split)

text \<open>
  An owner whose slots, in the states \<open>ready\<close> and for the messages \<open>good\<close>, do not raise
  and do not reach back into the client.
\<close>

locale qt_quiet_owner = qt_lens get upd
  for get :: "'o \<Rightarrow> ('k, 't) qt_client" and upd :: "(('k, 't) qt_client \<Rightarrow> ('k, 't) qt_client) \<Rightarrow> 'o \<Rightarrow> 'o" +
  fixes call :: "'o qt_call" and ready :: "'o \<Rightarrow> bool" and good :: "bytes \<Rightarrow> bool"
    and view :: "'o \<Rightarrow> 'v" and act :: "bytes \<Rightarrow> 'v \<Rightarrow> 'v"
  assumes ready_upd: "receivedData_slots (g (get s)) = receivedData_slots (get s) \<Longrightarrow> ready (upd g s) = ready s"
    and view_upd: "view (upd g s) = view s"
    and emit_quiet: "ready s \<Longrightarrow> good m \<Longrightarrow>
      \<exists>s'. qt_emit get call (Emit_receivedData m) s = (Inr (), s') \<and> get s' = get s \<and> ready s' \<and>
           view s' = act m (view s)"

sublocale qt_quiet_owner \<subseteq> qloop: quiet_loop "\<lambda>s. qt_buffer (get s)" "\<lambda>s. qt_MAX_MSG_SIZE (get s)"
    "\<lambda>b. upd (\<lambda>c. c\<lparr>qt_buffer := b\<rparr>)" "\<lambda>m. qt_emit get call (Emit_receivedData m)"
    "close_socket api get upd call" "processBuffer api get upd call"
    ready good "\<lambda>s. ((get s)\<lparr>qt_buffer := []\<rparr>, view s)" "\<lambda>m (c, v). (c, act m v)"
  for api
proof unfold_locales
  fix s m
  assume "ready s" "good m"
  from emit_quiet [OF this] show "\<exists>s'. qt_emit get call (Emit_receivedData m) s = (Inr (), s') \<and>
      qt_buffer (get s') = qt_buffer (get s) \<and> qt_MAX_MSG_SIZE (get s') = qt_MAX_MSG_SIZE (get s) \<and>
      ready s' \<and> ((get s')\<lparr>qt_buffer := []\<rparr>, view s') = (case ((get s)\<lparr>qt_buffer := []\<rparr>, view s) of (c, v) \<Rightarrow> (c, act m v))"
    by auto
qed (simp_all add: get_upd view_upd ready_upd)

context qt_quiet_owner
begin

lemma fold_act_snd: "fold (\<lambda>m (c, v). (c, act m v)) ms (c, v) = (c, fold act ms v)"
  by (induction ms arbitrary: v) auto

lemma client_buffer: "(c :: ('k, 't) qt_client)\<lparr>qt_buffer := []\<rparr> = d\<lparr>qt_buffer := []\<rparr> \<Longrightarrow> c = d\<lparr>qt_buffer := qt_buffer c\<rparr>"
  by (cases c, cases d) simp

lemma process_run:
  assumes "ready s" and "parse_stream (qt_MAX_MSG_SIZE (get s)) (qt_buffer (get s)) = (ms, left, e)"
    and "list_all good (filter (\<lambda>m. m \<noteq> HEARTBEAT_RESPONSE) ms)"
  shows "\<exists>s'. processBuffer api get upd call s =
            Some (case e of Need_More \<Rightarrow> (Inr (), s') | Bad_Frame \<Rightarrow> close_socket api get upd call s') \<and>
          get s' = (get s)\<lparr>qt_buffer := left\<rparr> \<and> ready s' \<and>
          view s' = fold act (filter (\<lambda>m. m \<noteq> HEARTBEAT_RESPONSE) ms) (view s)"
  using qloop.quiet_run [OF assms, of api] by (auto simp: fold_act_snd dest: client_buffer)

text \<open>One \<^verbatim>\<open>readyRead\<close> at which the socket holds \<open>d\<close>.\<close>

lemma read_chunk:
  assumes "ready s" and "next_frame (qt_MAX_MSG_SIZE (get s)) (qt_buffer (get s)) = Incomplete"
    and "api_readAll api k = (d, k')"
    and "parse_stream (qt_MAX_MSG_SIZE (get s)) (qt_buffer (get s) @ d) = (ms, left, Need_More)"
    and "list_all good (filter (\<lambda>m. m \<noteq> HEARTBEAT_RESPONSE) ms)"
  obtains s' where "readData api get upd call (upd (\<lambda>c. c\<lparr>tcpSocket := k\<rparr>) s) = Some (Inr (), s')"
    and "get s' = (get s)\<lparr>qt_buffer := left, tcpSocket := k'\<rparr>" and "ready s'"
    and "view s' = fold act (filter (\<lambda>m. m \<noteq> HEARTBEAT_RESPONSE) ms) (view s)"
proof (cases "d = []")
  case True
  then have "ms = []" "left = qt_buffer (get s)"
    using assms(2,4) by (simp_all add: parse_stream_unfold(1))
  with True assms(1,3) that [of "upd (\<lambda>c. c\<lparr>tcpSocket := k'\<rparr>) (upd (\<lambda>c. c\<lparr>tcpSocket := k\<rparr>) s)"] show ?thesis
    by (simp add: readData_def get_upd ready_upd view_upd)
next
  case False
  define s1 where "s1 = upd (\<lambda>c. c\<lparr>qt_buffer := qt_buffer c @ d\<rparr>)
    (upd (\<lambda>c. c\<lparr>tcpSocket := k'\<rparr>) (upd (\<lambda>c. c\<lparr>tcpSocket := k\<rparr>) s))"
  have s1: "get s1 = (get s)\<lparr>qt_buffer := qt_buffer (get s) @ d, tcpSocket := k'\<rparr>" "ready s1" "view s1 = view s"
    using assms(1) by (simp_all add: s1_def get_upd ready_upd view_upd)
  obtain s2 where "processBuffer api get upd call s1 = Some (Inr (), s2)"
      "get s2 = (get s1)\<lparr>qt_buffer := left\<rparr>" "ready s2"
      "view s2 = fold act (filter (\<lambda>m. m \<noteq> HEARTBEAT_RESPONSE) ms) (view s1)"
    using process_run [OF s1(2) _ assms(5), of left Need_More api] assms(4) by (auto simp: s1(1))
  with False assms(3) s1 that [of s2] show ?thesis
    by (simp add: readData_def get_upd flip: s1_def)
qed

lemma reads_run:
  assumes "ready s" and "next_frame (qt_MAX_MSG_SIZE (get s)) (qt_buffer (get s)) = Incomplete"
    and "parse_stream (qt_MAX_MSG_SIZE (get s)) (qt_buffer (get s) @ concat (map (\<lambda>k. fst (api_readAll api k)) ks)) =
           (ms, left, Need_More)"
    and "list_all good (filter (\<lambda>m. m \<noteq> HEARTBEAT_RESPONSE) ms)"
  shows "\<exists>s' k. qt_reads api get upd call ks s = Some (Inr (), s') \<and>
          get s' = (get s)\<lparr>qt_buffer := left, tcpSocket := k\<rparr> \<and> ready s' \<and>
          k = (if ks = [] then tcpSocket (get s) else snd (api_readAll api (last ks))) \<and>
          view s' = fold act (filter (\<lambda>m. m \<noteq> HEARTBEAT_RESPONSE) ms) (view s)"
  using assms
proof (induction ks arbitrary: s ms)
  case Nil
  then show ?case by (auto simp: parse_stream_unfold(1))
next
  case (Cons k ks)
  let ?mx = "qt_MAX_MSG_SIZE (get s)" and ?ds = "concat (map (\<lambda>k. fst (api_readAll api k)) ks)"
  obtain d k' where r: "api_readAll api k = (d, k')" by fastforce
  obtain ms1 left1 e1 where p1: "parse_stream ?mx (qt_buffer (get s) @ d) = (ms1, left1, e1)"
    by (metis prod_cases3)
  have "parse_stream ?mx ((qt_buffer (get s) @ d) @ ?ds) = (ms, left, Need_More)"
    using Cons.prems(3) by (simp add: r)
  then obtain ms2 where e1: "e1 = Need_More" and ms: "ms = ms1 @ ms2"
      and p2: "parse_stream ?mx (left1 @ ?ds) = (ms2, left, Need_More)"
    unfolding parse_stream_append [OF p1] by (auto split: parse_end.splits prod.splits)
  have good: "list_all good (filter (\<lambda>m. m \<noteq> HEARTBEAT_RESPONSE) ms1)"
      "list_all good (filter (\<lambda>m. m \<noteq> HEARTBEAT_RESPONSE) ms2)"
    using Cons.prems(4) by (simp_all add: ms)
  obtain s3 where s3: "readData api get upd call (upd (\<lambda>c. c\<lparr>tcpSocket := k\<rparr>) s) = Some (Inr (), s3)"
      "get s3 = (get s)\<lparr>qt_buffer := left1, tcpSocket := k'\<rparr>" "ready s3"
      "view s3 = fold act (filter (\<lambda>m. m \<noteq> HEARTBEAT_RESPONSE) ms1) (view s)"
    using p1 unfolding e1 by (rule read_chunk [OF Cons.prems(1,2) r _ good(1)])
  have inc: "next_frame (qt_MAX_MSG_SIZE (get s3)) (qt_buffer (get s3)) = Incomplete"
    using parse_stream_sound [OF p1] e1 by (simp add: s3(2))
  from Cons.IH [OF s3(3) inc _ good(2)] p2 s3 show ?case
    by (auto simp: ms r)
qed

end

section \<open>An application that uses the client directly\<close>

record ('k, 't, 'w) qt_app =
  qt_cl :: "('k, 't) qt_client"
  qt_world :: 'w

text \<open>Its slots act on its own state when a message is received, and do nothing otherwise.\<close>

definition qt_app_call :: "(bytes \<Rightarrow> 'w \<Rightarrow> 'w) \<Rightarrow> ('k, 't, 'w) qt_app qt_call" where
  "qt_app_call f sl em s =
     (Inr (), case em of Emit_receivedData d \<Rightarrow> s\<lparr>qt_world := f d (qt_world s)\<rparr> | _ \<Rightarrow> s)"

interpretation qt_direct: qt_lens qt_cl qt_cl_update
  by unfold_locales (simp_all add: comp_def)

interpretation qt_direct_app: qt_quiet_owner qt_cl qt_cl_update "qt_app_call f"
    "\<lambda>s. \<exists>sl. receivedData_slots (qt_cl s) = [sl]" "\<lambda>_. True" qt_world f
  for f :: "bytes \<Rightarrow> 'w \<Rightarrow> 'w"
  by unfold_locales (auto simp: qt_emit_def qt_app_call_def)

lemma qt_app_close:
  "\<exists>g. close_socket api qt_cl qt_cl_update (qt_app_call f) s =
     (Inr (), s\<lparr>qt_cl := (qt_cl s)\<lparr>tcpSocket := fst (api_disconnectFromHost api (tcpSocket (qt_cl s))),
                heartBeatTimer := g\<rparr>\<rparr>)"
proof -
  obtain g where "close_socket api qt_cl qt_cl_update (qt_app_call f) s =
     (Inr (), qt_cl_update (\<lambda>c. c\<lparr>tcpSocket := fst (api_disconnectFromHost api (tcpSocket (qt_cl s))),
                heartBeatTimer := g (heartBeatTimer c)\<rparr>) s)"
    using qt_direct.close_socket_silent [of "qt_app_call f" api s] by (auto simp: qt_app_call_def)
  then show ?thesis by (intro exI [of _ "g (heartBeatTimer (qt_cl s))"]) (cases s, simp)
qed

text \<open>
  Claim C20 (equivalence): the two SDKs read a stream in the same way.  On equal buffers the loop of
  the plain client and the loop of the PyQt client both return, run their applications on
  the same messages in the same order, and leave the same bytes in the buffer; a bad frame
  makes the one close its socket and clear its flag, and the other call
  \<^verbatim>\<open>disconnectFromHost\<close>.
\<close>

theorem ports_agree:
  assumes "received_data_callback (client s) \<noteq> None" and "receivedData_slots (qt_cl t) = [sl]"
    and "qt_buffer (qt_cl t) = buffer (client s)" and "qt_MAX_MSG_SIZE (qt_cl t) = MAX_MSG_SIZE (client s)"
    and "qt_world t = app s"
    and "parse_stream (MAX_MSG_SIZE (client s)) (buffer (client s)) = (ms, left, e)"
  shows "\<exists>s' t'. process_buffer client client_update (app_callback f) s = Some (Inr (), s') \<and>
           processBuffer api qt_cl qt_cl_update (qt_app_call f) t = Some (Inr (), t') \<and>
           app s' = fold f (filter (\<lambda>m. m \<noteq> HEARTBEAT_RESPONSE) ms) (app s) \<and> qt_world t' = app s' \<and>
           buffer (client s') = left \<and> qt_buffer (qt_cl t') = left \<and>
           (if e = Bad_Frame
            then \<not> connected (client s') \<and> sk_state (tcp_socket (client s')) = Sock_Closed \<and>
                 tcpSocket (qt_cl t') = fst (api_disconnectFromHost api (tcpSocket (qt_cl t)))
            else qt_cl t' = (qt_cl t)\<lparr>qt_buffer := left\<rparr>)"
proof -
  obtain s1 where s1: "process_buffer client client_update (app_callback f) s =
        Some (Inr (), case e of Need_More \<Rightarrow> s1 | Bad_Frame \<Rightarrow> client_update drop_connection s1)"
      "buffer (client s1) = left" "app s1 = fold f (filter (\<lambda>m. m \<noteq> HEARTBEAT_RESPONSE) ms) (app s)"
    using py_app_loop.quiet_run [OF assms(1,6), of f] by (cases e) (auto simp: list_all_iff)
  obtain t1 where t1: "processBuffer api qt_cl qt_cl_update (qt_app_call f) t =
        Some (case e of Need_More \<Rightarrow> (Inr (), t1) | Bad_Frame \<Rightarrow> close_socket api qt_cl qt_cl_update (qt_app_call f) t1)"
      "qt_cl t1 = (qt_cl t)\<lparr>qt_buffer := left\<rparr>"
      "qt_world t1 = fold f (filter (\<lambda>m. m \<noteq> HEARTBEAT_RESPONSE) ms) (qt_world t)"
    using qt_direct_app.process_run [of t ms left e api f] assms(2-4,6) by (auto simp: list_all_iff)
  show ?thesis
  proof (cases e)
    case Need_More
    with s1 t1 assms(5) show ?thesis by auto
  next
    case Bad_Frame
    obtain g where "close_socket api qt_cl qt_cl_update (qt_app_call f) t1 =
        (Inr (), t1\<lparr>qt_cl := (qt_cl t1)\<lparr>tcpSocket := fst (api_disconnectFromHost api (tcpSocket (qt_cl t1))),
                heartBeatTimer := g\<rparr>\<rparr>)"
      using qt_app_close [of api f t1] by (elim exE)
    with Bad_Frame s1 t1 assms(5) show ?thesis
      by (auto simp: drop_connection_def set_connected_def connected_def sock_close_def Let_def)
  qed
qed

theorem ports_agree_witness:
  "\<exists>s' t'. process_buffer client client_update (app_callback (\<lambda>m w. w @ [m]))
             \<lparr>client = fresh_online\<lparr>buffer := frames [b_lit ''hi''] @ frame []\<rparr>, app = []\<rparr> = Some (Inr (), s') \<and>
           processBuffer sample_qt qt_cl qt_cl_update (qt_app_call (\<lambda>m w. w @ [m]))
             \<lparr>qt_cl = (new_qt_client sample_qt)\<lparr>qt_buffer := frames [b_lit ''hi''] @ frame [], receivedData_slots := [App_slot 0]\<rparr>,
              qt_world = []\<rparr> = Some (Inr (), t') \<and>
           app s' = [b_lit ''hi''] \<and> qt_world t' = [b_lit ''hi''] \<and> \<not> connected (client s')"
proof -
  let ?b = "frames [b_lit ''hi''] @ frame []"
  let ?s = "\<lparr>client = fresh_online\<lparr>buffer := ?b\<rparr>, app = [] :: bytes list\<rparr>"
  let ?t = "\<lparr>qt_cl = (new_qt_client sample_qt)\<lparr>qt_buffer := ?b, receivedData_slots := [App_slot 0]\<rparr>,
             qt_world = [] :: bytes list\<rparr>"
  have v: "list_all (valid_msg 16777216) [b_lit ''hi'']" by (simp add: valid_msg_def)
  have "next_frame 16777216 (frame []) = Invalid"
    by (simp add: next_frame_def frame_def struct_pack_I_def MAGIC_def)
  then have "parse_stream 16777216 ?b = ([b_lit ''hi''], frame [], Bad_Frame)"
    using parse_stream_frames [OF _ v, of "frame []"] by (simp add: parse_stream_unfold(2))
  then have p: "parse_stream (MAX_MSG_SIZE (client ?s)) (buffer (client ?s)) = ([b_lit ''hi''], frame [], Bad_Frame)"
    by (simp add: fresh_online)
  have cb: "received_data_callback (client ?s) \<noteq> None" by (simp add: fresh_online)
  have "receivedData_slots (qt_cl ?t) = [App_slot 0]" "qt_buffer (qt_cl ?t) = buffer (client ?s)"
      "qt_MAX_MSG_SIZE (qt_cl ?t) = MAX_MSG_SIZE (client ?s)" "qt_world ?t = app ?s"
    by (simp_all add: new_qt_client_def fresh_online)
  from ports_agree [OF cb this p, of "\<lambda>m w. w @ [m]" sample_qt] show ?thesis
    by (auto simp: HEARTBEAT_RESPONSE_def b_lit_def)
qed

end
