(* ===== verification/KL_QtConnection.thy ===== *)
theory KL_QtConnection
  imports KL_QtFraming
begin

text \<open>
  The life of one client of the PyQt SDK: any sequence of its operations, of signals of its
  socket and its timer, and of changes of the socket by the network, in any order.
\<close>

section \<open>Histories\<close>

datatype 'k qt_op =
    Q_connect pystr nat
  | Q_send bytes
  | Q_timeout
  | Q_readyRead
  | Q_signal qt_signal
  | Q_network 'k
  | Q_disconnect

text \<open>The application's slots act on its own state only; an operation that raises nothing returns.\<close>

fun qt_exec :: "('k, 't) qt_api \<Rightarrow> (bytes \<Rightarrow> 'w \<Rightarrow> 'w) \<Rightarrow> 'k qt_op \<Rightarrow> ('k, 't, 'w) qt_app \<Rightarrow> ('k, 't, 'w) qt_app" where
  "qt_exec api f (Q_connect ip port) s = snd (connectToServer api qt_cl qt_cl_update (qt_app_call f) ip port s)"
| "qt_exec api f (Q_send d) s = s\<lparr>qt_cl := snd (sendData api d (qt_cl s))\<rparr>"
| "qt_exec api f Q_timeout s = s\<lparr>qt_cl := snd (sendHeartbeat api (qt_cl s))\<rparr>"
| "qt_exec api f Q_readyRead s =
     (case readData api qt_cl qt_cl_update (qt_app_call f) s of None \<Rightarrow> s | Some (_, s') \<Rightarrow> s')"
| "qt_exec api f (Q_signal sg) s = snd (socket_signal api qt_cl qt_cl_update (qt_app_call f) sg s)"
| "qt_exec api f (Q_network k) s = s\<lparr>qt_cl := (qt_cl s)\<lparr>tcpSocket := k\<rparr>\<rparr>"
| "qt_exec api f Q_disconnect s = snd (qt_disconnect api qt_cl qt_cl_update (qt_app_call f) s)"

text \<open>The messages an operation hands to the socket.\<close>

definition qt_accepts :: "('k, 't) qt_api \<Rightarrow> bytes \<Rightarrow> ('k, 't) qt_client \<Rightarrow> bytes list" where
  "qt_accepts api d c =
     (if api_state api (tcpSocket c) = ConnectedState \<and> length d \<le> qt_MAX_MSG_SIZE c then [d] else [])"

fun qt_accepted :: "('k, 't) qt_api \<Rightarrow> 'k qt_op \<Rightarrow> ('k, 't) qt_client \<Rightarrow> bytes list" where
  "qt_accepted api (Q_send d) c = qt_accepts api d c"
| "qt_accepted api Q_timeout c = qt_accepts api HEARTBEAT c"
| "qt_accepted api _ c = []"

text \<open>The network never adds to what was written.\<close>

inductive qt_trace ::
  "('k, 't) qt_api \<Rightarrow> ('k \<Rightarrow> bytes) \<Rightarrow> (bytes \<Rightarrow> 'w \<Rightarrow> 'w) \<Rightarrow> 'w \<Rightarrow> ('k, 't, 'w) qt_app \<Rightarrow> bytes list \<Rightarrow> bool"
  for api wire f w where
  start: "qt_trace api wire f w \<lparr>qt_cl = (new_qt_client api)\<lparr>receivedData_slots := sls\<rparr>, qt_world = w\<rparr> []"
| step: "qt_trace api wire f w s ms \<Longrightarrow>
     (\<And>k. op = Q_network k \<Longrightarrow> wire k = wire (tcpSocket (qt_cl s))) \<Longrightarrow>
     qt_trace api wire f w (qt_exec api f op s) (ms @ qt_accepted api op (qt_cl s))"

section \<open>Sending\<close>

lemma qt_write_eq:
  assumes "qt_MAX_MSG_SIZE c < 2 ^ 32"
  shows "writeWithLengthPrefix api data c =
     (if api_state api (tcpSocket c) \<noteq> ConnectedState \<or> length data > qt_MAX_MSG_SIZE c then (Inr False, c)
      else (Inr True, c\<lparr>tcpSocket := api_write api (frame data) (tcpSocket c)\<rparr>))"
proof (cases "length data > qt_MAX_MSG_SIZE c")
  case False
  with assms obtain len where "struct_pack_I (length data) = Inr len" "frame data = MAGIC @ len @ data"
    using frame_pack [of data] by fastforce
  then show ?thesis by (auto simp: writeWithLengthPrefix_def)
qed (simp add: writeWithLengthPrefix_def)

definition qt_wire_inv :: "('k \<Rightarrow> bytes) \<Rightarrow> ('k, 't) qt_client \<Rightarrow> bytes list \<Rightarrow> bool" where
  "qt_wire_inv wire c ms \<longleftrightarrow>
     qt_MAX_MSG_SIZE c = 16777216 \<and> list_all (\<lambda>m. length m \<le> 16777216) ms \<and> wire (tcpSocket c) = frames ms"

lemma qt_wire_write:
  assumes "qt_laws api wire" and "qt_wire_inv wire c ms" and "writeWithLengthPrefix api d c = (x, c')"
  shows "qt_wire_inv wire c' (ms @ qt_accepts api d c)" and "\<exists>b. x = Inr b"
proof -
  have mx: "qt_MAX_MSG_SIZE c < 2 ^ 32" using assms(2) by (simp add: qt_wire_inv_def)
  show "qt_wire_inv wire c' (ms @ qt_accepts api d c)"
    using assms unfolding qt_write_eq [OF mx]
    by (auto simp: qt_wire_inv_def qt_accepts_def qt_laws_def split: if_splits)
  show "\<exists>b. x = Inr b" using assms(3) unfolding qt_write_eq [OF mx] by (auto split: if_splits)
qed

lemma qt_wire_cong:
  "qt_wire_inv wire c ms \<Longrightarrow> wire (tcpSocket c') = wire (tcpSocket c) \<Longrightarrow>
   qt_MAX_MSG_SIZE c' = qt_MAX_MSG_SIZE c \<Longrightarrow> qt_wire_inv wire c' ms"
  by (simp add: qt_wire_inv_def)

section \<open>What an operation does to the client\<close>

text \<open>For what is on the wire it does not matter what the application does with a message.\<close>

interpretation qt_any_app: qt_quiet_owner qt_cl qt_cl_update "qt_app_call f" "\<lambda>_. True" "\<lambda>_. True" "\<lambda>_. ()" "\<lambda>_ _. ()"
  for f :: "bytes \<Rightarrow> 'w \<Rightarrow> 'w"
proof unfold_locales
  fix s :: "('k, 't, 'w) qt_app" and m
  have "run_slots (qt_app_call f) sls (Emit_receivedData m) s =
      (Inr (), s\<lparr>qt_world := (f m ^^ length sls) (qt_world s)\<rparr>)" for sls
    by (induction sls arbitrary: s) (simp_all add: qt_app_call_def funpow_swap1)
  then show "\<exists>s'. qt_emit qt_cl (qt_app_call f) (Emit_receivedData m) s = (Inr (), s') \<and>
      qt_cl s' = qt_cl s \<and> True \<and> () = ()"
    by (simp add: qt_emit_def)
qed simp_all

lemma qt_app_silent:
  "qt_app_call f sl Emit_connected s = (Inr (), s)" "qt_app_call f sl Emit_disconnected s = (Inr (), s)"
  by (simp_all add: qt_app_call_def)

lemma qt_connect_effect:
  assumes "api_waitForConnected api 3000 (fst (api_connectToHost api ip port (tcpSocket (qt_cl s)))) = (ok, k, sgs)"
  shows "\<exists>t. connectToServer api qt_cl qt_cl_update (qt_app_call f) ip port s =
     (Inr ok, s\<lparr>qt_cl := (qt_cl s)\<lparr>tcpSocket := k, heartBeatTimer := t\<rparr>\<rparr>)"
proof -
  obtain g where "connectToServer api qt_cl qt_cl_update (qt_app_call f) ip port s =
      (Inr ok, qt_cl_update (\<lambda>c. c\<lparr>tcpSocket := k, heartBeatTimer := g (heartBeatTimer c)\<rparr>) s)"
    using qt_direct.connectToServer_silent [of "qt_app_call f", OF qt_app_silent assms] by blast
  then show ?thesis by (intro exI [of _ "g (heartBeatTimer (qt_cl s))"]) (cases s, simp)
qed

lemma qt_process_effect:
  obtains t k b where "processBuffer api qt_cl qt_cl_update (qt_app_call f) s = Some (Inr (), t)"
    and "(\<exists>g. qt_cl t = (qt_cl s)\<lparr>qt_buffer := b, tcpSocket := k, heartBeatTimer := g\<rparr>)"
    and "k = tcpSocket (qt_cl s) \<or> k = fst (api_disconnectFromHost api (tcpSocket (qt_cl s)))"
proof -
  obtain ms left e where p: "parse_stream (qt_MAX_MSG_SIZE (qt_cl s)) (qt_buffer (qt_cl s)) = (ms, left, e)"
    by (metis prod_cases3)
  obtain s1 where s1: "processBuffer api qt_cl qt_cl_update (qt_app_call f) s =
        Some (case e of Need_More \<Rightarrow> (Inr (), s1) | Bad_Frame \<Rightarrow> close_socket api qt_cl qt_cl_update (qt_app_call f) s1)"
      "qt_cl s1 = (qt_cl s)\<lparr>qt_buffer := left\<rparr>"
    using qt_any_app.process_run [OF TrueI p, of api f] by (auto simp: list_all_iff)
  obtain g where g: "close_socket api qt_cl qt_cl_update (qt_app_call f) s1 =
     (Inr (), s1\<lparr>qt_cl := (qt_cl s1)\<lparr>tcpSocket := fst (api_disconnectFromHost api (tcpSocket (qt_cl s1))),
                heartBeatTimer := g\<rparr>\<rparr>)"
    using qt_app_close [of api f s1] by (elim exE)
  show ?thesis
  proof (cases e)
    case Need_More
    with s1 show ?thesis
      by (intro that [of s1 "tcpSocket (qt_cl s)" left] exI [of _ "heartBeatTimer (qt_cl s)"]) simp_all
  next
    case Bad_Frame
    let ?k = "fst (api_disconnectFromHost api (tcpSocket (qt_cl s)))"
    have "\<exists>x. (qt_cl s)\<lparr>qt_buffer := left, tcpSocket := ?k, heartBeatTimer := g\<rparr> =
        (qt_cl s)\<lparr>qt_buffer := left, tcpSocket := ?k, heartBeatTimer := x\<rparr>"
      by (rule exI [of _ g]) simp
    with Bad_Frame s1 g that [of "s1\<lparr>qt_cl := (qt_cl s)\<lparr>qt_buffer := left, tcpSocket := ?k, heartBeatTimer := g\<rparr>\<rparr>" ?k left]
    show ?thesis by simp
  qed
qed

lemma qt_read_effect:
  assumes "qt_laws api wire"
  obtains t where "readData api qt_cl qt_cl_update (qt_app_call f) s = Some (Inr (), t)"
    and "wire (tcpSocket (qt_cl t)) = wire (tcpSocket (qt_cl s))"
    and "qt_MAX_MSG_SIZE (qt_cl t) = qt_MAX_MSG_SIZE (qt_cl s)"
proof -
  obtain d k where r: "api_readAll api (tcpSocket (qt_cl s)) = (d, k)" by fastforce
  with assms have w: "wire k = wire (tcpSocket (qt_cl s))" by (metis qt_laws_def snd_conv)
  let ?s1 = "qt_cl_update (\<lambda>c. c\<lparr>qt_buffer := qt_buffer c @ d\<rparr>) (qt_cl_update (\<lambda>c. c\<lparr>tcpSocket := k\<rparr>) s)"
  show ?thesis
  proof (cases "d = []")
    case True
    with r w that [of "qt_cl_update (\<lambda>c. c\<lparr>tcpSocket := k\<rparr>) s"] show ?thesis by (simp add: readData_def)
  next
    case False
    obtain t k2 b where t: "processBuffer api qt_cl qt_cl_update (qt_app_call f) ?s1 = Some (Inr (), t)"
        "\<exists>g. qt_cl t = (qt_cl ?s1)\<lparr>qt_buffer := b, tcpSocket := k2, heartBeatTimer := g\<rparr>"
        "k2 = tcpSocket (qt_cl ?s1) \<or> k2 = fst (api_disconnectFromHost api (tcpSocket (qt_cl ?s1)))"
      by (rule qt_process_effect)
    have "wire k2 = wire k" using t(3) assms by (auto simp: qt_laws_def)
    with False r w t(1,2) that [of t] show ?thesis by (auto simp: readData_def)
  qed
qed

lemma qt_disconnect_effect:
  "\<exists>g. qt_disconnect api qt_cl qt_cl_update (qt_app_call f) s =
     (Inr (), s\<lparr>qt_cl := (qt_cl s)\<lparr>tcpSocket := fst (api_disconnectFromHost api (tcpSocket (qt_cl s))),
                heartBeatTimer := g, qt_buffer := []\<rparr>\<rparr>)"
proof -
  obtain g where "close_socket api qt_cl qt_cl_update (qt_app_call f) s =
     (Inr (), s\<lparr>qt_cl := (qt_cl s)\<lparr>tcpSocket := fst (api_disconnectFromHost api (tcpSocket (qt_cl s))),
                heartBeatTimer := g\<rparr>\<rparr>)"
    using qt_app_close [of api f s] by (elim exE)
  then show ?thesis by (intro exI [of _ g]) (simp add: qt_disconnect_def comp_def)
qed

lemma qt_signal_effect:
  "\<exists>g. socket_signal api qt_cl qt_cl_update (qt_app_call f) sg s =
     (Inr (), s\<lparr>qt_cl := (qt_cl s)\<lparr>heartBeatTimer := g\<rparr>\<rparr>)"
proof -
  obtain g where "socket_signal api qt_cl qt_cl_update (qt_app_call f) sg s =
      (Inr (), qt_cl_update (\<lambda>c. c\<lparr>heartBeatTimer := g (heartBeatTimer c)\<rparr>) s)"
    using qt_direct.socket_signal_silent [of "qt_app_call f", OF qt_app_silent] by blast
  then show ?thesis by (intro exI [of _ "g (heartBeatTimer (qt_cl s))"]) (cases s, simp)
qed

lemma qt_wire_heartbeat:
  assumes "qt_laws api wire" and "qt_wire_inv wire c ms"
  shows "qt_wire_inv wire (snd (sendHeartbeat api c)) (ms @ qt_accepts api HEARTBEAT c)"
proof (cases "api_state api (tcpSocket c) = ConnectedState")
  case True
  obtain x c' where w: "writeWithLengthPrefix api HEARTBEAT c = (x, c')" by fastforce
  from qt_wire_write [OF assms w] True w show ?thesis by (auto simp: sendHeartbeat_def)
next
  case False
  with assms(2) show ?thesis by (simp add: sendHeartbeat_def qt_accepts_def qt_wire_inv_def)
qed

lemma qt_wire_send:
  assumes "qt_laws api wire" and "qt_wire_inv wire c ms"
  shows "qt_wire_inv wire (snd (sendData api d c)) (ms @ qt_accepts api d c)"
proof -
  obtain x c' where w: "writeWithLengthPrefix api d c = (x, c')" by fastforce
  from qt_wire_write [OF assms w] w show ?thesis by (auto simp: sendData_def)
qed

lemma qt_wire_exec:
  assumes laws: "qt_laws api wire" and inv: "qt_wire_inv wire (qt_cl s) ms"
    and net: "\<And>k. op = Q_network k \<Longrightarrow> wire k = wire (tcpSocket (qt_cl s))"
  shows "qt_wire_inv wire (qt_cl (qt_exec api f op s)) (ms @ qt_accepted api op (qt_cl s))"
proof (cases op)
  case (Q_connect ip port)
  obtain ok k sgs where w: "api_waitForConnected api 3000 (fst (api_connectToHost api ip port (tcpSocket (qt_cl s)))) = (ok, k, sgs)"
    by (metis prod_cases3)
  have "wire k = wire (tcpSocket (qt_cl s))"
    using laws w unfolding qt_laws_def by (metis fst_conv snd_conv)
  with Q_connect qt_connect_effect [OF w, of f] inv show ?thesis
    by (auto elim: qt_wire_cong)
next
  case Q_readyRead
  obtain t where "readData api qt_cl qt_cl_update (qt_app_call f) s = Some (Inr (), t)"
      "wire (tcpSocket (qt_cl t)) = wire (tcpSocket (qt_cl s))" "qt_MAX_MSG_SIZE (qt_cl t) = qt_MAX_MSG_SIZE (qt_cl s)"
    by (rule qt_read_effect [OF laws])
  with Q_readyRead inv show ?thesis by (auto elim: qt_wire_cong)
next
  case (Q_signal sg)
  with qt_signal_effect [of api f sg s] inv show ?thesis by (auto elim: qt_wire_cong)
next
  case Q_disconnect
  with qt_disconnect_effect [of api f s] inv laws show ?thesis
    by (auto elim: qt_wire_cong simp: qt_laws_def)
next
  case (Q_network k)
  with net inv show ?thesis by (auto elim: qt_wire_cong)
qed (use qt_wire_send [OF laws inv] qt_wire_heartbeat [OF laws inv] in simp_all)

lemma qt_trace_wire:
  assumes "qt_laws api wire" and "wire (api_QTcpSocket api) = []"
  shows "qt_trace api wire f w s ms \<Longrightarrow> qt_wire_inv wire (qt_cl s) ms"
proof (induction rule: qt_trace.induct)
  case (start sls)
  from assms(2) show ?case by (simp add: qt_wire_inv_def new_qt_client_def)
next
  case (step s ms op)
  from qt_wire_exec [OF assms(1) step.IH step.hyps(2)] show ?case .
qed

text \<open>
  Claim C21 (invariant): whatever a client of the PyQt SDK goes through, the bytes it has given to its
  socket are the frames of the messages it accepted, whole and in order, heartbeats
  included; none is over the size limit, and a peer that parses the stream reads exactly
  them if none is empty.  Of Qt only \<open>qt_laws\<close> is used, and that a new socket has nothing
  to send.
\<close>

theorem qt_sent_is_frames:
  assumes "qt_laws api wire" and "wire (api_QTcpSocket api) = []" and "qt_trace api wire f w s ms"
  shows "wire (tcpSocket (qt_cl s)) = frames ms \<and> list_all (\<lambda>m. length m \<le> 16777216) ms \<and>
         ([] \<notin> set ms \<longrightarrow> parse_stream 16777216 (wire (tcpSocket (qt_cl s))) = (ms, [], Need_More))"
proof -
  have inv: "wire (tcpSocket (qt_cl s)) = frames ms" "list_all (\<lambda>m. length m \<le> 16777216) ms"
    using qt_trace_wire [OF assms] by (simp_all add: qt_wire_inv_def)
  have "parse_stream 16777216 (frames ms @ []) = (ms, [], Need_More)" if "[] \<notin> set ms"
    by (subst parse_stream_frames)
      (use inv(2) that in \<open>auto simp: list_all_iff valid_msg_def parse_stream_unfold(1) next_frame_def\<close>)
  with inv show ?thesis by simp
qed

text \<open>A connection, a message and a heartbeat.\<close>

definition sample_qt_app :: "(sample_socket, bool, bytes list) qt_app" where
  "sample_qt_app = \<lparr>qt_cl = (new_qt_client sample_qt)\<lparr>receivedData_slots := [App_slot 0]\<rparr>, qt_world = []\<rparr>"

definition log_msg :: "bytes \<Rightarrow> bytes list \<Rightarrow> bytes list" where
  "log_msg m w = w @ [m]"

definition sample_qt_online :: "(sample_socket, bool, bytes list) qt_app" where
  "sample_qt_online = qt_exec sample_qt log_msg (Q_connect (str_lit ''127.0.0.1'') 6370) sample_qt_app"

lemma sample_qt_online:
  "qt_cl sample_qt_online = \<lparr>tcpSocket = (ConnectedState, [], []), heartBeatTimer = True, qt_buffer = [],
     qt_MAX_MSG_SIZE = 16777216, connected_slots = [], disconnected_slots = [],
     receivedData_slots = [App_slot 0]\<rparr>"
  "qt_world sample_qt_online = []"
  by (simp_all add: sample_qt_online_def sample_qt_app_def qt_simps)

lemma sample_qt_trace: "qt_trace sample_qt (\<lambda>(st, inb, out). out) log_msg [] sample_qt_online []"
proof -
  have "qt_trace sample_qt (\<lambda>(st, inb, out). out) log_msg [] sample_qt_app []"
    unfolding sample_qt_app_def by (rule qt_trace.start)
  from qt_trace.step [OF this, of "Q_connect (str_lit ''127.0.0.1'') 6370"] show ?thesis
    by (simp add: sample_qt_online_def)
qed

theorem qt_sent_is_frames_witness:
  "(\<lambda>(st, inb, out). out) (tcpSocket (qt_cl (qt_exec sample_qt log_msg Q_timeout
      (qt_exec sample_qt log_msg (Q_send (b_lit ''hi'')) sample_qt_online)))) = frames [b_lit ''hi'', HEARTBEAT]"
proof -
  let ?s1 = "qt_exec sample_qt log_msg (Q_send (b_lit ''hi'')) sample_qt_online"
  have t1: "qt_trace sample_qt (\<lambda>(st, inb, out). out) log_msg [] ?s1 [b_lit ''hi'']"
    using qt_trace.step [OF sample_qt_trace, of "Q_send (b_lit ''hi'')"]
    by (simp add: qt_accepts_def sample_qt_online sample_qt_def)
  have "qt_accepted sample_qt Q_timeout (qt_cl ?s1) = [HEARTBEAT]"
    by (simp add: qt_accepts_def sendData_def qt_write_eq sample_qt_online sample_qt_def HEARTBEAT_def)
  with qt_trace.step [OF t1, of Q_timeout]
  have "qt_trace sample_qt (\<lambda>(st, inb, out). out) log_msg [] (qt_exec sample_qt log_msg Q_timeout ?s1) [b_lit ''hi'', HEARTBEAT]"
    by (simp del: qt_exec.simps qt_accepted.simps)
  from qt_sent_is_frames [OF sample_qt_laws _ this] show ?thesis
    by (simp add: sample_qt_def del: qt_exec.simps)
qed

section \<open>A bad frame stays in the buffer\<close>

lemma qt_send_buffer:
  "qt_buffer (snd (writeWithLengthPrefix api d c)) = qt_buffer c"
  "qt_MAX_MSG_SIZE (snd (writeWithLengthPrefix api d c)) = qt_MAX_MSG_SIZE c"
  "qt_buffer (snd (sendData api d c)) = qt_buffer c"
  "qt_MAX_MSG_SIZE (snd (sendData api d c)) = qt_MAX_MSG_SIZE c"
  "qt_buffer (snd (sendHeartbeat api c)) = qt_buffer c"
  "qt_MAX_MSG_SIZE (snd (sendHeartbeat api c)) = qt_MAX_MSG_SIZE c"
  by (auto simp: writeWithLengthPrefix_def sendData_def sendHeartbeat_def split: sum.splits prod.splits if_splits)

lemma qt_read_invalid:
  assumes "next_frame (qt_MAX_MSG_SIZE (qt_cl s)) (qt_buffer (qt_cl s)) = Invalid"
    and "api_readAll api (tcpSocket (qt_cl s)) = (d, k)"
  shows "\<exists>g. readData api qt_cl qt_cl_update (qt_app_call f) s =
     Some (Inr (), s\<lparr>qt_cl := (qt_cl s)\<lparr>qt_buffer := qt_buffer (qt_cl s) @ d,
       tcpSocket := (if d = [] then k else fst (api_disconnectFromHost api k)), heartBeatTimer := g\<rparr>\<rparr>)"
proof (cases "d = []")
  case True
  with assms(2) show ?thesis
    by (intro exI [of _ "heartBeatTimer (qt_cl s)"]) (cases s, simp add: readData_def)
next
  case False
  define s1 where "s1 = s\<lparr>qt_cl := (qt_cl s)\<lparr>tcpSocket := k, qt_buffer := qt_buffer (qt_cl s) @ d\<rparr>\<rparr>"
  have eq: "qt_cl_update (\<lambda>c. c\<lparr>qt_buffer := qt_buffer c @ d\<rparr>) (qt_cl_update (\<lambda>c. c\<lparr>tcpSocket := k\<rparr>) s) = s1"
    by (cases s) (simp add: s1_def)
  have rd: "readData api qt_cl qt_cl_update (qt_app_call f) s = processBuffer api qt_cl qt_cl_update (qt_app_call f) s1"
    using False assms(2) unfolding eq [symmetric] by (simp add: readData_def)
  have "processBuffer api qt_cl qt_cl_update (qt_app_call f) s1 = Some (close_socket api qt_cl qt_cl_update (qt_app_call f) s1)"
    using next_frame_append(2) [OF assms(1), of d] by (subst processBuffer_step) (simp add: s1_def)
  moreover obtain g where "close_socket api qt_cl qt_cl_update (qt_app_call f) s1 =
     (Inr (), s1\<lparr>qt_cl := (qt_cl s1)\<lparr>tcpSocket := fst (api_disconnectFromHost api (tcpSocket (qt_cl s1))),
                heartBeatTimer := g\<rparr>\<rparr>)"
    using qt_app_close [of api f s1] by (elim exE)
  ultimately have "readData api qt_cl qt_cl_update (qt_app_call f) s =
     Some (Inr (), s1\<lparr>qt_cl := (qt_cl s1)\<lparr>tcpSocket := fst (api_disconnectFromHost api k), heartBeatTimer := g\<rparr>\<rparr>)"
    unfolding rd by (simp add: s1_def)
  then show ?thesis using False by (intro exI [of _ g]) (simp add: s1_def)
qed

lemma qt_exec_invalid:
  assumes bad: "next_frame (qt_MAX_MSG_SIZE (qt_cl s)) (qt_buffer (qt_cl s)) = Invalid" and op: "op \<noteq> Q_disconnect"
  shows "next_frame (qt_MAX_MSG_SIZE (qt_cl (qt_exec api f op s))) (qt_buffer (qt_cl (qt_exec api f op s))) = Invalid"
    and "qt_world (qt_exec api f op s) = qt_world s"
proof -
  obtain d k where "api_readAll api (tcpSocket (qt_cl s)) = (d, k)" by fastforce
  note read = qt_read_invalid [OF bad this, of f]
  have sig: "\<exists>g. qt_exec api f (Q_signal sg) s = s\<lparr>qt_cl := (qt_cl s)\<lparr>heartBeatTimer := g\<rparr>\<rparr>" for sg
    using qt_signal_effect [of api f sg s] by auto
  have con: "\<exists>k g. qt_exec api f (Q_connect ip port) s = s\<lparr>qt_cl := (qt_cl s)\<lparr>tcpSocket := k, heartBeatTimer := g\<rparr>\<rparr>" for ip port
  proof -
    obtain ok k sgs where "api_waitForConnected api 3000 (fst (api_connectToHost api ip port (tcpSocket (qt_cl s)))) = (ok, k, sgs)"
      by (metis prod_cases3)
    from qt_connect_effect [OF this, of f] show ?thesis by (intro exI [of _ k]) auto
  qed
  show "next_frame (qt_MAX_MSG_SIZE (qt_cl (qt_exec api f op s))) (qt_buffer (qt_cl (qt_exec api f op s))) = Invalid"
  proof (cases op)
    case (Q_connect ip port)
    with con [of ip port] bad show ?thesis by (auto simp del: qt_exec.simps)
  next
    case (Q_signal sg)
    with sig [of sg] bad show ?thesis by (auto simp del: qt_exec.simps)
  next
    case Q_readyRead
    with read next_frame_append(2) [OF bad, of d] show ?thesis by auto
  qed (use bad op in \<open>simp_all add: qt_send_buffer\<close>)
  show "qt_world (qt_exec api f op s) = qt_world s"
  proof (cases op)
    case (Q_connect ip port)
    with con [of ip port] show ?thesis by (auto simp del: qt_exec.simps)
  next
    case (Q_signal sg)
    with sig [of sg] show ?thesis by (auto simp del: qt_exec.simps)
  next
    case Q_readyRead
    with read show ?thesis by auto
  qed (use op in simp_all)
qed

text \<open>
  Claim C35 (safety): a bad frame outlives its connection.  The loop leaves the bad bytes in the buffer,
  and nothing but \<^verbatim>\<open>disconnect\<close> of the client clears it.  So in every history without that
  call, reconnections included, the application receives no message any more, and the
  first bytes that arrive on a new connection make the client disconnect from it.
\<close>

theorem bad_frame_outlives_connection:
  assumes "next_frame (qt_MAX_MSG_SIZE (qt_cl s)) (qt_buffer (qt_cl s)) = Invalid"
    and "Q_disconnect \<notin> set ops"
    and "fold (qt_exec api f) ops s = s'" and "api_readAll api (tcpSocket (qt_cl s')) = (d, k)" and "d \<noteq> []"
  shows "qt_world s' = qt_world s \<and>
         (\<exists>s''. readData api qt_cl qt_cl_update (qt_app_call f) s' = Some (Inr (), s'') \<and>
            qt_world s'' = qt_world s \<and> tcpSocket (qt_cl s'') = fst (api_disconnectFromHost api k))"
proof -
  have "next_frame (qt_MAX_MSG_SIZE (qt_cl s')) (qt_buffer (qt_cl s')) = Invalid \<and> qt_world s' = qt_world s"
    using assms(1-3)
  proof (induction ops arbitrary: s)
    case (Cons op ops)
    have "op \<noteq> Q_disconnect" "Q_disconnect \<notin> set ops" and run: "fold (qt_exec api f) ops (qt_exec api f op s) = s'"
      using Cons.prems(2,3) by (auto simp del: qt_exec.simps)
    with Cons.IH [OF qt_exec_invalid(1) [OF Cons.prems(1)] _ run] qt_exec_invalid(2) [OF Cons.prems(1), of op api f]
    show ?case by simp
  qed simp
  with qt_read_invalid [OF _ assms(4), of f] assms(5) show ?thesis by auto
qed

definition http_ops :: "sample_socket qt_op list" where
  "http_ops = [Q_connect (str_lit ''127.0.0.1'') 6370, Q_network (ConnectedState, frame (b_lit ''hi''), [])]"

theorem bad_frame_outlives_connection_witness:
  "qt_world (fold (qt_exec sample_qt log_msg) http_ops
      (sample_qt_online\<lparr>qt_cl := (qt_cl sample_qt_online)\<lparr>qt_buffer := b_lit ''GET / HTTP/1.1''\<rparr>\<rparr>)) = [] \<and>
   (\<exists>s''. readData sample_qt qt_cl qt_cl_update (qt_app_call log_msg)
       (fold (qt_exec sample_qt log_msg) http_ops
         (sample_qt_online\<lparr>qt_cl := (qt_cl sample_qt_online)\<lparr>qt_buffer := b_lit ''GET / HTTP/1.1''\<rparr>\<rparr>)) =
       Some (Inr (), s'') \<and> qt_world s'' = [] \<and> fst (tcpSocket (qt_cl s'')) = UnconnectedState)"
proof -
  let ?s = "sample_qt_online\<lparr>qt_cl := (qt_cl sample_qt_online)\<lparr>qt_buffer := b_lit ''GET / HTTP/1.1''\<rparr>\<rparr>"
  have bad: "next_frame (qt_MAX_MSG_SIZE (qt_cl ?s)) (qt_buffer (qt_cl ?s)) = Invalid"
    by (simp add: sample_qt_online next_frame_def b_lit_def MAGIC_def)
  have r: "api_readAll sample_qt (tcpSocket (qt_cl (fold (qt_exec sample_qt log_msg) http_ops ?s))) =
      (frame (b_lit ''hi''), (ConnectedState, [], []))"
    by (simp add: http_ops_def sample_qt_def)
  have "Q_disconnect \<notin> set http_ops" "frame (b_lit ''hi'') \<noteq> []"
    by (simp_all add: http_ops_def frame_def MAGIC_def)
  from bad_frame_outlives_connection [OF bad this(1) refl r this(2)] show ?thesis
    by (auto simp: sample_qt_online(2) sample_qt_def simp del: qt_exec.simps)
qed

section \<open>Slots that disconnect\<close>

text \<open>An application that handles a message and then calls \<^verbatim>\<open>disconnect\<close> of the client.\<close>

definition disconnecting_call :: "('k, 't) qt_api \<Rightarrow> (bytes \<Rightarrow> 'w \<Rightarrow> 'w) \<Rightarrow> ('k, 't, 'w) qt_app qt_call" where
  "disconnecting_call api f sl em s =
     (case em of
        Emit_receivedData d \<Rightarrow>
          qt_disconnect api qt_cl qt_cl_update (qt_app_call f) (s\<lparr>qt_world := f d (qt_world s)\<rparr>)
      | _ \<Rightarrow> (Inr (), s))"

text \<open>
  \<^verbatim>\<open>disconnect\<close> in a slot is final.  It clears the buffer, so of the
  messages already received the application sees only the one it is handling; the loop
  ends and the socket has been asked to disconnect.  In the plain Python SDK the remaining
  messages would still be delivered.
\<close>

theorem qt_disconnect_in_slot_is_final:
  assumes "receivedData_slots (qt_cl s) = [sl]" and "qt_MAX_MSG_SIZE (qt_cl s) < 2 ^ 32"
    and "valid_msg (qt_MAX_MSG_SIZE (qt_cl s)) m" and "m \<noteq> HEARTBEAT_RESPONSE"
    and "qt_buffer (qt_cl s) = frame m @ rest"
  shows "\<exists>s'. processBuffer api qt_cl qt_cl_update (disconnecting_call api f) s = Some (Inr (), s') \<and>
           qt_world s' = f m (qt_world s) \<and> qt_buffer (qt_cl s') = [] \<and>
           tcpSocket (qt_cl s') = fst (api_disconnectFromHost api (tcpSocket (qt_cl s)))"
proof -
  have fr: "next_frame (qt_MAX_MSG_SIZE (qt_cl s)) (qt_buffer (qt_cl s)) = Frame m rest"
    using next_frame_frame [OF assms(2,3)] assms(5) by simp
  let ?s1 = "qt_cl_update (\<lambda>c. c\<lparr>qt_buffer := rest\<rparr>) s"
  obtain g where d: "qt_disconnect api qt_cl qt_cl_update (qt_app_call f) (?s1\<lparr>qt_world := f m (qt_world ?s1)\<rparr>) =
      (Inr (), ?s1\<lparr>qt_world := f m (qt_world ?s1), qt_cl := (qt_cl ?s1)\<lparr>tcpSocket :=
         fst (api_disconnectFromHost api (tcpSocket (qt_cl ?s1))), heartBeatTimer := g, qt_buffer := []\<rparr>\<rparr>)"
    using qt_disconnect_effect [of api f "?s1\<lparr>qt_world := f m (qt_world ?s1)\<rparr>"] by auto
  then have "qt_emit qt_cl (disconnecting_call api f) (Emit_receivedData m) ?s1 =
      (Inr (), ?s1\<lparr>qt_world := f m (qt_world ?s1), qt_cl := (qt_cl ?s1)\<lparr>tcpSocket :=
         fst (api_disconnectFromHost api (tcpSocket (qt_cl ?s1))), heartBeatTimer := g, qt_buffer := []\<rparr>\<rparr>)"
    using assms(1) by (simp add: qt_emit_def disconnecting_call_def)
  from qt_direct.loop.loop_emptied [OF fr assms(4) this, of api] show ?thesis by simp
qed

theorem qt_disconnect_in_slot_is_final_witness:
  "\<exists>s'. processBuffer sample_qt qt_cl qt_cl_update (disconnecting_call sample_qt log_msg)
       (sample_qt_online\<lparr>qt_cl := (qt_cl sample_qt_online)\<lparr>qt_buffer := frame (b_lit ''a'') @ frame (b_lit ''b'')\<rparr>\<rparr>) =
       Some (Inr (), s') \<and> qt_world s' = [b_lit ''a''] \<and> qt_buffer (qt_cl s') = []"
  using qt_disconnect_in_slot_is_final [of
      "sample_qt_online\<lparr>qt_cl := (qt_cl sample_qt_online)\<lparr>qt_buffer := frame (b_lit ''a'') @ frame (b_lit ''b'')\<rparr>\<rparr>"
      "App_slot 0" "b_lit ''a''" "frame (b_lit ''b'')" sample_qt log_msg]
  by (auto simp: sample_qt_online valid_msg_def HEARTBEAT_RESPONSE_def b_lit_def log_msg_def)

text \<open>
  Claim C39 (termination): the slot of \<^verbatim>\<open>readyRead\<close> returns, whatever bytes are in the socket and in the
  buffer, if the slots connected to \<^verbatim>\<open>receivedData\<close> put nothing into the buffer; they may
  raise, send, or clear it.
\<close>

theorem qt_readData_returns:
  assumes "\<forall>sl em s. length (qt_buffer (qt_cl (snd (call sl em s)))) \<le> length (qt_buffer (qt_cl s))"
  shows "\<exists>r. readData api qt_cl qt_cl_update call s = Some r"
proof -
  have "length (qt_buffer (qt_cl (snd (run_slots call sls em s)))) \<le> length (qt_buffer (qt_cl s))" for sls em s
  proof (induction sls arbitrary: s)
    case (Cons sl sls)
    obtain x s1 where c: "call sl em s = (x, s1)" by fastforce
    with assms have "length (qt_buffer (qt_cl s1)) \<le> length (qt_buffer (qt_cl s))" by (metis snd_conv)
    with c Cons [of s1] show ?case by (cases x) auto
  qed simp
  then have "\<exists>r. processBuffer api qt_cl qt_cl_update call s = Some r" for s
    using qt_direct.loop.loop_returns [of call api s] by (simp add: qt_emit_def)
  then show ?thesis by (auto simp: readData_def Let_def split: prod.splits)
qed

theorem qt_readData_returns_witness:
  "\<exists>r. readData sample_qt qt_cl qt_cl_update (disconnecting_call sample_qt log_msg)
     (sample_qt_online\<lparr>qt_cl := (qt_cl sample_qt_online)\<lparr>tcpSocket := (ConnectedState, frame (b_lit ''a''), [])\<rparr>\<rparr>) = Some r"
proof (rule qt_readData_returns, intro allI)
  fix sl em s
  show "length (qt_buffer (qt_cl (snd (disconnecting_call sample_qt log_msg sl em s)))) \<le> length (qt_buffer (qt_cl s))"
  proof (cases em)
    case (Emit_receivedData d)
    with qt_disconnect_effect [of sample_qt log_msg "s\<lparr>qt_world := log_msg d (qt_world s)\<rparr>"] show ?thesis
      by (auto simp: disconnecting_call_def)
  qed (simp_all add: disconnecting_call_def)
qed

end
