(* ===== verification/KL_QtSignals.thy ===== *)
theory KL_QtSignals
  imports KL_QtConnection KL_SignalSender KL_SignalSubscriber
begin

text \<open>
  \<^verbatim>\<open>SignalSender.py\<close> and \<^verbatim>\<open>SignalSubscriber.py\<close> of the PyQt SDK.  What an application
  connects to the signals of a role is a parameter: \<open>user_bytes\<close> and \<open>user_text\<close> run the
  slots of the two data signals, \<open>user_slot n\<close> a slot it connected to the client itself.
\<close>

section \<open>SignalSender\<close>

record ('k, 't) qt_signal_sender =
  qs_appID :: "pystr option"
  qs_signalID :: "pystr option"
  qt_KLsender :: "('k, 't) qt_client"

definition qs_call :: "(nat \<Rightarrow> qt_emission \<Rightarrow> ('k, 't) qt_signal_sender \<Rightarrow> unit res \<times> ('k, 't) qt_signal_sender) \<Rightarrow>
    ('k, 't) qt_signal_sender qt_call" where
  "qs_call user sl em s = (case sl of App_slot n \<Rightarrow> user n em s | _ \<Rightarrow> (Inr (), s))"

text \<open>The constructor ignores whether the connection succeeded.\<close>

definition new_qt_signal_sender ::
  "('k, 't) qt_api \<Rightarrow> (nat \<Rightarrow> qt_emission \<Rightarrow> ('k, 't) qt_signal_sender \<Rightarrow> unit res \<times> ('k, 't) qt_signal_sender) \<Rightarrow>
   pystr option \<Rightarrow> pystr option \<Rightarrow> unit res \<times> ('k, 't) qt_signal_sender" where
  "new_qt_signal_sender api user APPID SignalID =
     (case connectToServer api qt_KLsender qt_KLsender_update (qs_call user) localhost 6370
             \<lparr>qs_appID = APPID, qs_signalID = SignalID, qt_KLsender = new_qt_client api\<rparr> of
        (Inl e, s) \<Rightarrow> (Inl e, s)
      | (Inr _, s) \<Rightarrow> (Inr (), s))"

definition qs_setConfig ::
  "pystr option \<Rightarrow> pystr option \<Rightarrow> ('k, 't) qt_signal_sender \<Rightarrow> ('k, 't) qt_signal_sender" where
  "qs_setConfig APPID SignalID s = s\<lparr>qs_appID := APPID, qs_signalID := SignalID\<rparr>"

text \<open>\<^verbatim>\<open>__emitt\<close>, \<^verbatim>\<open>_emitt\<close> and \<^verbatim>\<open>emitt\<close>.\<close>

definition qs_emitt_bytes ::
  "('k, 't) qt_api \<Rightarrow> pystr option \<Rightarrow> pystr option \<Rightarrow> bytes \<Rightarrow> ('k, 't) qt_signal_sender \<Rightarrow>
   unit res \<times> ('k, 't) qt_signal_sender" where
  "qs_emitt_bytes api APPID SignalID data s =
     (case encode_utf8 (topic (fstr APPID) (fstr SignalID) @ SEP) of
        Inl e \<Rightarrow> (Inl e, s)
      | Inr s_key_bytes \<Rightarrow>
          (case sendData api (s_key_bytes @ data) (qt_KLsender s) of (x, c) \<Rightarrow> (x, s\<lparr>qt_KLsender := c\<rparr>)))"

definition qs_emitt_data ::
  "('k, 't) qt_api \<Rightarrow> pystr option \<Rightarrow> pystr option \<Rightarrow> py_data \<Rightarrow> ('k, 't) qt_signal_sender \<Rightarrow>
   unit res \<times> ('k, 't) qt_signal_sender" where
  "qs_emitt_data api APPID SignalID data s =
     (case data of
        PBytes b \<Rightarrow> qs_emitt_bytes api APPID SignalID b s
      | PStr t \<Rightarrow> (case encode_utf8 t of Inl e \<Rightarrow> (Inl e, s) | Inr b \<Rightarrow> qs_emitt_bytes api APPID SignalID b s))"

definition qs_emitt ::
  "('k, 't) qt_api \<Rightarrow> py_data \<Rightarrow> ('k, 't) qt_signal_sender \<Rightarrow> unit res \<times> ('k, 't) qt_signal_sender" where
  "qs_emitt api data s = qs_emitt_data api (qs_appID s) (qs_signalID s) data s"

section \<open>SignalSubscriber\<close>

record ('k, 't, 'w) qt_signal_subscriber =
  qsub_appID :: pystr
  qsub_signalID :: pystr
  qt_KLsubscriber :: "('k, 't) qt_client"
  qsub_app :: 'w

record 'o qt_user =
  user_bytes :: "bytes \<Rightarrow> 'o \<Rightarrow> unit res \<times> 'o"
  user_text :: "pystr \<Rightarrow> 'o \<Rightarrow> unit res \<times> 'o"
  user_slot :: "nat \<Rightarrow> qt_emission \<Rightarrow> 'o \<Rightarrow> unit res \<times> 'o"

definition qsub_dataRecv ::
  "('k, 't, 'w) qt_signal_subscriber qt_user \<Rightarrow> bytes \<Rightarrow> ('k, 't, 'w) qt_signal_subscriber \<Rightarrow>
   unit res \<times> ('k, 't, 'w) qt_signal_subscriber" where
  "qsub_dataRecv U data s =
     (case user_bytes U data s of
        (Inl e, s1) \<Rightarrow> (Inl e, s1)
      | (Inr _, s1) \<Rightarrow>
          (case decode_utf8 data of
             Inl e \<Rightarrow> (Inl e, s1)
           | Inr received_text \<Rightarrow> user_text U received_text s1))"

fun qsub_call :: "('k, 't, 'w) qt_signal_subscriber qt_user \<Rightarrow> ('k, 't, 'w) qt_signal_subscriber qt_call" where
  "qsub_call U SignalSubscriber_dataRecv (Emit_receivedData d) s = qsub_dataRecv U d s"
| "qsub_call U (App_slot n) em s = user_slot U n em s"
| "qsub_call U _ _ s = (Inr (), s)"

definition qsub_send_topic ::
  "('k, 't) qt_api \<Rightarrow> ('k, 't, 'w) qt_signal_subscriber \<Rightarrow> unit res \<times> ('k, 't, 'w) qt_signal_subscriber" where
  "qsub_send_topic api s =
     (case encode_utf8 (topic (qsub_appID s) (qsub_signalID s)) of
        Inl e \<Rightarrow> (Inl e, s)
      | Inr s_key_bytes \<Rightarrow>
          (case sendData api s_key_bytes (qt_KLsubscriber s) of (x, c) \<Rightarrow> (x, s\<lparr>qt_KLsubscriber := c\<rparr>)))"

definition qsub_init ::
  "('k, 't) qt_api \<Rightarrow> ('k, 't, 'w) qt_signal_subscriber qt_user \<Rightarrow> ('k, 't, 'w) qt_signal_subscriber \<Rightarrow>
   unit res \<times> ('k, 't, 'w) qt_signal_subscriber" where
  "qsub_init api U s =
     (case connectToServer api qt_KLsubscriber qt_KLsubscriber_update (qsub_call U) localhost 6372
             (s\<lparr>qt_KLsubscriber := new_qt_client api\<rparr>) of
        (Inl e, s1) \<Rightarrow> (Inl e, s1)
      | (Inr _, s1) \<Rightarrow>
          qsub_send_topic api (qt_KLsubscriber_update
            (\<lambda>c. c\<lparr>receivedData_slots := receivedData_slots c @ [SignalSubscriber_dataRecv]\<rparr>) s1))"

text \<open>The constructor; the client has no value before \<^verbatim>\<open>init\<close> sets it.\<close>

definition new_qt_signal_subscriber ::
  "('k, 't) qt_api \<Rightarrow> ('k, 't, 'w) qt_signal_subscriber qt_user \<Rightarrow> pystr \<Rightarrow> pystr \<Rightarrow> 'w \<Rightarrow>
   unit res \<times> ('k, 't, 'w) qt_signal_subscriber" where
  "new_qt_signal_subscriber api U APPID SignalID w =
     qsub_init api U \<lparr>qsub_appID = APPID, qsub_signalID = SignalID, qt_KLsubscriber = new_qt_client api, qsub_app = w\<rparr>"

definition qsub_subscribe ::
  "('k, 't) qt_api \<Rightarrow> pystr \<Rightarrow> pystr \<Rightarrow> ('k, 't, 'w) qt_signal_subscriber \<Rightarrow>
   unit res \<times> ('k, 't, 'w) qt_signal_subscriber" where
  "qsub_subscribe api APPID SignalID s =
     qsub_send_topic api (s\<lparr>qsub_appID := APPID, qsub_signalID := SignalID\<rparr>)"

section \<open>Correctness of the subscriber\<close>

interpretation qt_subscriber: qt_lens qt_KLsubscriber qt_KLsubscriber_update
  by unfold_locales (simp_all add: comp_def)

text \<open>Application slots that act on the application's own state.\<close>

definition qsub_app_user :: "(bytes \<Rightarrow> 'w \<Rightarrow> 'w) \<Rightarrow> (pystr \<Rightarrow> 'w \<Rightarrow> 'w) \<Rightarrow> ('k, 't, 'w) qt_signal_subscriber qt_user" where
  "qsub_app_user fa f =
     \<lparr>user_bytes = (\<lambda>d s. (Inr (), s\<lparr>qsub_app := fa d (qsub_app s)\<rparr>)),
      user_text = (\<lambda>t s. (Inr (), s\<lparr>qsub_app := f t (qsub_app s)\<rparr>)),
      user_slot = (\<lambda>n em s. (Inr (), s))\<rparr>"

definition decodes :: "bytes \<Rightarrow> bool" where
  "decodes m \<longleftrightarrow> (\<exists>t. decode_utf8 m = Inr t)"

definition text_of :: "bytes \<Rightarrow> pystr" where
  "text_of m = (case decode_utf8 m of Inl _ \<Rightarrow> [] | Inr t \<Rightarrow> t)"

interpretation qt_subscriber_app: qt_quiet_owner qt_KLsubscriber qt_KLsubscriber_update
    "qsub_call (qsub_app_user fa f)" "\<lambda>s. receivedData_slots (qt_KLsubscriber s) = [SignalSubscriber_dataRecv]"
    decodes qsub_app "\<lambda>m w. f (text_of m) (fa m w)"
  for fa :: "bytes \<Rightarrow> 'w \<Rightarrow> 'w" and f
  by unfold_locales
    (auto simp: qt_emit_def qsub_dataRecv_def qsub_app_user_def decodes_def text_of_def)

lemma decodes_utf8:
  assumes "list_all is_scalar t"
  shows "decodes (utf8_bytes t)" "text_of (utf8_bytes t) = t"
  using decode_utf8_bytes(1) [OF assms] by (simp_all add: decodes_def text_of_def)

lemma fold_texts:
  assumes "list_all (list_all is_scalar) ts"
  shows "list_all decodes (filter (\<lambda>m. m \<noteq> HEARTBEAT_RESPONSE) (map utf8_bytes ts))"
    and "fold (\<lambda>m w. f (text_of m) (fa m w)) (filter (\<lambda>m. m \<noteq> HEARTBEAT_RESPONSE) (map utf8_bytes ts)) w =
         fold (\<lambda>t w. f t (fa (utf8_bytes t) w)) (filter (\<lambda>t. t \<noteq> str_lit ''heartbeat_response'') ts) w"
  using assms
  by (induction ts arbitrary: w) (auto simp: decodes_utf8 utf8_heartbeat_response list_all_iff)


text \<open>
  A message that is not UTF-8 raises in the slot of the PyQt subscriber.  The
  bytes have been emitted, the text is not, the exception leaves \<^verbatim>\<open>readData\<close>, and the
  messages behind it stay in the buffer.  The plain SDK decodes the same message with
  replacement characters instead.
\<close>

theorem qt_invalid_text_raises:
  assumes "receivedData_slots (qt_KLsubscriber s) = [SignalSubscriber_dataRecv]"
    and "qt_buffer (qt_KLsubscriber s) = []" and "qt_MAX_MSG_SIZE (qt_KLsubscriber s) < 2 ^ 32"
    and "valid_msg (qt_MAX_MSG_SIZE (qt_KLsubscriber s)) m" and "decode_utf8 m = Inl e"
    and "m \<noteq> HEARTBEAT_RESPONSE"
    and "api_readAll api (tcpSocket (qt_KLsubscriber s)) = (frame m @ rest, k)"
  shows "\<exists>s'. readData api qt_KLsubscriber qt_KLsubscriber_update (qsub_call (qsub_app_user fa f)) s = Some (Inl e, s') \<and>
           qsub_app s' = fa m (qsub_app s) \<and> qt_buffer (qt_KLsubscriber s') = rest"
proof -
  define s1 where "s1 = qt_KLsubscriber_update (\<lambda>c. c\<lparr>qt_buffer := qt_buffer c @ (frame m @ rest)\<rparr>)
    (qt_KLsubscriber_update (\<lambda>c. c\<lparr>tcpSocket := k\<rparr>) s)"
  have s1: "qt_buffer (qt_KLsubscriber s1) = frame m @ rest" "qt_MAX_MSG_SIZE (qt_KLsubscriber s1) = qt_MAX_MSG_SIZE (qt_KLsubscriber s)"
      "receivedData_slots (qt_KLsubscriber s1) = [SignalSubscriber_dataRecv]" "qsub_app s1 = qsub_app s"
    using assms(1,2) by (simp_all add: s1_def)
  have "next_frame (qt_MAX_MSG_SIZE (qt_KLsubscriber s1)) (qt_buffer (qt_KLsubscriber s1)) = Frame m rest"
    using next_frame_frame [OF assms(3,4)] by (simp add: s1)
  from qt_subscriber.loop.loop_Frame [OF this, of api "qsub_call (qsub_app_user fa f)"]
  have "\<exists>s'. processBuffer api qt_KLsubscriber qt_KLsubscriber_update (qsub_call (qsub_app_user fa f)) s1 = Some (Inl e, s') \<and>
           qsub_app s' = fa m (qsub_app s) \<and> qt_buffer (qt_KLsubscriber s') = rest"
    using assms(5,6) s1 by (simp add: qt_emit_def qsub_dataRecv_def qsub_app_user_def)
  moreover have "frame m @ rest \<noteq> []" by (simp add: frame_def MAGIC_def)
  ultimately show ?thesis using assms(7) by (simp add: readData_def s1_def Let_def)
qed

section \<open>The senders of the two SDKs\<close>

text \<open>
  Claim C38 (equivalence): the senders of the two SDKs put the same bytes on the wire.  With the same ids
  and connected, both raise the same exception on text that cannot be encoded; a message
  over the limit is refused, by the plain sender with \<^verbatim>\<open>ValueError\<close> and by the PyQt sender
  silently; every other message is handed to the socket as the same single frame.
\<close>

theorem senders_agree:
  assumes "connected (KLsender s)" and "sk_state (tcp_socket (KLsender s)) = Sock_Connected"
    and "MAX_MSG_SIZE (KLsender s) = 16777216"
    and "api_state api (tcpSocket (qt_KLsender t)) = ConnectedState" and "qt_MAX_MSG_SIZE (qt_KLsender t) = 16777216"
    and "qs_appID t = sender_appID s" and "qs_signalID t = sender_signalID s"
  shows "if list_ex is_surrogate x \<or> \<not> sender_ids_ok s
         then emitt Send_Ok (PStr x) s = (Inl UnicodeEncodeError, s) \<and>
              qs_emitt api (PStr x) t = (Inl UnicodeEncodeError, t)
         else if length (signal_msg s (utf8_bytes x)) > 16777216
         then emitt Send_Ok (PStr x) s = (Inl ValueError, s) \<and> qs_emitt api (PStr x) t = (Inr (), t)
         else emitt Send_Ok (PStr x) s = (Inr (), KLsender_update (add_sent (frame (signal_msg s (utf8_bytes x)))) s) \<and>
              qs_emitt api (PStr x) t =
                (Inr (), t\<lparr>qt_KLsender := (qt_KLsender t)\<lparr>tcpSocket :=
                   api_write api (frame (signal_msg s (utf8_bytes x))) (tcpSocket (qt_KLsender t))\<rparr>\<rparr>)"
  using assms
  by (auto simp: emitt_PStr send_data_def write_eq sender.upd_same qs_emitt_def qs_emitt_data_def qs_emitt_bytes_def
      encode_utf8_def sendData_def qt_write_eq signal_msg_def sender_ids_ok_def)

section \<open>Samples\<close>

text \<open>The log of an application that records both signals of a subscriber.\<close>

definition log_bytes :: "bytes \<Rightarrow> (bytes + pystr) list \<Rightarrow> (bytes + pystr) list" where
  "log_bytes d w = w @ [Inl d]"

definition log_text :: "pystr \<Rightarrow> (bytes + pystr) list \<Rightarrow> (bytes + pystr) list" where
  "log_text t w = w @ [Inr t]"

definition sample_qt_subscriber :: "(sample_socket, bool, (bytes + pystr) list) qt_signal_subscriber" where
  "sample_qt_subscriber =
     snd (new_qt_signal_subscriber sample_qt (qsub_app_user log_bytes log_text) (str_lit ''app'') (str_lit ''sig'') [])"

lemma sample_qt_subscriber:
  "receivedData_slots (qt_KLsubscriber sample_qt_subscriber) = [SignalSubscriber_dataRecv]"
  "qt_buffer (qt_KLsubscriber sample_qt_subscriber) = []"
  "qt_MAX_MSG_SIZE (qt_KLsubscriber sample_qt_subscriber) = 16777216"
  "qsub_app sample_qt_subscriber = []"
  "tcpSocket (qt_KLsubscriber sample_qt_subscriber) = (ConnectedState, [], frame (b_lit ''app-sig''))"
  by (simp_all add: sample_qt_subscriber_def new_qt_signal_subscriber_def qsub_init_def
      qt_simps qsub_send_topic_def encode_utf8_def
      topic_def str_lit_def dash_def is_surrogate_def sendData_def qt_write_eq utf8_char_def b_lit_def)


theorem qt_invalid_text_raises_witness:
  "\<exists>s'. readData sample_qt qt_KLsubscriber qt_KLsubscriber_update (qsub_call (qsub_app_user log_bytes log_text))
         (sample_qt_subscriber\<lparr>qt_KLsubscriber := (qt_KLsubscriber sample_qt_subscriber)
            \<lparr>tcpSocket := (ConnectedState, frame [0xFF] @ frame (b_lit ''a''), [])\<rparr>\<rparr>) = Some (Inl UnicodeDecodeError, s') \<and>
       qsub_app s' = [Inl [0xFF]] \<and> qt_buffer (qt_KLsubscriber s') = frame (b_lit ''a'')"
proof -
  let ?s = "sample_qt_subscriber\<lparr>qt_KLsubscriber := (qt_KLsubscriber sample_qt_subscriber)
            \<lparr>tcpSocket := (ConnectedState, frame [0xFF] @ frame (b_lit ''a''), [])\<rparr>\<rparr>"
  have d: "decode_utf8 [0xFF] = Inl UnicodeDecodeError"
    by (simp add: decode_utf8_def decode_items.simps utf8_step.simps Let_def)
  have r: "api_readAll sample_qt (tcpSocket (qt_KLsubscriber ?s)) = (frame [0xFF] @ frame (b_lit ''a''), (ConnectedState, [], []))"
    by (simp add: sample_qt_def)
  from qt_invalid_text_raises [of ?s, OF _ _ _ _ d _ r, of log_bytes log_text] show ?thesis
    by (simp add: sample_qt_subscriber valid_msg_def HEARTBEAT_RESPONSE_def b_lit_def log_bytes_def)
qed

definition sample_qt_sender :: "(sample_socket, bool) qt_signal_sender" where
  "sample_qt_sender = snd (new_qt_signal_sender sample_qt (\<lambda>n em s. (Inr (), s)) (Some (str_lit ''app'')) None)"

theorem senders_agree_witness:
  "qs_emitt sample_qt (PStr (str_lit ''hi'')) sample_qt_sender =
     (Inr (), sample_qt_sender\<lparr>qt_KLsender := (qt_KLsender sample_qt_sender)\<lparr>tcpSocket :=
        api_write sample_qt (frame (signal_msg (new_signal_sender True (Some (str_lit ''app'')) None) (utf8_bytes (str_lit ''hi''))))
          (tcpSocket (qt_KLsender sample_qt_sender))\<rparr>\<rparr>)"
proof -
  let ?s = "new_signal_sender True (Some (str_lit ''app'')) None" and ?t = "sample_qt_sender"
  have 1: "connected (KLsender ?s)" "sk_state (tcp_socket (KLsender ?s)) = Sock_Connected"
      "MAX_MSG_SIZE (KLsender ?s) = 16777216"
    by (simp_all add: new_signal_sender_def connect_to_server_def sock_connect_def new_client_def
        new_socket_def client_simps)
  have 2: "api_state sample_qt (tcpSocket (qt_KLsender ?t)) = ConnectedState" "qt_MAX_MSG_SIZE (qt_KLsender ?t) = 16777216"
      "qs_appID ?t = sender_appID ?s" "qs_signalID ?t = sender_signalID ?s"
    by (simp_all add: sample_qt_sender_def new_qt_signal_sender_def qt_simps new_signal_sender_def)
  have 3: "sender_ids_ok ?s" "\<not> list_ex is_surrogate (str_lit ''hi'')"
    by (simp_all add: sender_ids_ok_def new_signal_sender_def fstr_def str_lit_def is_surrogate_def)
  have 4: "\<not> length (signal_msg ?s (utf8_bytes (str_lit ''hi''))) > 16777216"
    by (simp add: signal_msg_def new_signal_sender_def fstr_def topic_def str_lit_def SEP_simps
        utf8_char_def)
  show ?thesis using senders_agree [OF 1 2, of "str_lit ''hi''"] 3 4 by simp
qed

end
