(* ===== verification/KL_QtQuerier.thy ===== *)
theory KL_QtQuerier
  imports KL_QtSignals
begin

text \<open>
  \<^verbatim>\<open>OpenSocketQuerier.py\<close> of the PyQt SDK.  \<^verbatim>\<open>query_l\<close> blocks in a local event loop until
  a slot of its own, connected for the time of the call, has received a message.  While it
  waits, the event loop runs any other handler of the program, among them further calls of
  \<^verbatim>\<open>query_l\<close>.
\<close>

section \<open>State\<close>

text \<open>
  \<open>qq_result\<close> and \<open>qq_quit\<close> are the local variables of the calls of \<^verbatim>\<open>query_l\<close>, by the
  number of the call: the text its closure has stored, and whether its event loop was told
  to quit.  \<open>qq_next\<close> is the number of the next call.
\<close>

record ('k, 't, 'w) qt_querier =
  qq_appID :: pystr
  qq_openSocketID :: pystr
  qt_KLquerier :: "('k, 't) qt_client"
  qq_lock :: bool
  qq_result :: "nat \<Rightarrow> pystr"
  qq_quit :: "nat \<Rightarrow> bool"
  qq_next :: nat
  qq_app :: 'w

section \<open>Operations\<close>

definition qq_dataRecv ::
  "('k, 't, 'w) qt_querier qt_user \<Rightarrow> bytes \<Rightarrow> ('k, 't, 'w) qt_querier \<Rightarrow> unit res \<times> ('k, 't, 'w) qt_querier" where
  "qq_dataRecv U data s =
     (if qq_lock s then (Inr (), s)
      else (case user_bytes U data s of
              (Inl e, s1) \<Rightarrow> (Inl e, s1)
            | (Inr _, s1) \<Rightarrow>
                (case decode_utf8 data of
                   Inl e \<Rightarrow> (Inl e, s1)
                 | Inr received_text \<Rightarrow> user_text U received_text s1)))"

text \<open>The closure of call \<open>i\<close> of \<^verbatim>\<open>query_l\<close>.\<close>

definition on_data_received ::
  "nat \<Rightarrow> bytes \<Rightarrow> ('k, 't, 'w) qt_querier \<Rightarrow> unit res \<times> ('k, 't, 'w) qt_querier" where
  "on_data_received i data s =
     (case decode_utf8 data of
        Inl e \<Rightarrow> (Inl e, s)
      | Inr t \<Rightarrow> (Inr (), s\<lparr>qq_result := (qq_result s)(i := t), qq_lock := False, qq_quit := (qq_quit s)(i := True)\<rparr>))"

fun qq_call :: "('k, 't, 'w) qt_querier qt_user \<Rightarrow> ('k, 't, 'w) qt_querier qt_call" where
  "qq_call U OpenSocketQuerier_dataRecv (Emit_receivedData d) s = qq_dataRecv U d s"
| "qq_call U (On_data_received i) (Emit_receivedData d) s = on_data_received i d s"
| "qq_call U (App_slot n) em s = user_slot U n em s"
| "qq_call U _ _ s = (Inr (), s)"

definition qq_init ::
  "('k, 't) qt_api \<Rightarrow> ('k, 't, 'w) qt_querier qt_user \<Rightarrow> ('k, 't, 'w) qt_querier \<Rightarrow>
   unit res \<times> ('k, 't, 'w) qt_querier" where
  "qq_init api U s =
     (case connectToServer api qt_KLquerier qt_KLquerier_update (qq_call U) localhost 6376
             (s\<lparr>qt_KLquerier := new_qt_client api\<rparr>) of
        (Inl e, s1) \<Rightarrow> (Inl e, s1)
      | (Inr _, s1) \<Rightarrow>
          (Inr (), (qt_KLquerier_update
             (\<lambda>c. c\<lparr>receivedData_slots := receivedData_slots c @ [OpenSocketQuerier_dataRecv]\<rparr>) s1)\<lparr>qq_lock := False\<rparr>))"

text \<open>
  The class defines \<^verbatim>\<open>__init__\<close> twice; the second definition is the one that counts.  The
  lock has no value before \<^verbatim>\<open>init\<close> sets it.
\<close>

definition new_qt_querier ::
  "('k, 't) qt_api \<Rightarrow> ('k, 't, 'w) qt_querier qt_user \<Rightarrow> pystr \<Rightarrow> pystr \<Rightarrow> 'w \<Rightarrow>
   unit res \<times> ('k, 't, 'w) qt_querier" where
  "new_qt_querier api U APPID OpenSocketID w =
     qq_init api U \<lparr>qq_appID = APPID, qq_openSocketID = OpenSocketID, qt_KLquerier = new_qt_client api,
       qq_lock = False, qq_result = (\<lambda>i. []), qq_quit = (\<lambda>i. False), qq_next = 0, qq_app = w\<rparr>"

definition qq_setConfig :: "pystr \<Rightarrow> pystr \<Rightarrow> ('k, 't, 'w) qt_querier \<Rightarrow> ('k, 't, 'w) qt_querier" where
  "qq_setConfig APPID OpenSocketID s = s\<lparr>qq_appID := APPID, qq_openSocketID := OpenSocketID\<rparr>"

definition qq_query_to_a ::
  "('k, 't) qt_api \<Rightarrow> pystr \<Rightarrow> pystr \<Rightarrow> bytes \<Rightarrow> ('k, 't, 'w) qt_querier \<Rightarrow> unit res \<times> ('k, 't, 'w) qt_querier" where
  "qq_query_to_a api APPID OpenSocketID data s =
     (case encode_utf8 (topic APPID OpenSocketID @ SEP) of
        Inl e \<Rightarrow> (Inl e, s)
      | Inr s_key_bytes \<Rightarrow>
          (case sendData api (s_key_bytes @ data) (qt_KLquerier s) of (x, c) \<Rightarrow> (x, s\<lparr>qt_KLquerier := c\<rparr>)))"

definition qq_query_to ::
  "('k, 't) qt_api \<Rightarrow> pystr \<Rightarrow> pystr \<Rightarrow> pystr \<Rightarrow> ('k, 't, 'w) qt_querier \<Rightarrow> unit res \<times> ('k, 't, 'w) qt_querier" where
  "qq_query_to api APPID OpenSocketID data s =
     (case encode_utf8 data of Inl e \<Rightarrow> (Inl e, s) | Inr b \<Rightarrow> qq_query_to_a api APPID OpenSocketID b s)"

definition qq_query_a ::
  "('k, 't) qt_api \<Rightarrow> bytes \<Rightarrow> ('k, 't, 'w) qt_querier \<Rightarrow> unit res \<times> ('k, 't, 'w) qt_querier" where
  "qq_query_a api data s = qq_query_to_a api (qq_appID s) (qq_openSocketID s) data s"

definition qq_query ::
  "('k, 't) qt_api \<Rightarrow> pystr \<Rightarrow> ('k, 't, 'w) qt_querier \<Rightarrow> unit res \<times> ('k, 't, 'w) qt_querier" where
  "qq_query api data s =
     (case encode_utf8 data of
        Inl e \<Rightarrow> (Inl e, s)
      | Inr b \<Rightarrow> qq_query_to_a api (qq_appID s) (qq_openSocketID s) b s)"

subsection \<open>The blocking query\<close>

text \<open>Up to the event loop; the result is the number of the call.\<close>

definition query_l_begin ::
  "('k, 't) qt_api \<Rightarrow> pystr \<Rightarrow> ('k, 't, 'w) qt_querier \<Rightarrow> nat res \<times> ('k, 't, 'w) qt_querier" where
  "query_l_begin api data s =
     (let i = qq_next s;
          s1 = s\<lparr>qq_next := Suc i, qq_result := (qq_result s)(i := []), qq_quit := (qq_quit s)(i := False)\<rparr>;
          s2 = qt_KLquerier_update (\<lambda>c. c\<lparr>receivedData_slots := receivedData_slots c @ [On_data_received i]\<rparr>) s1
      in case qq_query api data s2 of
           (Inl e, s3) \<Rightarrow> (Inl e, s3)
         | (Inr _, s3) \<Rightarrow> (Inr i, s3\<lparr>qq_lock := True\<rparr>))"

text \<open>
  \<^verbatim>\<open>loop.exec_()\<close>: the event loop runs one handler after the other until the flag of the
  call is set.  A handler is any function of the querier that may raise or never return;
  with no handler left the loop waits, and \<open>None\<close> is a loop that never returns.
\<close>

type_synonym 'o qt_handler = "'o \<Rightarrow> (unit res \<times> 'o) option"

fun exec_loop :: "nat \<Rightarrow> ('k, 't, 'w) qt_querier qt_handler list \<Rightarrow> ('k, 't, 'w) qt_querier qt_handler" where
  "exec_loop i [] s = None"
| "exec_loop i (h # hs) s =
     (case h s of
        None \<Rightarrow> None
      | Some (Inl e, s1) \<Rightarrow> Some (Inl e, s1)
      | Some (Inr _, s1) \<Rightarrow> if qq_quit s1 i then Some (Inr (), s1) else exec_loop i hs s1)"

text \<open>After the event loop.\<close>

definition query_l_end :: "nat \<Rightarrow> ('k, 't, 'w) qt_querier \<Rightarrow> pystr \<times> ('k, 't, 'w) qt_querier" where
  "query_l_end i s =
     (qq_result s i,
      qt_KLquerier_update (\<lambda>c. c\<lparr>receivedData_slots := remove1 (On_data_received i) (receivedData_slots c)\<rparr>) s)"

definition query_l ::
  "('k, 't) qt_api \<Rightarrow> ('k, 't, 'w) qt_querier qt_handler list \<Rightarrow> pystr \<Rightarrow> ('k, 't, 'w) qt_querier \<Rightarrow>
   (pystr res \<times> ('k, 't, 'w) qt_querier) option" where
  "query_l api hs data s =
     (case query_l_begin api data s of
        (Inl e, s1) \<Rightarrow> Some (Inl e, s1)
      | (Inr i, s1) \<Rightarrow>
          (case exec_loop i hs s1 of
             None \<Rightarrow> None
           | Some (Inl e, s2) \<Rightarrow> Some (Inl e, s2)
           | Some (Inr _, s2) \<Rightarrow> (case query_l_end i s2 of (r, s3) \<Rightarrow> Some (Inr r, s3))))"

text \<open>
  Handlers of the event loop: \<^verbatim>\<open>readyRead\<close> when the socket has reached the state \<open>k\<close>, a
  tick of the heartbeat timer, and another blocking query, whose result is not used here.
\<close>

definition on_readyRead ::
  "('k, 't) qt_api \<Rightarrow> ('k, 't, 'w) qt_querier qt_user \<Rightarrow> 'k \<Rightarrow> ('k, 't, 'w) qt_querier qt_handler" where
  "on_readyRead api U k s =
     readData api qt_KLquerier qt_KLquerier_update (qq_call U) (qt_KLquerier_update (\<lambda>c. c\<lparr>tcpSocket := k\<rparr>) s)"

definition on_timeout :: "('k, 't) qt_api \<Rightarrow> ('k, 't, 'w) qt_querier qt_handler" where
  "on_timeout api s = (case sendHeartbeat api (qt_KLquerier s) of (x, c) \<Rightarrow> Some (x, s\<lparr>qt_KLquerier := c\<rparr>))"

definition on_button ::
  "('k, 't) qt_api \<Rightarrow> ('k, 't, 'w) qt_querier qt_handler list \<Rightarrow> pystr \<Rightarrow> (pystr \<Rightarrow> 'w \<Rightarrow> 'w) \<Rightarrow>
   ('k, 't, 'w) qt_querier qt_handler" where
  "on_button api hs data use s =
     (case query_l api hs data s of
        None \<Rightarrow> None
      | Some (Inl e, s1) \<Rightarrow> Some (Inl e, s1)
      | Some (Inr r, s1) \<Rightarrow> Some (Inr (), s1\<lparr>qq_app := use r (qq_app s1)\<rparr>))"

section \<open>Messages that arrive while calls are pending\<close>

interpretation qt_querier: qt_lens qt_KLquerier qt_KLquerier_update
  by unfold_locales (simp_all add: comp_def)

definition qq_app_user :: "(bytes \<Rightarrow> 'w \<Rightarrow> 'w) \<Rightarrow> (pystr \<Rightarrow> 'w \<Rightarrow> 'w) \<Rightarrow> ('k, 't, 'w) qt_querier qt_user" where
  "qq_app_user fa f =
     \<lparr>user_bytes = (\<lambda>d s. (Inr (), s\<lparr>qq_app := fa d (qq_app s)\<rparr>)),
      user_text = (\<lambda>t s. (Inr (), s\<lparr>qq_app := f t (qq_app s)\<rparr>)),
      user_slot = (\<lambda>n em s. (Inr (), s))\<rparr>"

text \<open>
  One message, with the calls \<open>calls\<close> pending: the application sees it unless the lock is
  set, every pending call stores it, and the lock is released if there is one.
\<close>

definition qq_act ::
  "nat list \<Rightarrow> (bytes \<Rightarrow> 'w \<Rightarrow> 'w) \<Rightarrow> (pystr \<Rightarrow> 'w \<Rightarrow> 'w) \<Rightarrow> bytes \<Rightarrow>
   bool \<times> (nat \<Rightarrow> pystr) \<times> (nat \<Rightarrow> bool) \<times> 'w \<Rightarrow> bool \<times> (nat \<Rightarrow> pystr) \<times> (nat \<Rightarrow> bool) \<times> 'w" where
  "qq_act calls fa f m v = (case v of (lock, r, q, w) \<Rightarrow>
     (lock \<and> calls = [], (\<lambda>i. if i \<in> set calls then text_of m else r i), (\<lambda>i. i \<in> set calls \<or> q i),
      if lock then w else f (text_of m) (fa m w)))"

lemma run_closures:
  assumes "decode_utf8 m = Inr t"
  shows "run_slots (qq_call U) (map On_data_received calls) (Emit_receivedData m) s =
     (Inr (), s\<lparr>qq_lock := qq_lock s \<and> calls = [],
               qq_result := (\<lambda>i. if i \<in> set calls then t else qq_result s i),
               qq_quit := (\<lambda>i. i \<in> set calls \<or> qq_quit s i)\<rparr>)"
proof (induction calls arbitrary: s)
  case (Cons i calls)
  let ?s1 = "s\<lparr>qq_result := (qq_result s)(i := t), qq_lock := False, qq_quit := (qq_quit s)(i := True)\<rparr>"
  have "run_slots (qq_call U) (map On_data_received (i # calls)) (Emit_receivedData m) s =
      run_slots (qq_call U) (map On_data_received calls) (Emit_receivedData m) ?s1"
    using assms by (simp add: on_data_received_def)
  then show ?case unfolding Cons.IH [of ?s1] by (cases s) (auto simp: fun_eq_iff)
qed simp

interpretation qt_querier_app: qt_quiet_owner qt_KLquerier qt_KLquerier_update "qq_call (qq_app_user fa f)"
    "\<lambda>s. receivedData_slots (qt_KLquerier s) = OpenSocketQuerier_dataRecv # map On_data_received calls"
    decodes "\<lambda>s. (qq_lock s, qq_result s, qq_quit s, qq_app s)" "qq_act calls fa f"
  for fa :: "bytes \<Rightarrow> 'w \<Rightarrow> 'w" and f and calls
proof unfold_locales
  fix s :: "('k, 't, 'w) qt_querier" and m
  assume r: "receivedData_slots (qt_KLquerier s) = OpenSocketQuerier_dataRecv # map On_data_received calls"
    and "decodes m"
  then obtain t where t: "decode_utf8 m = Inr t" "text_of m = t" by (auto simp: decodes_def text_of_def)
  show "\<exists>s'. qt_emit qt_KLquerier (qq_call (qq_app_user fa f)) (Emit_receivedData m) s = (Inr (), s') \<and>
      qt_KLquerier s' = qt_KLquerier s \<and>
      receivedData_slots (qt_KLquerier s') = OpenSocketQuerier_dataRecv # map On_data_received calls \<and>
      (qq_lock s', qq_result s', qq_quit s', qq_app s') = qq_act calls fa f m (qq_lock s, qq_result s, qq_quit s, qq_app s)"
    using r t by (simp add: qt_emit_def qq_dataRecv_def qq_app_user_def run_closures qq_act_def fun_eq_iff)
qed simp_all

text \<open>The whole stream that arrives while calls are pending.\<close>

lemma fold_qq_act_unlocked:
  "calls \<noteq> [] \<Longrightarrow> fold (qq_act calls fa f) ms (False, r, q, w) =
     (False, (\<lambda>i. if i \<in> set calls \<and> ms \<noteq> [] then text_of (last ms) else r i),
      (\<lambda>i. i \<in> set calls \<and> ms \<noteq> [] \<or> q i), fold (\<lambda>m w. f (text_of m) (fa m w)) ms w)"
  by (induction ms arbitrary: r q w) (auto simp: qq_act_def fun_eq_iff)

lemma fold_qq_act_locked:
  "calls \<noteq> [] \<Longrightarrow> fold (qq_act calls fa f) (m # ms) (True, r, q, w) =
     (False, (\<lambda>i. if i \<in> set calls then text_of (last (m # ms)) else r i),
      (\<lambda>i. i \<in> set calls \<or> q i), fold (\<lambda>m w. f (text_of m) (fa m w)) ms w)"
  by (simp add: qq_act_def fold_qq_act_unlocked fun_eq_iff)

text \<open>A \<^verbatim>\<open>readyRead\<close> that brings complete texts while the lock is set by pending calls.\<close>

lemma readyRead_pending:
  assumes "receivedData_slots (qt_KLquerier s) = OpenSocketQuerier_dataRecv # map On_data_received calls"
    and "calls \<noteq> []" and "qq_lock s" and "qt_buffer (qt_KLquerier s) = []" and "qt_MAX_MSG_SIZE (qt_KLquerier s) = 16777216"
    and "list_all (list_all is_scalar) (t # ts)" and "str_lit ''heartbeat_response'' \<notin> set (t # ts)"
    and "list_all (\<lambda>t. t \<noteq> [] \<and> length (utf8_bytes t) \<le> 16777216) (t # ts)"
    and "fst (api_readAll api k) = frames (map utf8_bytes (t # ts))"
  obtains s' where "on_readyRead api (qq_app_user fa f) k s = Some (Inr (), s')"
    and "receivedData_slots (qt_KLquerier s') = receivedData_slots (qt_KLquerier s)"
    and "qt_buffer (qt_KLquerier s') = []" and "qt_MAX_MSG_SIZE (qt_KLquerier s') = 16777216"
    and "\<not> qq_lock s'"
    and "qq_app s' = fold (\<lambda>t w. f t (fa (utf8_bytes t) w)) ts (qq_app s)"
    and "qq_result s' = (\<lambda>i. if i \<in> set calls then last (t # ts) else qq_result s i)"
    and "qq_quit s' = (\<lambda>i. i \<in> set calls \<or> qq_quit s i)"
proof -
  let ?ms = "map utf8_bytes (t # ts)"
  have nohb: "filter (\<lambda>m. m \<noteq> HEARTBEAT_RESPONSE) ?ms = ?ms"
    using assms(6,7) by (auto simp: filter_id_conv utf8_heartbeat_response list_all_iff)
  have good: "list_all decodes (filter (\<lambda>m. m \<noteq> HEARTBEAT_RESPONSE) ?ms)"
    unfolding nohb using assms(6) by (auto simp: list_all_iff intro!: decodes_utf8)
  have inc: "next_frame (qt_MAX_MSG_SIZE (qt_KLquerier s)) (qt_buffer (qt_KLquerier s)) = Incomplete"
    by (simp add: assms(4) next_frame_def)
  obtain k' where rd: "api_readAll api k = (frames ?ms, k')" using assms(9) by (metis prod.collapse)
  have "list_all (valid_msg 16777216) ?ms" using assms(8) by (auto simp: list_all_iff valid_msg_def)
  then have p: "parse_stream (qt_MAX_MSG_SIZE (qt_KLquerier s)) (qt_buffer (qt_KLquerier s) @ frames ?ms) = (?ms, [], Need_More)"
    using frames_chunks_parse [of 16777216 ?ms] by (simp add: assms(4,5))
  from qt_querier_app.read_chunk [OF assms(1) inc rd p good]
  obtain s' where s': "on_readyRead api (qq_app_user fa f) k s = Some (Inr (), s')"
      "qt_KLquerier s' = (qt_KLquerier s)\<lparr>qt_buffer := [], tcpSocket := k'\<rparr>"
      "(qq_lock s', qq_result s', qq_quit s', qq_app s') =
         fold (qq_act calls fa f) ?ms (qq_lock s, qq_result s, qq_quit s, qq_app s)"
    unfolding on_readyRead_def nohb by blast
  have texts: "text_of (last ?ms) = last (t # ts)"
    using assms(6) decodes_utf8(2) [of "last (t # ts)"] last_in_set [of "t # ts"]
    unfolding last_map [of "t # ts" utf8_bytes, simplified] by (auto simp: list_all_iff last_map)
  have "fold (\<lambda>m w. f (text_of m) (fa m w)) (map utf8_bytes ts) w = fold (\<lambda>t w. f t (fa (utf8_bytes t) w)) ts w" for w
    using assms(6) by (induction ts arbitrary: w) (auto simp: decodes_utf8)
  with s' texts assms(1-5) fold_qq_act_locked [OF assms(2), of fa f "utf8_bytes t" "map utf8_bytes ts"] show ?thesis
    by (intro that [of s']) auto
qed

section \<open>Correctness of the blocking query\<close>

definition qq_msg :: "('k, 't, 'w) qt_querier \<Rightarrow> pystr \<Rightarrow> bytes" where
  "qq_msg s data = utf8_bytes (topic (qq_appID s) (qq_openSocketID s)) @ SEP_bytes @ utf8_bytes data"

text \<open>A querier between calls, with ids and data that can be encoded.\<close>

definition qq_idle :: "('k, 't, 'w) qt_querier \<Rightarrow> pystr \<Rightarrow> bool" where
  "qq_idle s data \<longleftrightarrow> receivedData_slots (qt_KLquerier s) = [OpenSocketQuerier_dataRecv] \<and>
     qt_buffer (qt_KLquerier s) = [] \<and> qt_MAX_MSG_SIZE (qt_KLquerier s) = 16777216 \<and>
     \<not> list_ex is_surrogate (qq_appID s) \<and> \<not> list_ex is_surrogate (qq_openSocketID s) \<and> \<not> list_ex is_surrogate data"

lemma query_l_begin_eq:
  assumes "qt_MAX_MSG_SIZE (qt_KLquerier s) = 16777216"
    and "\<not> list_ex is_surrogate (qq_appID s)" "\<not> list_ex is_surrogate (qq_openSocketID s)" "\<not> list_ex is_surrogate data"
  shows "query_l_begin api data s =
     (Inr (qq_next s), s\<lparr>qq_next := Suc (qq_next s), qq_result := (qq_result s)(qq_next s := []),
        qq_quit := (qq_quit s)(qq_next s := False), qq_lock := True,
        qt_KLquerier := (qt_KLquerier s)\<lparr>receivedData_slots := receivedData_slots (qt_KLquerier s) @ [On_data_received (qq_next s)],
          tcpSocket := (if api_state api (tcpSocket (qt_KLquerier s)) = ConnectedState \<and> length (qq_msg s data) \<le> 16777216
                        then api_write api (frame (qq_msg s data)) (tcpSocket (qt_KLquerier s))
                        else tcpSocket (qt_KLquerier s))\<rparr>\<rparr>)"
  using assms
  by (cases s, cases "qt_KLquerier s")
    (auto simp: query_l_begin_def Let_def qq_query_def qq_query_to_a_def encode_utf8_def sendData_def qt_write_eq qq_msg_def)

text \<open>Handlers that do not concern the query: they change the socket and the timer only.\<close>

definition idle_handler :: "('k, 't, 'w) qt_querier qt_handler \<Rightarrow> bool" where
  "idle_handler h \<longleftrightarrow> (\<forall>s. \<exists>k t. h s = Some (Inr (), s\<lparr>qt_KLquerier := (qt_KLquerier s)\<lparr>tcpSocket := k, heartBeatTimer := t\<rparr>\<rparr>))"

lemma idle_handlerD:
  "idle_handler h \<Longrightarrow> \<exists>k t. h s = Some (Inr (), s\<lparr>qt_KLquerier := (qt_KLquerier s)\<lparr>tcpSocket := k, heartBeatTimer := t\<rparr>\<rparr>)"
  unfolding idle_handler_def by blast

lemma on_timeout_idle: "idle_handler (on_timeout api :: ('k, 't, 'w) qt_querier qt_handler)"
proof -
  have hb: "\<exists>k t. sendHeartbeat api c = (Inr (), c\<lparr>tcpSocket := k, heartBeatTimer := t\<rparr>)" for c
  proof (cases "api_state api (tcpSocket c) = ConnectedState \<and> length HEARTBEAT \<le> qt_MAX_MSG_SIZE c")
    case True
    then show ?thesis
      by (intro exI [of _ "api_write api (frame HEARTBEAT) (tcpSocket c)"] exI [of _ "heartBeatTimer c"])
        (simp add: sendHeartbeat_def writeWithLengthPrefix_def frame_def struct_pack_I_def HEARTBEAT_def)
  next
    case False
    then show ?thesis
      by (intro exI [of _ "tcpSocket c"] exI [of _ "if api_state api (tcpSocket c) = ConnectedState then heartBeatTimer c
            else api_stop api (heartBeatTimer c)"])
        (auto simp: sendHeartbeat_def writeWithLengthPrefix_def)
  qed
  have "\<exists>k t. on_timeout api s = Some (Inr (), s\<lparr>qt_KLquerier := (qt_KLquerier s)\<lparr>tcpSocket := k, heartBeatTimer := t\<rparr>\<rparr>)"
    for s :: "('k, 't, 'w) qt_querier"
  proof -
    obtain k t where "sendHeartbeat api (qt_KLquerier s) = (Inr (), (qt_KLquerier s)\<lparr>tcpSocket := k, heartBeatTimer := t\<rparr>)"
      using hb by blast
    then show ?thesis by (intro exI [of _ k] exI [of _ t]) (simp add: on_timeout_def)
  qed
  then show ?thesis by (simp add: idle_handler_def)
qed

lemma exec_loop_idle:
  assumes "list_all idle_handler hs" and "\<not> qq_quit s i"
  shows "\<exists>k t. exec_loop i (hs @ hs') s = exec_loop i hs' (s\<lparr>qt_KLquerier := (qt_KLquerier s)\<lparr>tcpSocket := k, heartBeatTimer := t\<rparr>\<rparr>)"
  using assms
proof (induction hs arbitrary: s)
  case Nil
  show ?case by (intro exI [of _ "tcpSocket (qt_KLquerier s)"] exI [of _ "heartBeatTimer (qt_KLquerier s)"]) simp
next
  case (Cons h hs)
  obtain k t where "h s = Some (Inr (), s\<lparr>qt_KLquerier := (qt_KLquerier s)\<lparr>tcpSocket := k, heartBeatTimer := t\<rparr>\<rparr>)"
    using Cons.prems(1) idle_handlerD [of h s] by auto
  with Cons.prems Cons.IH [of "s\<lparr>qt_KLquerier := (qt_KLquerier s)\<lparr>tcpSocket := k, heartBeatTimer := t\<rparr>\<rparr>"]
  show ?case by simp
qed

text \<open>
  Claim C22 (functional behaviour): what a blocking query returns.  The request is handed to the socket as one frame,
  if it is connected and the request is not over the limit.  Whatever heartbeats come
  first, when texts arrive the call returns the last of the texts that arrive together: a
  single reply is returned and hidden from the application, and of several the later ones
  are emitted as well.  Then the lock is free and the slot of the call is gone.
\<close>

theorem query_l_returns_reply:
  assumes "qq_idle s data" and "list_all idle_handler hs"
    and "list_all (list_all is_scalar) (t # ts)" and "str_lit ''heartbeat_response'' \<notin> set (t # ts)"
    and "list_all (\<lambda>t. t \<noteq> [] \<and> length (utf8_bytes t) \<le> 16777216) (t # ts)"
    and "fst (api_readAll api k) = frames (map utf8_bytes (t # ts))"
  shows "\<exists>s1 s'. query_l_begin api data s = (Inr (qq_next s), s1) \<and>
       tcpSocket (qt_KLquerier s1) =
         (if api_state api (tcpSocket (qt_KLquerier s)) = ConnectedState \<and> length (qq_msg s data) \<le> 16777216
          then api_write api (frame (qq_msg s data)) (tcpSocket (qt_KLquerier s)) else tcpSocket (qt_KLquerier s)) \<and>
       query_l api (hs @ on_readyRead api (qq_app_user fa f) k # hs') data s = Some (Inr (last (t # ts)), s') \<and>
       qq_app s' = fold (\<lambda>t w. f t (fa (utf8_bytes t) w)) ts (qq_app s) \<and>
       \<not> qq_lock s' \<and> receivedData_slots (qt_KLquerier s') = [OpenSocketQuerier_dataRecv]"
proof -
  let ?i = "qq_next s"
  obtain s1 where b: "query_l_begin api data s = (Inr ?i, s1)"
      "tcpSocket (qt_KLquerier s1) =
         (if api_state api (tcpSocket (qt_KLquerier s)) = ConnectedState \<and> length (qq_msg s data) \<le> 16777216
          then api_write api (frame (qq_msg s data)) (tcpSocket (qt_KLquerier s)) else tcpSocket (qt_KLquerier s))"
      "receivedData_slots (qt_KLquerier s1) = [OpenSocketQuerier_dataRecv, On_data_received ?i]"
      "qt_buffer (qt_KLquerier s1) = []" "qt_MAX_MSG_SIZE (qt_KLquerier s1) = 16777216"
      "qq_lock s1" "\<not> qq_quit s1 ?i" "qq_app s1 = qq_app s"
    using assms(1) query_l_begin_eq [of s data api] by (auto simp: qq_idle_def)
  obtain k0 t0 where e: "exec_loop ?i (hs @ on_readyRead api (qq_app_user fa f) k # hs') s1 =
      exec_loop ?i (on_readyRead api (qq_app_user fa f) k # hs')
        (s1\<lparr>qt_KLquerier := (qt_KLquerier s1)\<lparr>tcpSocket := k0, heartBeatTimer := t0\<rparr>\<rparr>)"
    using exec_loop_idle [OF assms(2) b(7)] by blast
  let ?s2 = "s1\<lparr>qt_KLquerier := (qt_KLquerier s1)\<lparr>tcpSocket := k0, heartBeatTimer := t0\<rparr>\<rparr>"
  have pre: "receivedData_slots (qt_KLquerier ?s2) = OpenSocketQuerier_dataRecv # map On_data_received [?i]"
      "[?i] \<noteq> []" "qq_lock ?s2" "qt_buffer (qt_KLquerier ?s2) = []" "qt_MAX_MSG_SIZE (qt_KLquerier ?s2) = 16777216"
    using b by simp_all
  obtain s3 where s3: "on_readyRead api (qq_app_user fa f) k ?s2 = Some (Inr (), s3)"
      "receivedData_slots (qt_KLquerier s3) = receivedData_slots (qt_KLquerier ?s2)" "\<not> qq_lock s3"
      "qq_app s3 = fold (\<lambda>t w. f t (fa (utf8_bytes t) w)) ts (qq_app ?s2)"
      "qq_result s3 ?i = last (t # ts)" "qq_quit s3 ?i"
    by (rule readyRead_pending [where fa = fa and f = f, OF pre assms(3-6)]) auto
  have "query_l api (hs @ on_readyRead api (qq_app_user fa f) k # hs') data s =
      Some (Inr (last (t # ts)), snd (query_l_end ?i s3))"
    unfolding query_l_def b(1) using s3(1,5,6) by (simp add: e query_l_end_def)
  with b s3 show ?thesis by (auto simp: query_l_end_def)
qed

text \<open>
  Claim C36 (safety): nested blocking queries get one and the same reply.  If, while a query waits, a handler of
  the program starts a second one, the first reply to arrive ends both event loops: both
  calls return that text, although two requests were made.
\<close>

theorem nested_queries_share_reply:
  assumes "qq_idle s data" and "\<not> list_ex is_surrogate data2"
    and "list_all is_scalar t" and "t \<noteq> str_lit ''heartbeat_response''" and "t \<noteq> []"
    and "length (utf8_bytes t) \<le> 16777216" and "fst (api_readAll api k) = frame (utf8_bytes t)"
  shows "\<exists>s'. query_l api (on_button api [on_readyRead api (qq_app_user fa f) k] data2 use # hs) data s = Some (Inr t, s') \<and>
       qq_app s' = use t (qq_app s) \<and> \<not> qq_lock s' \<and>
       receivedData_slots (qt_KLquerier s') = [OpenSocketQuerier_dataRecv]"
proof -
  let ?i = "qq_next s" and ?j = "Suc (qq_next s)"
  obtain s1 where b1: "query_l_begin api data s = (Inr ?i, s1)"
      "receivedData_slots (qt_KLquerier s1) = [OpenSocketQuerier_dataRecv, On_data_received ?i]"
      "qt_buffer (qt_KLquerier s1) = []" "qt_MAX_MSG_SIZE (qt_KLquerier s1) = 16777216" "qq_next s1 = ?j"
      "qq_app s1 = qq_app s" "qq_appID s1 = qq_appID s" "qq_openSocketID s1 = qq_openSocketID s"
    using assms(1) query_l_begin_eq [of s data api] by (auto simp: qq_idle_def)
  obtain s2 where b2: "query_l_begin api data2 s1 = (Inr ?j, s2)"
      "receivedData_slots (qt_KLquerier s2) = OpenSocketQuerier_dataRecv # map On_data_received [?i, ?j]"
      "qt_buffer (qt_KLquerier s2) = []" "qt_MAX_MSG_SIZE (qt_KLquerier s2) = 16777216"
      "qq_lock s2" "qq_app s2 = qq_app s"
    using assms(1,2) b1 query_l_begin_eq [of s1 data2 api] by (auto simp: qq_idle_def)
  have single: "list_all (list_all is_scalar) [t]" "str_lit ''heartbeat_response'' \<notin> set [t]"
      "list_all (\<lambda>t. t \<noteq> [] \<and> length (utf8_bytes t) \<le> 16777216) [t]" "fst (api_readAll api k) = frames (map utf8_bytes [t])"
    using assms(3-7) by simp_all
  obtain s3 where s3: "on_readyRead api (qq_app_user fa f) k s2 = Some (Inr (), s3)"
      "receivedData_slots (qt_KLquerier s3) = receivedData_slots (qt_KLquerier s2)" "\<not> qq_lock s3"
      "qq_app s3 = qq_app s" "qq_result s3 ?i = t" "qq_result s3 ?j = t" "qq_quit s3 ?i" "qq_quit s3 ?j"
    by (rule readyRead_pending [where fa = fa and f = f, OF b2(2) _ b2(5,3,4) single]) (auto simp: b2(6))
  let ?s5 = "(snd (query_l_end ?j s3))\<lparr>qq_app := use t (qq_app s)\<rparr>"
  have "on_button api [on_readyRead api (qq_app_user fa f) k] data2 use s1 = Some (Inr (), ?s5)"
    using b2(1) s3 by (simp add: on_button_def query_l_def query_l_end_def)
  then have "query_l api (on_button api [on_readyRead api (qq_app_user fa f) k] data2 use # hs) data s =
      Some (Inr t, snd (query_l_end ?i ?s5))"
    unfolding query_l_def b1(1) using s3(5,7) by (simp add: query_l_end_def)
  with s3 b2(2) show ?thesis by (auto simp: query_l_end_def)
qed

text \<open>
  A blocking query has no timeout.  As long as only heartbeats and other handlers that
  do not concern it run, it does not return, whether or not its request could be sent; and
  the lock it holds hides every message from the application's slots.
\<close>

theorem query_l_waits_for_message:
  assumes "qq_idle s data" and "list_all idle_handler hs"
  shows "query_l api hs data s = None \<and>
         (\<exists>s1. query_l_begin api data s = (Inr (qq_next s), s1) \<and> qq_lock s1 \<and>
            (\<forall>U d. qq_dataRecv U d s1 = (Inr (), s1)))"
proof -
  obtain s1 where b: "query_l_begin api data s = (Inr (qq_next s), s1)" "qq_lock s1" "\<not> qq_quit s1 (qq_next s)"
    using assms(1) query_l_begin_eq [of s data api] by (auto simp: qq_idle_def)
  have "exec_loop (qq_next s) (hs @ []) s1 = None"
    using exec_loop_idle [OF assms(2) b(3), of "[]"] by auto
  with b show ?thesis by (simp add: query_l_def qq_dataRecv_def)
qed

section \<open>Samples\<close>

definition sample_qt_querier :: "(sample_socket, bool, (bytes + pystr) list) qt_querier" where
  "sample_qt_querier = snd (new_qt_querier sample_qt (qq_app_user log_bytes log_text) (str_lit ''app'') (str_lit ''s'') [])"

lemma sample_qt_querier:
  "qq_idle sample_qt_querier (str_lit ''q'')" "qq_app sample_qt_querier = []"
  by (simp_all add: sample_qt_querier_def new_qt_querier_def qq_init_def qq_idle_def qt_simps str_lit_def is_surrogate_def)

theorem query_l_returns_reply_witness:
  "\<exists>s'. query_l sample_qt ([on_timeout sample_qt] @ on_readyRead sample_qt (qq_app_user log_bytes log_text)
          (ConnectedState, frames [utf8_bytes (str_lit ''yes''), utf8_bytes (str_lit ''late'')], []) # [])
          (str_lit ''q'') sample_qt_querier = Some (Inr (str_lit ''late''), s') \<and>
        qq_app s' = [Inl (utf8_bytes (str_lit ''late'')), Inr (str_lit ''late'')] \<and> \<not> qq_lock s'"
proof -
  have h: "list_all idle_handler [on_timeout sample_qt]" by (simp add: on_timeout_idle)
  have ts: "list_all (list_all is_scalar) [str_lit ''yes'', str_lit ''late'']"
      "str_lit ''heartbeat_response'' \<notin> set [str_lit ''yes'', str_lit ''late'']"
      "list_all (\<lambda>t. t \<noteq> [] \<and> length (utf8_bytes t) \<le> 16777216) [str_lit ''yes'', str_lit ''late'']"
    by (simp_all add: str_lit_def is_scalar_def is_surrogate_def utf8_char_def)
  have r: "fst (api_readAll sample_qt (ConnectedState, frames [utf8_bytes (str_lit ''yes''), utf8_bytes (str_lit ''late'')], [])) =
      frames (map utf8_bytes [str_lit ''yes'', str_lit ''late''])"
    by (simp add: sample_qt_def del: frames_simps)
  from query_l_returns_reply [OF sample_qt_querier(1) h ts r, of log_bytes log_text "[]"] show ?thesis
    by (auto simp: sample_qt_querier(2) log_bytes_def log_text_def simp del: frames_simps)
qed

theorem nested_queries_share_reply_witness:
  "\<exists>s'. query_l sample_qt [on_button sample_qt [on_readyRead sample_qt (qq_app_user log_bytes log_text)
          (ConnectedState, frame (utf8_bytes (str_lit ''one'')), [])] (str_lit ''q2'') log_text]
          (str_lit ''q'') sample_qt_querier = Some (Inr (str_lit ''one''), s') \<and> qq_app s' = [Inr (str_lit ''one'')]"
proof -
  have t: "list_all is_scalar (str_lit ''one'')" "str_lit ''one'' \<noteq> str_lit ''heartbeat_response''" "str_lit ''one'' \<noteq> []"
      "length (utf8_bytes (str_lit ''one'')) \<le> 16777216" and d: "\<not> list_ex is_surrogate (str_lit ''q2'')"
    by (simp_all add: str_lit_def is_scalar_def is_surrogate_def utf8_char_def)
  have r: "fst (api_readAll sample_qt (ConnectedState, frame (utf8_bytes (str_lit ''one'')), [])) = frame (utf8_bytes (str_lit ''one''))"
    by (simp add: sample_qt_def)
  from nested_queries_share_reply [OF sample_qt_querier(1) d t r, of log_bytes log_text log_text "[]"] show ?thesis
    by (auto simp: sample_qt_querier(2) log_text_def)
qed

theorem query_l_waits_for_message_witness:
  "query_l sample_qt [on_timeout sample_qt, on_timeout sample_qt] (str_lit ''q'') sample_qt_querier = None"
  using query_l_waits_for_message [OF sample_qt_querier(1), of "[on_timeout sample_qt, on_timeout sample_qt]" sample_qt]
  by (simp add: on_timeout_idle)

end
