(* ===== verification/KL_QtResponser.thy ===== *)
theory KL_QtResponser
  imports KL_QtSignals KL_OpenSocketResponser
begin

text \<open>
  \<^verbatim>\<open>OpenSocketResponser.py\<close> of the PyQt SDK: requests are emitted as signals, and the
  application answers with \<^verbatim>\<open>sendBack\<close> under the key of the request.
\<close>

section \<open>State and operations\<close>

record ('k, 't, 'w) qt_responser =
  qr_appID :: pystr
  qr_openSocketID :: pystr
  qt_KLresponser :: "('k, 't) qt_client"
  qr_app :: 'w

text \<open>What the application connects to the signals of the responser and of its client.\<close>

record 'o qt_resp_user =
  ru_bytes :: "bytes \<Rightarrow> pystr \<Rightarrow> 'o \<Rightarrow> unit res \<times> 'o"
  ru_text :: "pystr \<Rightarrow> pystr \<Rightarrow> 'o \<Rightarrow> unit res \<times> 'o"
  ru_slot :: "nat \<Rightarrow> qt_emission \<Rightarrow> 'o \<Rightarrow> unit res \<times> 'o"

definition qr_dataRecv ::
  "('k, 't, 'w) qt_responser qt_resp_user \<Rightarrow> bytes \<Rightarrow> ('k, 't, 'w) qt_responser \<Rightarrow>
   unit res \<times> ('k, 't, 'w) qt_responser" where
  "qr_dataRecv U data s =
     (case decode_utf8 data of
        Inl e \<Rightarrow> (Inl e, s)
      | Inr s_data \<Rightarrow>
          (let parts = split_sub SEP s_data in
           if length parts \<noteq> 2 then (Inr (), s)
           else (let key = parts ! 0; t_data = parts ! 1 in
                 case encode_utf8 t_data of
                   Inl e \<Rightarrow> (Inl e, s)
                 | Inr b \<Rightarrow>
                     (case ru_bytes U b key s of
                        (Inl e, s1) \<Rightarrow> (Inl e, s1)
                      | (Inr _, s1) \<Rightarrow> ru_text U t_data key s1))))"

fun qr_call :: "('k, 't, 'w) qt_responser qt_resp_user \<Rightarrow> ('k, 't, 'w) qt_responser qt_call" where
  "qr_call U OpenSocketResponser_dataRecv (Emit_receivedData d) s = qr_dataRecv U d s"
| "qr_call U (App_slot n) em s = ru_slot U n em s"
| "qr_call U _ _ s = (Inr (), s)"

definition qr_init ::
  "('k, 't) qt_api \<Rightarrow> ('k, 't, 'w) qt_responser qt_resp_user \<Rightarrow> ('k, 't, 'w) qt_responser \<Rightarrow>
   unit res \<times> ('k, 't, 'w) qt_responser" where
  "qr_init api U s =
     (case connectToServer api qt_KLresponser qt_KLresponser_update (qr_call U) localhost 6378
             (s\<lparr>qt_KLresponser := new_qt_client api\<rparr>) of
        (Inl e, s1) \<Rightarrow> (Inl e, s1)
      | (Inr _, s1) \<Rightarrow>
          (let s2 = qt_KLresponser_update
                 (\<lambda>c. c\<lparr>receivedData_slots := receivedData_slots c @ [OpenSocketResponser_dataRecv]\<rparr>) s1 in
           case encode_utf8 (topic (qr_appID s2) (qr_openSocketID s2)) of
             Inl e \<Rightarrow> (Inl e, s2)
           | Inr s_key_bytes \<Rightarrow>
               (case sendData api s_key_bytes (qt_KLresponser s2) of (x, c) \<Rightarrow> (x, s2\<lparr>qt_KLresponser := c\<rparr>))))"

definition new_qt_responser ::
  "('k, 't) qt_api \<Rightarrow> ('k, 't, 'w) qt_responser qt_resp_user \<Rightarrow> pystr \<Rightarrow> pystr \<Rightarrow> 'w \<Rightarrow>
   unit res \<times> ('k, 't, 'w) qt_responser" where
  "new_qt_responser api U APPID OpenSocketID w =
     qr_init api U \<lparr>qr_appID = APPID, qr_openSocketID = OpenSocketID, qt_KLresponser = new_qt_client api, qr_app = w\<rparr>"

definition qr_sendBack_a ::
  "('k, 't) qt_api \<Rightarrow> bytes \<Rightarrow> pystr \<Rightarrow> ('k, 't, 'w) qt_responser \<Rightarrow> unit res \<times> ('k, 't, 'w) qt_responser" where
  "qr_sendBack_a api data questionID s =
     (case decode_utf8 data of
        Inl e \<Rightarrow> (Inl e, s)
      | Inr t \<Rightarrow>
          (case encode_utf8 (questionID @ SEP @ t) of
             Inl e \<Rightarrow> (Inl e, s)
           | Inr b \<Rightarrow> (case sendData api b (qt_KLresponser s) of (x, c) \<Rightarrow> (x, s\<lparr>qt_KLresponser := c\<rparr>))))"

definition qr_sendBack ::
  "('k, 't) qt_api \<Rightarrow> pystr \<Rightarrow> pystr \<Rightarrow> ('k, 't, 'w) qt_responser \<Rightarrow> unit res \<times> ('k, 't, 'w) qt_responser" where
  "qr_sendBack api data questionID s =
     (case encode_utf8 data of Inl e \<Rightarrow> (Inl e, s) | Inr b \<Rightarrow> qr_sendBack_a api b questionID s)"

section \<open>Correctness\<close>

interpretation qt_responser: qt_lens qt_KLresponser qt_KLresponser_update
  by unfold_locales (simp_all add: comp_def)

text \<open>
  An application that answers every request as soon as it arrives, by the function \<open>g\<close>, and
  does nothing with the signal of bytes.
\<close>

definition qr_answering :: "('k, 't) qt_api \<Rightarrow> (pystr \<Rightarrow> 'w \<Rightarrow> pystr \<times> 'w) \<Rightarrow> ('k, 't, 'w) qt_responser qt_resp_user" where
  "qr_answering api g =
     \<lparr>ru_bytes = (\<lambda>b key s. (Inr (), s)),
      ru_text = (\<lambda>t key s. case g t (qr_app s) of (a, w) \<Rightarrow> qr_sendBack api a key (s\<lparr>qr_app := w\<rparr>)),
      ru_slot = (\<lambda>n em s. (Inr (), s))\<rparr>"

lemma decode_keyed:
  assumes "list_all is_scalar key" and "list_all is_scalar t"
  shows "decode_utf8 (keyed_msg key t) = Inr (key @ SEP @ t)"
proof -
  have "utf8_bytes (key @ SEP @ t) = keyed_msg key t" by (simp add: keyed_msg_def)
  with assms decode_utf8_bytes(1) [of "key @ SEP @ t"] show ?thesis by simp
qed

lemma qr_dataRecv_keyed:
  assumes "list_all is_scalar key" and "list_all is_scalar t" and "clean_before SEP key"
  shows "qr_dataRecv U (keyed_msg key t) s =
     (if sublist SEP t then (Inr (), s)
      else (case ru_bytes U (utf8_bytes t) key s of
              (Inl e, s1) \<Rightarrow> (Inl e, s1) | (Inr _, s1) \<Rightarrow> ru_text U t key s1))"
proof -
  have sp: "split_sub SEP (key @ SEP @ t) = key # split_sub SEP t"
    by (rule split_sub_clean [OF assms(3)]) (simp add: SEP_simps)
  show ?thesis
  proof (cases "sublist SEP t")
    case True
    then have "2 \<le> length (split_sub SEP t)"
      by (intro split_sub_many) (simp_all add: find_sub_None SEP_simps)
    with True show ?thesis
      by (simp add: qr_dataRecv_def decode_keyed [OF assms(1,2)] sp)
  next
    case False
    then have "split_sub SEP t = [t]" by (intro split_sub_None) (simp add: find_sub_None)
    with False show ?thesis
      using scalar_not_surrogate [OF assms(2)]
      by (simp add: qr_dataRecv_def decode_keyed [OF assms(1,2)] sp encode_utf8_def)
  qed
qed

text \<open>
  Claim C37 (functional behaviour): where the responsers of the two SDKs part.  For a request with a clean key the
  PyQt responser emits exactly the text and the key, unless the separator occurs in the
  text: then it drops the request without an answer, while the plain responser queues it
  with its whole text.  A request with an empty text is the other way round: the plain
  responser drops it and the PyQt responser emits it.
\<close>

theorem responsers_differ:
  assumes "list_all is_scalar key" and "list_all is_scalar t" and "clean_before SEP key"
  shows "resp_internal_data_recv (keyed_msg key t) p = (Inr (), if t = [] then p else queue_put (t, key) p) \<and>
         qr_dataRecv U (keyed_msg key t) s =
           (if sublist SEP t then (Inr (), s)
            else (case ru_bytes U (utf8_bytes t) key s of
                    (Inl e, s1) \<Rightarrow> (Inl e, s1) | (Inr _, s1) \<Rightarrow> ru_text U t key s1))"
proof -
  have "resp_internal_data_recv (keyed_msg key []) p = (Inr (), p)"
    using find_sub_clean [of SEP_bytes "utf8_bytes key" "[]"] clean_before_utf8 [OF assms(1)] assms(3) decode_utf8_bytes(1) [OF assms(1)]
    by (simp add: resp_internal_data_recv_def keyed_msg_def)
  then have "resp_internal_data_recv (keyed_msg key t) p = (Inr (), if t = [] then p else queue_put (t, key) p)"
    using request_item_keyed [OF assms(1,2) _ assms(3)] by (auto simp: resp_recv_eq)
  with qr_dataRecv_keyed [OF assms] show ?thesis by blast
qed

text \<open>A responser that is connected, with an application that always gives an answer that can be sent.\<close>

definition qr_serving ::
  "('k, 't) qt_api \<Rightarrow> ('k \<Rightarrow> bytes) \<Rightarrow> (pystr \<Rightarrow> 'w \<Rightarrow> pystr \<times> 'w) \<Rightarrow> ('k, 't, 'w) qt_responser \<Rightarrow> bool" where
  "qr_serving api wire g s \<longleftrightarrow>
     qt_laws api wire \<and> (\<forall>t w. list_all is_scalar (fst (g t w))) \<and>
     receivedData_slots (qt_KLresponser s) = [OpenSocketResponser_dataRecv] \<and>
     qt_MAX_MSG_SIZE (qt_KLresponser s) = 16777216 \<and>
     api_state api (tcpSocket (qt_KLresponser s)) = ConnectedState"

definition qr_request :: "(pystr \<Rightarrow> 'w \<Rightarrow> pystr \<times> 'w) \<Rightarrow> pystr \<times> pystr \<Rightarrow> bool" where
  "qr_request g it \<longleftrightarrow> good_request it \<and> \<not> sublist SEP (fst it) \<and> answerable g (snd it)"

definition qr_act :: "(pystr \<Rightarrow> 'w \<Rightarrow> pystr \<times> 'w) \<Rightarrow> bytes \<Rightarrow> bytes \<times> 'w \<Rightarrow> bytes \<times> 'w" where
  "qr_act g m v = (case split_sub SEP (text_of m) of
     [key, t] \<Rightarrow> (case g t (snd v) of (a, w) \<Rightarrow> (fst v @ frame (keyed_msg key a), w)) | _ \<Rightarrow> v)"

lemma qr_act_keyed:
  assumes "qr_request g (t, key)"
  shows "qr_act g (keyed_msg key t) (out, w) = (case g t w of (a, w1) \<Rightarrow> (out @ frame (keyed_msg key a), w1))"
proof -
  have "split_sub SEP (key @ SEP @ t) = key # split_sub SEP t"
    using assms by (intro split_sub_clean) (simp_all add: qr_request_def good_request_def SEP_simps)
  moreover have "split_sub SEP t = [t]"
    using assms by (intro split_sub_None) (simp add: find_sub_None qr_request_def)
  moreover have "text_of (keyed_msg key t) = key @ SEP @ t"
    using assms decode_keyed by (simp add: text_of_def qr_request_def good_request_def)
  ultimately show ?thesis by (simp add: qr_act_def)
qed

lemma qr_answer_emit:
  assumes "qr_serving api wire g s" and "qr_request g (t, key)" and "g t (qr_app s) = (a, w)"
  shows "qt_emit qt_KLresponser (qr_call (qr_answering api g)) (Emit_receivedData (keyed_msg key t)) s =
           (Inr (), s\<lparr>qr_app := w, qt_KLresponser := (qt_KLresponser s)\<lparr>tcpSocket :=
              api_write api (frame (keyed_msg key a)) (tcpSocket (qt_KLresponser s))\<rparr>\<rparr>)"
proof -
  have a: "list_all is_scalar a" "\<not> list_ex is_surrogate a" "\<not> list_ex is_surrogate key" "length (keyed_msg key a) \<le> 16777216"
    using assms unfolding qr_serving_def qr_request_def answerable_def by (metis fst_conv snd_conv)+
  have "utf8_bytes (key @ SEP @ a) = keyed_msg key a" by (simp add: keyed_msg_def)
  with a have e: "encode_utf8 (key @ SEP @ a) = Inr (keyed_msg key a)" by (simp add: encode_utf8_def)
  have k: "list_all is_scalar key" "list_all is_scalar t" "clean_before SEP key" "\<not> sublist SEP t"
    using assms(2) by (simp_all add: qr_request_def good_request_def)
  show ?thesis
    using assms(1,3) a e
    by (simp add: qt_emit_def qr_dataRecv_keyed [OF k(1-3)] k(4) qr_answering_def qr_sendBack_def qr_sendBack_a_def
        qr_serving_def encode_utf8_def decode_utf8_bytes(1) sendData_def qt_write_eq qt_laws_def)
qed

lemma qr_answer_one:
  assumes "qr_serving api wire g s" and "qr_request g (t, key)" and "g t (qr_app s) = (a, w)"
  shows "\<exists>k. qt_emit qt_KLresponser (qr_call (qr_answering api g)) (Emit_receivedData (keyed_msg key t)) s =
           (Inr (), s\<lparr>qr_app := w, qt_KLresponser := (qt_KLresponser s)\<lparr>tcpSocket := k\<rparr>\<rparr>) \<and>
         wire k = wire (tcpSocket (qt_KLresponser s)) @ frame (keyed_msg key a) \<and> api_state api k = ConnectedState"
  using qr_answer_emit [OF assms] assms(1) by (auto simp: qr_serving_def qt_laws_def)

interpretation qt_responser_app: quiet_loop "\<lambda>s. qt_buffer (qt_KLresponser s)" "\<lambda>s. qt_MAX_MSG_SIZE (qt_KLresponser s)"
    "\<lambda>b. qt_KLresponser_update (\<lambda>c. c\<lparr>qt_buffer := b\<rparr>)"
    "\<lambda>m. qt_emit qt_KLresponser (qr_call (qr_answering api g)) (Emit_receivedData m)"
    "close_socket api qt_KLresponser qt_KLresponser_update (qr_call (qr_answering api g))"
    "processBuffer api qt_KLresponser qt_KLresponser_update (qr_call (qr_answering api g))"
    "qr_serving api wire g" "\<lambda>m. \<exists>t key. m = keyed_msg key t \<and> qr_request g (t, key)"
    "\<lambda>s. (wire (tcpSocket (qt_KLresponser s)), qr_app s)" "qr_act g"
  for api :: "('k, 't) qt_api" and wire :: "'k \<Rightarrow> bytes" and g :: "pystr \<Rightarrow> 'w \<Rightarrow> pystr \<times> 'w"
proof unfold_locales
  fix s :: "('k, 't, 'w) qt_responser" and m
  assume r: "qr_serving api wire g s" and "\<exists>t key. m = keyed_msg key t \<and> qr_request g (t, key)"
  then obtain t key where m: "m = keyed_msg key t" and q: "qr_request g (t, key)" by blast
  obtain a w where g: "g t (qr_app s) = (a, w)" by fastforce
  from qr_answer_one [OF r q g] r g
  show "\<exists>s'. qt_emit qt_KLresponser (qr_call (qr_answering api g)) (Emit_receivedData m) s = (Inr (), s') \<and>
      qt_buffer (qt_KLresponser s') = qt_buffer (qt_KLresponser s) \<and>
      qt_MAX_MSG_SIZE (qt_KLresponser s') = qt_MAX_MSG_SIZE (qt_KLresponser s) \<and> qr_serving api wire g s' \<and>
      (wire (tcpSocket (qt_KLresponser s')), qr_app s') = qr_act g m (wire (tcpSocket (qt_KLresponser s)), qr_app s)"
    by (auto simp: m qr_act_keyed [OF q] qr_serving_def)
qed (simp_all add: qr_serving_def)

lemma fold_qr_act:
  "list_all (qr_request g) its \<Longrightarrow> answers g its w = (ms, w') \<Longrightarrow>
   fold (qr_act g) (map (\<lambda>(t, key). keyed_msg key t) its) (out, w) = (out @ frames ms, w')"
proof (induction its arbitrary: out w ms)
  case (Cons it its)
  obtain t key where it: "it = (t, key)" by fastforce
  with Cons show ?case by (auto simp: qr_act_keyed split: prod.splits)
qed simp

text \<open>
  The PyQt responser answers.  When requests arrive whose keys are clean and
  whose texts hold no separator, an application that replies in its slot with
  \<^verbatim>\<open>sendBack\<close> is called once for each of them, in order of arrival, and the responser puts
  one frame per request on the wire, in that order, with its answer under the key of that
  request.  Nothing stays in the buffer.
\<close>

theorem qt_responser_answers:
  assumes "qr_serving api wire g s" and "qt_buffer (qt_KLresponser s) = []"
    and "list_all (qr_request g) its"
    and "api_readAll api (tcpSocket (qt_KLresponser s)) = (frames (map (\<lambda>(t, key). keyed_msg key t) its), k)"
    and "answers g its (qr_app s) = (ms, w)"
  shows "\<exists>s'. readData api qt_KLresponser qt_KLresponser_update (qr_call (qr_answering api g)) s = Some (Inr (), s') \<and>
           wire (tcpSocket (qt_KLresponser s')) = wire (tcpSocket (qt_KLresponser s)) @ frames ms \<and>
           qr_app s' = w \<and> qt_buffer (qt_KLresponser s') = []"
proof -
  let ?ms = "map (\<lambda>(t, key). keyed_msg key t) its"
  define s1 where "s1 = qt_KLresponser_update (\<lambda>c. c\<lparr>qt_buffer := qt_buffer c @ frames ?ms\<rparr>)
    (qt_KLresponser_update (\<lambda>c. c\<lparr>tcpSocket := k\<rparr>) s)"
  have k: "wire k = wire (tcpSocket (qt_KLresponser s))" "api_state api k = ConnectedState"
    using assms(1,4) unfolding qr_serving_def qt_laws_def by (metis snd_conv)+
  have s1: "qr_serving api wire g s1" "qt_buffer (qt_KLresponser s1) = frames ?ms" "qr_app s1 = qr_app s"
      "wire (tcpSocket (qt_KLresponser s1)) = wire (tcpSocket (qt_KLresponser s))"
      "qt_MAX_MSG_SIZE (qt_KLresponser s1) = 16777216"
    using assms(1,2) k by (simp_all add: s1_def qr_serving_def)
  have "list_all (valid_msg 16777216) ?ms"
    using assms(3) by (auto simp: list_all_iff qr_request_def good_request_def valid_msg_def keyed_msg_def SEP_simps)
  then have p: "parse_stream (qt_MAX_MSG_SIZE (qt_KLresponser s1)) (qt_buffer (qt_KLresponser s1)) = (?ms, [], Need_More)"
    using frames_chunks_parse [of 16777216 ?ms] by (simp add: s1)
  have fl: "filter (\<lambda>m. m \<noteq> HEARTBEAT_RESPONSE) ?ms = ?ms"
    by (auto simp: filter_id_conv not_heartbeat_keyed)
  have good: "list_all (\<lambda>m. \<exists>t key. m = keyed_msg key t \<and> qr_request g (t, key)) (filter (\<lambda>m. m \<noteq> HEARTBEAT_RESPONSE) ?ms)"
    unfolding fl using assms(3) by (auto simp: list_all_iff)
  obtain s' where s': "processBuffer api qt_KLresponser qt_KLresponser_update (qr_call (qr_answering api g)) s1 = Some (Inr (), s')"
      "qt_buffer (qt_KLresponser s') = []"
      "(wire (tcpSocket (qt_KLresponser s')), qr_app s') = (wire (tcpSocket (qt_KLresponser s)) @ frames ms, w)"
    using qt_responser_app.quiet_run [OF s1(1) p good] unfolding fl
    by (auto simp: s1(3,4) fold_qr_act [OF assms(3,5)])
  have "readData api qt_KLresponser qt_KLresponser_update (qr_call (qr_answering api g)) s = Some (Inr (), s')" if "its \<noteq> []"
  proof -
    have "frames ?ms \<noteq> []" using that by (cases its) (auto simp: frame_def MAGIC_def)
    with s'(1) assms(4) show ?thesis by (simp add: readData_def s1_def Let_def)
  qed
  moreover have ?thesis if "its = []"
    using that assms(2,4,5) k(1) by (simp add: readData_def)
  ultimately show ?thesis using s' by (cases "its = []") auto
qed

section \<open>Samples\<close>

text \<open>An application that answers ok and counts the requests.\<close>

definition say_ok :: "pystr \<Rightarrow> nat \<Rightarrow> pystr \<times> nat" where
  "say_ok t n = (str_lit ''ok'', Suc n)"

definition sample_qt_responser :: "(sample_socket, bool, nat) qt_responser" where
  "sample_qt_responser = snd (new_qt_responser sample_qt (qr_answering sample_qt say_ok) (str_lit ''app'') (str_lit ''s'') 0)"

lemma sample_qt_responser:
  "qt_KLresponser sample_qt_responser =
     \<lparr>tcpSocket = (ConnectedState, [], frame (b_lit ''app-s'')), heartBeatTimer = True, qt_buffer = [],
      qt_MAX_MSG_SIZE = 16777216, connected_slots = [], disconnected_slots = [],
      receivedData_slots = [OpenSocketResponser_dataRecv]\<rparr>"
  "qr_app sample_qt_responser = 0"
  by (simp_all add: sample_qt_responser_def new_qt_responser_def qr_init_def qt_simps encode_utf8_def
      topic_def str_lit_def dash_def is_surrogate_def sendData_def qt_write_eq utf8_char_def b_lit_def Let_def)

theorem responsers_differ_witness:
  "resp_internal_data_recv (keyed_msg (str_lit ''k1'') (str_lit ''a&*&b''))
     (snd (new_open_socket_responser True Send_Ok [] [] ()) :: (unit, unit) open_socket_responser) =
   (Inr (), queue_put (str_lit ''a&*&b'', str_lit ''k1'') (snd (new_open_socket_responser True Send_Ok [] [] ()))) \<and>
   qr_dataRecv (qr_answering sample_qt say_ok) (keyed_msg (str_lit ''k1'') (str_lit ''a&*&b'')) sample_qt_responser =
   (Inr (), sample_qt_responser)"
proof -
  have "list_all is_scalar (str_lit ''k1'')" "list_all is_scalar (str_lit ''a&*&b'')" "clean_before SEP (str_lit ''k1'')"
    by (simp_all add: str_lit_def SEP_simps is_scalar_def is_surrogate_def)
  moreover have "sublist SEP (str_lit ''a&*&b'')" "str_lit ''a&*&b'' \<noteq> []"
    by (simp_all add: str_lit_def SEP_simps sublist_Cons_right)
  ultimately show ?thesis
    using responsers_differ [of "str_lit ''k1''" "str_lit ''a&*&b''"] by simp
qed

theorem qt_responser_answers_witness:
  "\<exists>s'. readData sample_qt qt_KLresponser qt_KLresponser_update (qr_call (qr_answering sample_qt say_ok))
         (sample_qt_responser\<lparr>qt_KLresponser := (qt_KLresponser sample_qt_responser)\<lparr>tcpSocket :=
            (ConnectedState, frames [keyed_msg (str_lit ''k1'') (str_lit ''a''), keyed_msg (str_lit ''k2'') (str_lit ''b'')], [])\<rparr>\<rparr>) =
         Some (Inr (), s') \<and>
       (\<lambda>(st, inb, out). out) (tcpSocket (qt_KLresponser s')) =
         frames [keyed_msg (str_lit ''k1'') (str_lit ''ok''), keyed_msg (str_lit ''k2'') (str_lit ''ok'')] \<and> qr_app s' = 2"
proof -
  let ?its = "[(str_lit ''a'', str_lit ''k1''), (str_lit ''b'', str_lit ''k2'')]"
  let ?s = "sample_qt_responser\<lparr>qt_KLresponser := (qt_KLresponser sample_qt_responser)\<lparr>tcpSocket :=
            (ConnectedState, frames [keyed_msg (str_lit ''k1'') (str_lit ''a''), keyed_msg (str_lit ''k2'') (str_lit ''b'')], [])\<rparr>\<rparr>"
  have sv: "qr_serving sample_qt (\<lambda>(st, inb, out). out) say_ok ?s"
    using sample_qt_laws by (simp add: qr_serving_def sample_qt_responser)
      (simp add: sample_qt_def say_ok_def str_lit_def is_scalar_def is_surrogate_def)
  have rq: "list_all (qr_request say_ok) ?its"
    by (simp add: qr_request_def good_request_def answerable_def say_ok_def str_lit_def SEP_simps is_scalar_def
        is_surrogate_def keyed_msg_def utf8_char_def sublist_Cons_right)
  have rd: "api_readAll sample_qt (tcpSocket (qt_KLresponser ?s)) =
      (frames (map (\<lambda>(t, key). keyed_msg key t) ?its), (ConnectedState, [], []))"
    by (simp add: sample_qt_def)
  have an: "answers say_ok ?its (qr_app ?s) =
      ([keyed_msg (str_lit ''k1'') (str_lit ''ok''), keyed_msg (str_lit ''k2'') (str_lit ''ok'')], 2)"
    by (simp add: say_ok_def sample_qt_responser)
  have b: "qt_buffer (qt_KLresponser ?s) = []" by (simp add: sample_qt_responser)
  from qt_responser_answers [OF sv b rq rd an] show ?thesis by (auto simp del: frames_simps)
qed

end
