(* ===== verification/KL_Interop.thy ===== *)
theory KL_Interop
  imports KL_RpcSystem KL_QtQuerier KL_QtResponser
begin

text \<open>
  Programs that use different SDKs.  The responsers of both put the same answers on the
  wire, and a querier of either SDK can be served by a responser of either.

  What the two queriers have in common is the interface \<open>rpc_caller\<close>: a call sends one
  request, and returns when the bytes of an answer arrive.  What the two responsers have in
  common is \<open>rpc_server\<close>: the bytes of a request make it put the frame of its answer on the
  wire.  A series of calls through a broker is proved correct once, over these two interfaces.
\<close>

section \<open>The responsers of the two SDKs\<close>

text \<open>
  Claim C7 (equivalence): the responsers of the two SDKs answer alike.  Given the same requests, with clean
  keys and texts that are not empty and hold no separator, and the same function and state
  of the application, both call it once per request in order of arrival, end in the same
  state of the application and put the same bytes on the wire: one frame per request, in
  order, with the answer under the key of the request.  The plain responser reads the
  requests in any chunks and answers from its worker, which leaves the queue empty.
\<close>

theorem responsers_agree:
  assumes "serving p" and "resp_data_queue p = []" and "buffer (KLresponser p) = []"
    and "[] \<notin> set cs" and "concat cs = frames (map (\<lambda>(t, key). keyed_msg key t) its)"
    and "qr_serving api wire g s" and "qt_buffer (qt_KLresponser s) = []"
    and "api_readAll api (tcpSocket (qt_KLresponser s)) = (frames (map (\<lambda>(t, key). keyed_msg key t) its), k)"
    and "list_all (qr_request g) its" and "qr_app s = resp_app p"
  shows "\<exists>out p1 p2 s'. resp_receive (map Recv_Data cs) p = Some (Continue, p1) \<and>
     process_queue (resp_app_user g) (replicate (length its) Send_Ok) p1 = (Continue, p2) \<and>
     readData api qt_KLresponser qt_KLresponser_update (qr_call (qr_answering api g)) s = Some (Inr (), s') \<and>
     sk_sent (tcp_socket (KLresponser p2)) = sk_sent (tcp_socket (KLresponser p)) @ out \<and>
     wire (tcpSocket (qt_KLresponser s')) = wire (tcpSocket (qt_KLresponser s)) @ out \<and>
     out = frames (fst (answers g its (resp_app p))) \<and> resp_app p2 = snd (answers g its (resp_app p)) \<and>
     qr_app s' = resp_app p2 \<and> resp_data_queue p2 = []"
proof -
  obtain ms w where as: "answers g its (resp_app p) = (ms, w)" by fastforce
  have gr: "list_all good_request its" and an: "list_all (\<lambda>(t, key). answerable g key) its"
    using assms(9) by (auto simp: list_all_iff qr_request_def)
  have as': "answers g its (qr_app s) = (ms, w)" using as assms(10) by simp
  from responser_serves [OF assms(1-4) gr assms(5) an as] qt_responser_answers [OF assms(6,7,9,8) as'] as
  show ?thesis by (intro exI [of _ "frames ms"]) auto
qed

section \<open>Calls through a broker\<close>

text \<open>
  The two ends of a call.  \<open>ask\<close> is a query up to its wait, with the number of the call;
  \<open>await\<close> the rest of it when the bytes arrive; \<open>serve\<close> what a responser does when the
  bytes of a request arrive, with the steps of its worker.  \<open>None\<close> means that the call
  still waits, or that the responser does.  \<open>sent\<close> is what is on the wire.
\<close>

record ('s, 'i) caller_ops =
  ask :: "pystr \<Rightarrow> 's \<Rightarrow> 'i res \<times> 's"
  await :: "'i \<Rightarrow> bytes \<Rightarrow> 's \<Rightarrow> (pystr option res \<times> 's) option"
  caller_sent :: "'s \<Rightarrow> bytes"

record 'p server_ops =
  serve :: "bytes \<Rightarrow> 'p \<Rightarrow> 'p option"
  server_sent :: "'p \<Rightarrow> bytes"

text \<open>The broker reads what is new on a connection and passes every message on.\<close>

definition relay :: "(bytes \<Rightarrow> bytes) \<Rightarrow> bytes \<Rightarrow> bytes \<Rightarrow> bytes" where
  "relay tr before after = frames (map tr (fst (parse_stream 16777216 (drop (length before) after))))"

definition remote_call ::
  "('s, 'i) caller_ops \<Rightarrow> 'p server_ops \<Rightarrow> (bytes \<Rightarrow> bytes) \<Rightarrow> (bytes \<Rightarrow> bytes) \<Rightarrow> pystr \<Rightarrow> 's \<Rightarrow> 'p \<Rightarrow>
   (pystr option res \<times> 's \<times> 'p) option" where
  "remote_call C S to_resp to_querier d s p =
     (case ask C d s of
        (Inl e, s1) \<Rightarrow> Some (Inl e, s1, p)
      | (Inr i, s1) \<Rightarrow>
          (case serve S (relay to_resp (caller_sent C s) (caller_sent C s1)) p of
             None \<Rightarrow> None
           | Some p1 \<Rightarrow>
               (case await C i (relay to_querier (server_sent S p) (server_sent S p1)) s1 of
                  None \<Rightarrow> None
                | Some (x, s2) \<Rightarrow> Some (x, s2, p1))))"

primrec remote_calls ::
  "('s, 'i) caller_ops \<Rightarrow> 'p server_ops \<Rightarrow> (bytes \<Rightarrow> bytes) \<Rightarrow> (bytes \<Rightarrow> bytes) \<Rightarrow> pystr list \<Rightarrow> 's \<Rightarrow> 'p \<Rightarrow>
   (pystr option res list \<times> 's \<times> 'p) option" where
  "remote_calls C S to_resp to_querier [] s p = Some ([], s, p)"
| "remote_calls C S to_resp to_querier (d # ds) s p =
     (case remote_call C S to_resp to_querier d s p of
        None \<Rightarrow> None
      | Some (x, s1, p1) \<Rightarrow>
          (case remote_calls C S to_resp to_querier ds s1 p1 of
             None \<Rightarrow> None
           | Some (xs, s2, p2) \<Rightarrow> Some (x # xs, s2, p2)))"

lemma relay_frame:
  "valid_msg 16777216 m \<Longrightarrow> relay tr b (b @ frame m) = frame (tr m)"
  using frames_chunks_parse [of 16777216 "[m]"] by (simp add: relay_def)

text \<open>
  A caller that is \<open>idle\<close> and can make the request \<open>d\<close> puts one frame with \<open>msg s d\<close> on the
  wire, returns the answer that arrives and is idle again.  A responser that is \<open>waiting\<close>
  answers a request and waits again.
\<close>

locale rpc_caller =
  fixes C :: "('s, 'i) caller_ops" and idle :: "'s \<Rightarrow> bool" and msg :: "'s \<Rightarrow> pystr \<Rightarrow> bytes"
    and sendable :: "'s \<Rightarrow> pystr \<Rightarrow> bool"
  assumes ask_sends: "idle s \<Longrightarrow> sendable s d \<Longrightarrow> good_answer a \<Longrightarrow>
      \<exists>i s1 s2. ask C d s = (Inr i, s1) \<and> caller_sent C s1 = caller_sent C s @ frame (msg s d) \<and>
        await C i (frame (utf8_bytes a)) s1 = Some (Inr (Some a), s2) \<and>
        idle s2 \<and> msg s2 = msg s \<and> sendable s2 = sendable s"
    and msg_valid: "idle s \<Longrightarrow> sendable s d \<Longrightarrow> valid_msg 16777216 (msg s d)"

locale rpc_server =
  fixes S :: "'p server_ops" and g :: "pystr \<Rightarrow> 'w \<Rightarrow> pystr \<times> 'w" and waiting :: "'p \<Rightarrow> bool" and state :: "'p \<Rightarrow> 'w"
  assumes serve_answers: "waiting p \<Longrightarrow> qr_request g (t, key) \<Longrightarrow> g t (state p) = (a, w) \<Longrightarrow>
      \<exists>p'. serve S (frame (keyed_msg key t)) p = Some p' \<and> waiting p' \<and> state p' = w \<and>
        server_sent S p' = server_sent S p @ frame (keyed_msg key a)"

text \<open>What is used of the broker and of the application.\<close>

definition passes_on ::
  "(pystr \<Rightarrow> 'w \<Rightarrow> pystr \<times> 'w) \<Rightarrow> (bytes \<Rightarrow> bytes) \<Rightarrow> (bytes \<Rightarrow> bytes) \<Rightarrow> pystr \<Rightarrow> (pystr \<Rightarrow> bytes) \<Rightarrow> 'w \<Rightarrow> pystr list \<Rightarrow> bool" where
  "passes_on g to_resp to_querier key msg w ds \<longleftrightarrow>
     (\<forall>d \<in> set ds. qr_request g (d, key) \<and> to_resp (msg d) = keyed_msg key d) \<and>
     (\<forall>a \<in> set (replies g ds w). good_answer a \<and> to_querier (keyed_msg key a) = utf8_bytes a)"

lemma passes_on_Cons:
  "passes_on g to_resp to_querier key msg w (d # ds) \<longleftrightarrow>
     qr_request g (d, key) \<and> to_resp (msg d) = keyed_msg key d \<and>
     good_answer (fst (g d w)) \<and> to_querier (keyed_msg key (fst (g d w))) = utf8_bytes (fst (g d w)) \<and>
     passes_on g to_resp to_querier key msg (snd (g d w)) ds"
  by (auto simp: passes_on_def)

locale rpc_pair = rpc_caller C idle msg sendable + rpc_server S g waiting state
  for C :: "('s, 'i) caller_ops" and idle msg sendable
    and S :: "'p server_ops" and g :: "pystr \<Rightarrow> 'w \<Rightarrow> pystr \<times> 'w" and waiting state
begin

lemma one_call:
  assumes "idle s" and "waiting p" and "sendable s d"
    and "passes_on g to_resp to_querier key (msg s) (state p) (d # ds)"
  shows "\<exists>s' p'. remote_call C S to_resp to_querier d s p = Some (Inr (Some (fst (g d (state p)))), s', p') \<and>
     idle s' \<and> msg s' = msg s \<and> sendable s' = sendable s \<and> waiting p' \<and> state p' = snd (g d (state p))"
proof -
  obtain a w where g: "g d (state p) = (a, w)" by fastforce
  note po = assms(4) [unfolded passes_on_Cons g fst_conv snd_conv]
  obtain i s1 s2 where s: "ask C d s = (Inr i, s1)" "caller_sent C s1 = caller_sent C s @ frame (msg s d)"
      "await C i (frame (utf8_bytes a)) s1 = Some (Inr (Some a), s2)" "idle s2" "msg s2 = msg s" "sendable s2 = sendable s"
    using ask_sends [OF assms(1,3), of a] po by blast
  obtain p' where p: "serve S (frame (keyed_msg key d)) p = Some p'" "waiting p'" "state p' = w"
      "server_sent S p' = server_sent S p @ frame (keyed_msg key a)"
    using serve_answers [OF assms(2) _ g, of key] po by blast
  have "valid_msg 16777216 (keyed_msg key a)"
  proof -
    have "length (keyed_msg key (fst (g d (state p)))) \<le> 16777216"
      using po unfolding qr_request_def answerable_def snd_conv by blast
    then show ?thesis by (simp add: g valid_msg_def keyed_msg_def SEP_simps)
  qed
  with s p po msg_valid [OF assms(1,3)] show ?thesis
    by (simp add: remote_call_def relay_frame g)
qed

lemma series_of_calls:
  assumes "idle s" and "waiting p" and "\<forall>d \<in> set ds. sendable s d"
    and "passes_on g to_resp to_querier key (msg s) (state p) ds"
  shows "\<exists>s' p'. remote_calls C S to_resp to_querier ds s p =
       Some (map (\<lambda>a. Inr (Some a)) (replies g ds (state p)), s', p') \<and> state p' = state_after g ds (state p)"
  using assms
proof (induction ds arbitrary: s p)
  case (Cons d ds)
  have sd: "sendable s d" using Cons.prems(3) by simp
  obtain s1 p1 where 1: "remote_call C S to_resp to_querier d s p = Some (Inr (Some (fst (g d (state p)))), s1, p1)"
      "idle s1" "msg s1 = msg s" "sendable s1 = sendable s" "waiting p1" "state p1 = snd (g d (state p))"
    using one_call [OF Cons.prems(1,2) sd Cons.prems(4)] by blast
  have "\<exists>s' p'. remote_calls C S to_resp to_querier ds s1 p1 =
       Some (map (\<lambda>a. Inr (Some a)) (replies g ds (state p1)), s', p') \<and> state p' = state_after g ds (state p1)"
    using Cons.prems(3,4) 1 by (intro Cons.IH) (simp_all add: passes_on_Cons)
  with 1 show ?case by auto
qed simp

end

section \<open>The plain SDK\<close>

definition plain_caller :: "(pystr \<Rightarrow> 'v \<Rightarrow> 'v) \<Rightarrow> (('u, 'v) open_socket_querier, unit) caller_ops" where
  "plain_caller f =
     \<lparr>ask = (\<lambda>d s. query_async Send_Ok d (query_begin s)),
      await = (\<lambda>_ b s. case q_receive (q_app_user f) [Recv_Data b] s of
                 Some (Continue, s1) \<Rightarrow> if query_event s1 then Some (query_end True s1) else None
               | _ \<Rightarrow> None),
      caller_sent = (\<lambda>s. sk_sent (tcp_socket (KLquerier s)))\<rparr>"

definition plain_server :: "(pystr \<Rightarrow> 'w \<Rightarrow> pystr \<times> 'w) \<Rightarrow> ('u, 'w) open_socket_responser server_ops" where
  "plain_server g =
     \<lparr>serve = (\<lambda>b p. case resp_receive [Recv_Data b] p of
                 Some (Continue, p1) \<Rightarrow>
                   (case process_queue (resp_app_user g) [Send_Ok] p1 of (Continue, p2) \<Rightarrow> Some p2 | _ \<Rightarrow> None)
               | _ \<Rightarrow> None),
      server_sent = (\<lambda>p. sk_sent (tcp_socket (KLresponser p)))\<rparr>"

definition plain_idle :: "('u, 'v) open_socket_querier \<Rightarrow> bool" where
  "plain_idle s \<longleftrightarrow> listening s \<and> buffer (KLquerier s) = []"

definition plain_waiting :: "('u, 'w) open_socket_responser \<Rightarrow> bool" where
  "plain_waiting p \<longleftrightarrow> serving p \<and> resp_data_queue p = [] \<and> buffer (KLresponser p) = []"

lemma parse_one: "valid_msg 16777216 m \<Longrightarrow> parse_stream 16777216 (frame m) = ([m], [], Need_More)"
  using frames_chunks_parse [of 16777216 "[m]"] by simp

interpretation plain_caller: rpc_caller "plain_caller f" plain_idle query_msg q_sendable
  for f :: "pystr \<Rightarrow> 'v \<Rightarrow> 'v"
proof unfold_locales
  fix s :: "('u, 'v) open_socket_querier" and d a
  assume i: "plain_idle s" and d: "q_sendable s d" and a: "good_answer a"
  let ?s1 = "(query_begin s)\<lparr>KLquerier := add_sent (frame (query_msg s d)) (KLquerier s)\<rparr>"
  have ask: "query_async Send_Ok d (query_begin s) = (Inr (), ?s1)"
    using i d query_async_sendable [of "query_begin s" d Send_Ok]
    by (auto simp: plain_idle_def listening_def q_sendable_def send_data_def write_eq online_def)
  have l: "listening ?s1" "box ?s1 None" "buffer (KLquerier ?s1) = []" "q_appID ?s1 = q_appID s"
      "q_openSocketID ?s1 = q_openSocketID s" "MAX_MSG_SIZE (KLquerier ?s1) = MAX_MSG_SIZE (KLquerier s)"
    using i by (auto simp: plain_idle_def listening_def box_def query_begin_def online_def add_sent_def connected_def)
  have hb: "utf8_bytes a \<noteq> HEARTBEAT_RESPONSE" "decode_replace (utf8_bytes a) = a" "valid_msg 16777216 (utf8_bytes a)"
    using a by (auto simp: good_answer_def utf8_heartbeat_response decode_utf8_bytes valid_msg_def)
  obtain s2 where s2: "q_receive (q_app_user f) [Recv_Data (frame (utf8_bytes a))] ?s1 = Some (Continue, s2)"
      "listening s2" "box s2 (Some a)" "q_appID s2 = q_appID s" "q_openSocketID s2 = q_openSocketID s"
      "KLquerier s2 = (KLquerier ?s1)\<lparr>buffer := []\<rparr>"
    using waiting_takes [OF l(1,2), of "frame (utf8_bytes a)" "[utf8_bytes a]" "[]" "utf8_bytes a" f]
      hb l(3-5) parse_one [OF hb(3)] by auto
  let ?s3 = "s2\<lparr>is_querying := False\<rparr>"
  have "query_end True s2 = (Inr (Some a), ?s3)" "query_event s2"
    using s2(3) by (simp_all add: box_def query_end_def)
  moreover have "plain_idle ?s3" "query_msg ?s3 = query_msg s" "q_sendable ?s3 = q_sendable s"
    using s2 l(6) by (auto simp: plain_idle_def listening_def query_msg_def q_sendable_def q_encodable_def fun_eq_iff)
  ultimately show "\<exists>i s1 s2. ask (plain_caller f) d s = (Inr i, s1) \<and>
      caller_sent (plain_caller f) s1 = caller_sent (plain_caller f) s @ frame (query_msg s d) \<and>
      await (plain_caller f) i (frame (utf8_bytes a)) s1 = Some (Inr (Some a), s2) \<and>
      plain_idle s2 \<and> query_msg s2 = query_msg s \<and> q_sendable s2 = q_sendable s"
    using ask s2(1) by (auto simp: plain_caller_def add_sent_def)
qed (simp add: q_sendable_def valid_msg_def query_msg_def SEP_simps)

interpretation plain_server: rpc_server "plain_server g" g plain_waiting resp_app
  for g :: "pystr \<Rightarrow> 'w \<Rightarrow> pystr \<times> 'w"
proof unfold_locales
  fix p :: "('u, 'w) open_socket_responser" and t key a w
  assume p: "plain_waiting p" and q: "qr_request g (t, key)" and g: "g t (resp_app p) = (a, w)"
  have v: "valid_msg 16777216 (keyed_msg key t)" and gr: "good_request (t, key)"
    using q by (auto simp: qr_request_def good_request_def valid_msg_def keyed_msg_def SEP_simps)
  have b: "serving p" "resp_data_queue p = []" "buffer (KLresponser p) = []" using p by (simp_all add: plain_waiting_def)
  obtain p1 where p1: "resp_receive [Recv_Data (frame (keyed_msg key t))] p = Some (Continue, p1)" "serving p1"
      "resp_data_queue p1 = [(t, key)]" "resp_app p1 = resp_app p" "KLresponser p1 = (KLresponser p)\<lparr>buffer := []\<rparr>"
    using serving_takes [OF b(1), of "frame (keyed_msg key t)" "[keyed_msg key t]" "[]"] gr b(2,3) parse_one [OF v]
      not_heartbeat_keyed [of key t] map_filter_requests [of "[(t, key)]"] by auto
  have an: "\<not> list_ex is_surrogate key" "\<not> list_ex is_surrogate a" "length (keyed_msg key a) \<le> 16777216"
    using q g unfolding qr_request_def answerable_def by (metis fst_conv snd_conv)+
  have g1: "g t (resp_app p1) = (a, w)" using g p1(4) by simp
  let ?p2 = "p1\<lparr>resp_data_queue := [], resp_unfinished := 0, resp_app := w,
      KLresponser := add_sent (frame (keyed_msg key a)) (KLresponser p1)\<rparr>"
  have "process_queue (resp_app_user g) [Send_Ok] p1 = (Continue, ?p2)"
    using process_queue_step_sends [where g = g, OF p1(2,3) g1 an] by simp
  then show "\<exists>p'. serve (plain_server g) (frame (keyed_msg key t)) p = Some p' \<and> plain_waiting p' \<and> resp_app p' = w \<and>
      server_sent (plain_server g) p' = server_sent (plain_server g) p @ frame (keyed_msg key a)"
    using p1 by (auto simp: plain_server_def plain_waiting_def serving_def online_def add_sent_def connected_def)
qed

section \<open>The PyQt SDK\<close>

text \<open>
  \<open>arrive b k\<close> is a socket after the bytes \<open>b\<close> have come in.  What is used of it and of
  \<^verbatim>\<open>readAll\<close>: new bytes come behind those that are still unread, \<^verbatim>\<open>readAll\<close> leaves none
  unread, and writing does not change them.
\<close>

definition qt_arrivals :: "('k, 't) qt_api \<Rightarrow> ('k \<Rightarrow> bytes) \<Rightarrow> (bytes \<Rightarrow> 'k \<Rightarrow> 'k) \<Rightarrow> bool" where
  "qt_arrivals api wire arrive \<longleftrightarrow>
     qt_laws api wire \<and>
     (\<forall>k. fst (api_readAll api (snd (api_readAll api k))) = []) \<and>
     (\<forall>d k. fst (api_readAll api (api_write api d k)) = fst (api_readAll api k)) \<and>
     (\<forall>b k. api_state api k = ConnectedState \<longrightarrow>
        fst (api_readAll api (arrive b k)) = fst (api_readAll api k) @ b \<and> wire (arrive b k) = wire k \<and>
        api_state api (arrive b k) = ConnectedState)"

definition at_rest :: "('k, 't) qt_api \<Rightarrow> ('k, 't) qt_client \<Rightarrow> bool" where
  "at_rest api c \<longleftrightarrow> api_state api (tcpSocket c) = ConnectedState \<and> fst (api_readAll api (tcpSocket c)) = [] \<and>
     qt_buffer c = [] \<and> qt_MAX_MSG_SIZE c = 16777216"

definition qt_caller ::
  "('k, 't) qt_api \<Rightarrow> ('k \<Rightarrow> bytes) \<Rightarrow> (bytes \<Rightarrow> 'k \<Rightarrow> 'k) \<Rightarrow> (bytes \<Rightarrow> 'v \<Rightarrow> 'v) \<Rightarrow> (pystr \<Rightarrow> 'v \<Rightarrow> 'v) \<Rightarrow>
   (('k, 't, 'v) qt_querier, nat) caller_ops" where
  "qt_caller api wire arrive fa f =
     \<lparr>ask = query_l_begin api,
      await = (\<lambda>i b s.
        case exec_loop i [\<lambda>s. on_readyRead api (qq_app_user fa f) (arrive b (tcpSocket (qt_KLquerier s))) s] s of
          None \<Rightarrow> None
        | Some (Inl e, s1) \<Rightarrow> Some (Inl e, s1)
        | Some (Inr _, s1) \<Rightarrow> (case query_l_end i s1 of (r, s2) \<Rightarrow> Some (Inr (Some r), s2))),
      caller_sent = (\<lambda>s. wire (tcpSocket (qt_KLquerier s)))\<rparr>"

definition qt_server ::
  "('k, 't) qt_api \<Rightarrow> ('k \<Rightarrow> bytes) \<Rightarrow> (bytes \<Rightarrow> 'k \<Rightarrow> 'k) \<Rightarrow> (pystr \<Rightarrow> 'w \<Rightarrow> pystr \<times> 'w) \<Rightarrow>
   ('k, 't, 'w) qt_responser server_ops" where
  "qt_server api wire arrive g =
     \<lparr>serve = (\<lambda>b p.
        case readData api qt_KLresponser qt_KLresponser_update (qr_call (qr_answering api g))
               (qt_KLresponser_update (\<lambda>c. c\<lparr>tcpSocket := arrive b (tcpSocket c)\<rparr>) p) of
          Some (Inr _, p1) \<Rightarrow> Some p1
        | _ \<Rightarrow> None),
      server_sent = (\<lambda>p. wire (tcpSocket (qt_KLresponser p)))\<rparr>"

text \<open>The two halves of a call are the blocking query with that arrival as the only event.\<close>

lemma qt_caller_is_query_l:
  "query_l api [\<lambda>s. on_readyRead api (qq_app_user fa f) (arrive b (tcpSocket (qt_KLquerier s))) s] d s =
     (case ask (qt_caller api wire arrive fa f) d s of
        (Inl e, s1) \<Rightarrow> Some (Inl e, s1)
      | (Inr i, s1) \<Rightarrow> map_option (\<lambda>(x, s2). (map_sum id the x, s2)) (await (qt_caller api wire arrive fa f) i b s1))"
  by (auto simp: query_l_def qt_caller_def query_l_end_def split: prod.splits sum.splits option.splits)

definition qt_idle ::
  "('k, 't) qt_api \<Rightarrow> ('k \<Rightarrow> bytes) \<Rightarrow> (bytes \<Rightarrow> 'k \<Rightarrow> 'k) \<Rightarrow> ('k, 't, 'v) qt_querier \<Rightarrow> bool" where
  "qt_idle api wire arrive s \<longleftrightarrow> qt_arrivals api wire arrive \<and> at_rest api (qt_KLquerier s) \<and>
     receivedData_slots (qt_KLquerier s) = [OpenSocketQuerier_dataRecv]"

definition qq_sendable :: "('k, 't, 'v) qt_querier \<Rightarrow> pystr \<Rightarrow> bool" where
  "qq_sendable s d \<longleftrightarrow> \<not> list_ex is_surrogate (qq_appID s) \<and> \<not> list_ex is_surrogate (qq_openSocketID s) \<and>
     \<not> list_ex is_surrogate d \<and> length (qq_msg s d) \<le> 16777216"

definition qt_waiting ::
  "('k, 't) qt_api \<Rightarrow> ('k \<Rightarrow> bytes) \<Rightarrow> (bytes \<Rightarrow> 'k \<Rightarrow> 'k) \<Rightarrow> (pystr \<Rightarrow> 'w \<Rightarrow> pystr \<times> 'w) \<Rightarrow> ('k, 't, 'w) qt_responser \<Rightarrow> bool" where
  "qt_waiting api wire arrive g p \<longleftrightarrow> qt_arrivals api wire arrive \<and> at_rest api (qt_KLresponser p) \<and> qr_serving api wire g p"

context qt_lens
begin

text \<open>One message arrives whole at a client at rest.\<close>

lemma read_one:
  assumes "qt_arrivals api wire arrive" and "at_rest api (get s)" and "valid_msg 16777216 m" and "m \<noteq> HEARTBEAT_RESPONSE"
    and "k = snd (api_readAll api (arrive (frame m) (tcpSocket (get s))))"
    and "qt_emit get call (Emit_receivedData m) (upd (\<lambda>c. c\<lparr>tcpSocket := k, qt_buffer := []\<rparr>) s) = (Inr (), s')"
    and "qt_buffer (get s') = []"
  shows "readData api get upd call (upd (\<lambda>c. c\<lparr>tcpSocket := arrive (frame m) (tcpSocket c)\<rparr>) s) = Some (Inr (), s')"
proof -
  have r: "api_readAll api (arrive (frame m) (tcpSocket (get s))) = (frame m, k)"
    using assms(1,2,5) by (auto simp: qt_arrivals_def at_rest_def prod_eq_iff)
  let ?s = "upd (\<lambda>c. c\<lparr>tcpSocket := k, qt_buffer := qt_buffer c @ frame m\<rparr>) s"
  have nf: "next_frame (qt_MAX_MSG_SIZE (get ?s)) (qt_buffer (get ?s)) = Frame m []"
    using assms(2,3) next_frame_frame [of 16777216 m "[]"] by (simp add: at_rest_def get_upd)
  have h: "qt_emit get call (Emit_receivedData m) (upd (\<lambda>c. c\<lparr>qt_buffer := []\<rparr>) ?s) = (Inr (), s')"
    using assms(6) by (simp add: upd_upd)
  have "processBuffer api get upd call ?s = Some (Inr (), s')"
    by (rule loop.loop_emptied [OF nf assms(4) h assms(7)])
  with r show ?thesis by (simp add: readData_def get_upd upd_upd)
qed

end

interpretation qt_server: rpc_server "qt_server api wire arrive g" g "qt_waiting api wire arrive g" qr_app
  for api :: "('k, 't) qt_api" and wire arrive and g :: "pystr \<Rightarrow> 'w \<Rightarrow> pystr \<times> 'w"
proof unfold_locales
  fix p :: "('k, 't, 'w) qt_responser" and t key a w
  assume p: "qt_waiting api wire arrive g p" and q: "qr_request g (t, key)" and g: "g t (qr_app p) = (a, w)"
  let ?m = "keyed_msg key t"
  define k where "k = snd (api_readAll api (arrive (frame ?m) (tcpSocket (qt_KLresponser p))))"
  let ?p1 = "qt_KLresponser_update (\<lambda>c. c\<lparr>tcpSocket := k, qt_buffer := []\<rparr>) p"
  have k: "wire k = wire (tcpSocket (qt_KLresponser p))" "api_state api k = ConnectedState" "fst (api_readAll api k) = []"
    using p by (auto simp: k_def qt_waiting_def qt_arrivals_def qt_laws_def at_rest_def)
  have sv: "qr_serving api wire g ?p1" and g1: "g t (qr_app ?p1) = (a, w)"
    using p k g by (auto simp: qt_waiting_def qr_serving_def)
  let ?p2 = "?p1\<lparr>qr_app := w, qt_KLresponser := (qt_KLresponser ?p1)\<lparr>tcpSocket :=
      api_write api (frame (keyed_msg key a)) (tcpSocket (qt_KLresponser ?p1))\<rparr>\<rparr>"
  have ar: "qt_arrivals api wire arrive" and r: "at_rest api (qt_KLresponser p)" using p by (simp_all add: qt_waiting_def)
  have v: "valid_msg 16777216 ?m"
    using q by (auto simp: qr_request_def good_request_def valid_msg_def keyed_msg_def SEP_simps)
  have "readData api qt_KLresponser qt_KLresponser_update (qr_call (qr_answering api g))
      (qt_KLresponser_update (\<lambda>c. c\<lparr>tcpSocket := arrive (frame ?m) (tcpSocket c)\<rparr>) p) = Some (Inr (), ?p2)"
    using qr_answer_emit [OF sv q g1] by (intro qt_responser.read_one [OF ar r v not_heartbeat_keyed k_def]) simp_all
  moreover have "qt_waiting api wire arrive g ?p2"
    using p k by (auto simp: qt_waiting_def qr_serving_def qt_arrivals_def qt_laws_def at_rest_def)
  moreover have "wire (tcpSocket (qt_KLresponser ?p2)) = wire (tcpSocket (qt_KLresponser p)) @ frame (keyed_msg key a)"
    using p k by (auto simp: qt_waiting_def qt_arrivals_def qt_laws_def)
  ultimately show "\<exists>p'. serve (qt_server api wire arrive g) (frame ?m) p = Some p' \<and> qt_waiting api wire arrive g p' \<and>
      qr_app p' = w \<and> server_sent (qt_server api wire arrive g) p' = server_sent (qt_server api wire arrive g) p @ frame (keyed_msg key a)"
    by (intro exI [of _ ?p2]) (simp add: qt_server_def)
qed

lemma arrive_const:
  "qt_KLquerier_update (\<lambda>c. c\<lparr>tcpSocket := h (tcpSocket c)\<rparr>) s =
   qt_KLquerier_update (\<lambda>c. c\<lparr>tcpSocket := h (tcpSocket (qt_KLquerier s))\<rparr>) s"
  by (cases s) simp

interpretation qt_caller: rpc_caller "qt_caller api wire arrive fa f" "qt_idle api wire arrive" qq_msg qq_sendable
  for api :: "('k, 't) qt_api" and wire arrive and fa :: "bytes \<Rightarrow> 'v \<Rightarrow> 'v" and f
proof unfold_locales
  fix s :: "('k, 't, 'v) qt_querier" and d a
  assume i: "qt_idle api wire arrive s" and d: "qq_sendable s d" and a: "good_answer a"
  let ?i = "qq_next s" and ?m = "utf8_bytes a"
  obtain s1 where s1: "query_l_begin api d s = (Inr ?i, s1)"
      "tcpSocket (qt_KLquerier s1) = api_write api (frame (qq_msg s d)) (tcpSocket (qt_KLquerier s))"
      "receivedData_slots (qt_KLquerier s1) = [OpenSocketQuerier_dataRecv, On_data_received ?i]"
      "qt_buffer (qt_KLquerier s1) = []" "qt_MAX_MSG_SIZE (qt_KLquerier s1) = 16777216"
      "qq_lock s1" "qq_appID s1 = qq_appID s" "qq_openSocketID s1 = qq_openSocketID s"
    using i d query_l_begin_eq [of s d api] by (auto simp: qt_idle_def qq_sendable_def at_rest_def)
  have w: "wire (tcpSocket (qt_KLquerier s1)) = wire (tcpSocket (qt_KLquerier s)) @ frame (qq_msg s d)"
    and r: "at_rest api (qt_KLquerier s1)" and ar: "qt_arrivals api wire arrive"
    using i s1 by (auto simp: qt_idle_def qt_arrivals_def qt_laws_def at_rest_def)
  have hb: "?m \<noteq> HEARTBEAT_RESPONSE" "decode_utf8 ?m = Inr a" "valid_msg 16777216 ?m"
    using a by (auto simp: good_answer_def utf8_heartbeat_response decode_utf8_bytes valid_msg_def)
  define k where "k = snd (api_readAll api (arrive (frame ?m) (tcpSocket (qt_KLquerier s1))))"
  let ?s2 = "(qt_KLquerier_update (\<lambda>c. c\<lparr>tcpSocket := k, qt_buffer := []\<rparr>) s1)
      \<lparr>qq_result := (qq_result s1)(?i := a), qq_lock := False, qq_quit := (qq_quit s1)(?i := True)\<rparr>"
  have "readData api qt_KLquerier qt_KLquerier_update (qq_call (qq_app_user fa f))
      (qt_KLquerier_update (\<lambda>c. c\<lparr>tcpSocket := arrive (frame ?m) (tcpSocket c)\<rparr>) s1) = Some (Inr (), ?s2)"
    using s1 hb(2) by (intro qt_querier.read_one [OF ar r hb(3,1) k_def])
      (simp_all add: qt_emit_def qq_dataRecv_def on_data_received_def)
  then have e: "exec_loop ?i [\<lambda>s. on_readyRead api (qq_app_user fa f) (arrive (frame ?m) (tcpSocket (qt_KLquerier s))) s] s1 = Some (Inr (), ?s2)"
    by (simp add: on_readyRead_def arrive_const)
  let ?s3 = "snd (query_l_end ?i ?s2)"
  have "qt_idle api wire arrive ?s3"
    using s1(3,5) ar r by (auto simp: qt_idle_def query_l_end_def at_rest_def k_def qt_arrivals_def qt_laws_def)
  moreover have "qq_msg ?s3 = qq_msg s" "qq_sendable ?s3 = qq_sendable s"
    using s1(7,8) by (auto simp: query_l_end_def qq_msg_def qq_sendable_def fun_eq_iff)
  moreover have "await (qt_caller api wire arrive fa f) ?i (frame ?m) s1 = Some (Inr (Some a), ?s3)"
    using e by (simp add: qt_caller_def query_l_end_def)
  ultimately show "\<exists>i s1 s2. ask (qt_caller api wire arrive fa f) d s = (Inr i, s1) \<and>
      caller_sent (qt_caller api wire arrive fa f) s1 = caller_sent (qt_caller api wire arrive fa f) s @ frame (qq_msg s d) \<and>
      await (qt_caller api wire arrive fa f) i (frame ?m) s1 = Some (Inr (Some a), s2) \<and>
      qt_idle api wire arrive s2 \<and> qq_msg s2 = qq_msg s \<and> qq_sendable s2 = qq_sendable s"
    using s1(1) w by (intro exI [of _ ?i] exI [of _ s1] exI [of _ ?s3]) (simp add: qt_caller_def)
qed (simp add: qq_sendable_def valid_msg_def qq_msg_def SEP_simps)

section \<open>Any querier with any responser\<close>

interpretation plain_plain: rpc_pair "plain_caller f" plain_idle query_msg q_sendable "plain_server g" g plain_waiting resp_app
  for f :: "pystr \<Rightarrow> 'v \<Rightarrow> 'v" and g :: "pystr \<Rightarrow> 'w \<Rightarrow> pystr \<times> 'w"
  by unfold_locales

interpretation plain_qt: rpc_pair "plain_caller f" plain_idle query_msg q_sendable
    "qt_server api wire arrive g" g "qt_waiting api wire arrive g" qr_app
  for f :: "pystr \<Rightarrow> 'v \<Rightarrow> 'v" and g :: "pystr \<Rightarrow> 'w \<Rightarrow> pystr \<times> 'w" and api :: "('k, 't) qt_api" and wire arrive
  by unfold_locales

interpretation qt_plain: rpc_pair "qt_caller api wire arrive fa f" "qt_idle api wire arrive" qq_msg qq_sendable
    "plain_server g" g plain_waiting resp_app
  for fa :: "bytes \<Rightarrow> 'v \<Rightarrow> 'v" and f and g :: "pystr \<Rightarrow> 'w \<Rightarrow> pystr \<times> 'w" and api :: "('k, 't) qt_api" and wire arrive
  by unfold_locales

interpretation qt_qt: rpc_pair "qt_caller api wire arrive fa f" "qt_idle api wire arrive" qq_msg qq_sendable
    "qt_server api wire arrive g" g "qt_waiting api wire arrive g" qr_app
  for fa :: "bytes \<Rightarrow> 'v \<Rightarrow> 'v" and f and g :: "pystr \<Rightarrow> 'w \<Rightarrow> pystr \<times> 'w" and api :: "('k, 't) qt_api" and wire arrive
  by unfold_locales

text \<open>Queriers of the two SDKs that ask the same socket send the same messages.\<close>

lemma same_messages:
  assumes "q_appID q = Some (qq_appID s)" and "q_openSocketID q = Some (qq_openSocketID s)"
  shows "qq_msg s = query_msg q" and "q_sendable q d \<Longrightarrow> qq_sendable s d"
  using assms
  by (auto simp: fun_eq_iff qq_msg_def query_msg_def fstr_def q_sendable_def q_encodable_def qq_sendable_def)


section \<open>Samples\<close>

definition sample_arrive :: "bytes \<Rightarrow> sample_socket \<Rightarrow> sample_socket" where
  "sample_arrive b k = (case k of (st, inb, out) \<Rightarrow> (st, inb @ b, out))"

abbreviation sample_wire :: "sample_socket \<Rightarrow> bytes" where
  "sample_wire \<equiv> \<lambda>(st, inb, out). out"

lemma sample_arrivals: "qt_arrivals sample_qt sample_wire sample_arrive"
  using sample_qt_laws by (auto simp: qt_arrivals_def sample_qt_def sample_arrive_def)

definition ok_responser :: "(unit, nat) open_socket_responser" where
  "ok_responser = resp_set_RecvFunc (Some ())
     (snd (new_open_socket_responser True Send_Ok (str_lit ''app'') (str_lit ''sock'') 0))"

lemma ok_responser: "plain_waiting ok_responser" "resp_app ok_responser = 0"
  by (simp_all add: ok_responser_def plain_waiting_def resp_set_RecvFunc_def new_open_socket_responser_def
      resp_init_def serving_def online_def next_frame_def encode_utf8_def send_data_def write_eq
      connect_to_server_def sock_connect_def new_client_def new_socket_def client_simps
      str_lit_def topic_def dash_def is_surrogate_def utf8_char_def)

definition sock_qt_querier :: "(sample_socket, bool, (bytes + pystr) list) qt_querier" where
  "sock_qt_querier = qq_setConfig (str_lit ''app'') (str_lit ''sock'') sample_qt_querier"

lemma sock_qt_querier:
  "qt_idle sample_qt sample_wire sample_arrive sock_qt_querier"
  "q_appID sample_querier = Some (qq_appID sock_qt_querier)"
  "q_openSocketID sample_querier = Some (qq_openSocketID sock_qt_querier)"
  using sample_arrivals
  by (auto simp: sock_qt_querier_def qq_setConfig_def sample_qt_querier_def new_qt_querier_def qq_init_def qt_idle_def
      at_rest_def qt_simps sample_querier_simps)

lemma sample_qt_waiting: "qt_waiting sample_qt sample_wire sample_arrive say_ok sample_qt_responser"
  using sample_arrivals sample_qt_laws
  by (auto simp: qt_waiting_def at_rest_def sample_qt_responser qr_serving_def)
    (auto simp: sample_qt_def say_ok_def str_lit_def is_scalar_def is_surrogate_def)

lemma say_ok_request: "qr_request say_ok (str_lit ''hi'', str_lit ''7'')" "qr_request say_ok (str_lit ''you'', str_lit ''7'')"
  by (simp_all add: qr_request_def good_request_def answerable_def say_ok_def str_lit_def SEP_simps is_scalar_def
      is_surrogate_def keyed_msg_def utf8_char_def sublist_Cons_right)

theorem responsers_agree_witness:
  "\<exists>p1 p2 s'. resp_receive (map Recv_Data [frames [keyed_msg (str_lit ''7'') (str_lit ''hi''), keyed_msg (str_lit ''7'') (str_lit ''you'')]])
        ok_responser = Some (Continue, p1) \<and>
     process_queue (resp_app_user say_ok) (replicate 2 Send_Ok) p1 = (Continue, p2) \<and>
     readData sample_qt qt_KLresponser qt_KLresponser_update (qr_call (qr_answering sample_qt say_ok))
       (qt_KLresponser_update (\<lambda>c. c\<lparr>tcpSocket := sample_arrive (frames [keyed_msg (str_lit ''7'') (str_lit ''hi''),
          keyed_msg (str_lit ''7'') (str_lit ''you'')]) (tcpSocket c)\<rparr>) sample_qt_responser) = Some (Inr (), s') \<and>
     qr_app s' = resp_app p2 \<and> resp_app p2 = 2"
proof -
  let ?its = "[(str_lit ''hi'', str_lit ''7''), (str_lit ''you'', str_lit ''7'')]"
  let ?x = "frames (map (\<lambda>(t, key). keyed_msg key t) ?its)"
  let ?s = "qt_KLresponser_update (\<lambda>c. c\<lparr>tcpSocket := sample_arrive ?x (tcpSocket c)\<rparr>) sample_qt_responser"
  have p: "serving ok_responser" "resp_data_queue ok_responser = []" "buffer (KLresponser ok_responser) = []"
    using ok_responser(1) by (simp_all add: plain_waiting_def)
  have ne: "[] \<notin> set [?x]" and cc: "concat [?x] = ?x" by simp_all
  have sv: "qr_serving sample_qt sample_wire say_ok ?s" and b: "qt_buffer (qt_KLresponser ?s) = []"
    and rd: "api_readAll sample_qt (tcpSocket (qt_KLresponser ?s)) = (?x, (ConnectedState, [], frame (b_lit ''app-s'')))"
    using sample_qt_waiting
    by (simp_all add: qt_waiting_def qr_serving_def sample_qt_responser sample_qt_def sample_arrive_def del: frames_simps)
  have rq: "list_all (qr_request say_ok) ?its" using say_ok_request by simp
  have app: "qr_app ?s = resp_app ok_responser" by (simp add: sample_qt_responser ok_responser)
  have an: "snd (answers say_ok ?its (resp_app ok_responser)) = 2" by (simp add: say_ok_def ok_responser)
  from responsers_agree [OF p ne cc sv b rd rq app] an show ?thesis
    by (auto simp del: frames_simps simp: numeral_2_eq_2)
qed


end
