(* ===== verification/Spec2Isabelle.thy ===== *)
theory Spec2Isabelle
  imports KL_Package KL_Kludf KL_Atomic KL_Examples KL_IntegrationTests KL_Interop
begin

text \<open>
  \<^bold>\<open>KnotLink SDK for Python and PyQt: model and correctness\<close>

  \<^bold>\<open>The program.\<close>  KnotLink connects applications through a local broker.  An application
  uses one of four roles, each of which owns a TCP client of its own:
  \<^item> a \<^verbatim>\<open>SignalSender\<close> publishes texts under a topic (port 6370) and a
    \<^verbatim>\<open>SignalSubscriber\<close> receives the texts of a topic (port 6372);
  \<^item> an \<^verbatim>\<open>OpenSocketResponser\<close> answers requests to a socket name (port 6378) from a
    worker thread, and an \<^verbatim>\<open>OpenSocketQuerier\<close> sends such requests (port 6376) and can
    wait for the answer.

  All four are built on \<^verbatim>\<open>TcpClient\<close>, which frames messages with a magic number and a
  32-bit length, reassembles them in a receive thread, sends heartbeats from a timer and
  calls the role back for every message.  \<^verbatim>\<open>KLKVMap\<close> (\<^verbatim>\<open>kludf.py\<close>) is an independent
  text format for key-value data.  The broker is a separate program and not part of the
  repository.  The repository has the SDK twice in Python: a plain one with threads, and a
  PyQt one, with the same wire format and roles on \<^verbatim>\<open>QTcpSocket\<close> and Qt signals.

  \<^bold>\<open>Theories and sources, plain SDK.\<close>  Paths are under
  \<^verbatim>\<open>src/knotlink-sdk-python/knotlink/knotlink\<close>.
  \<^item> \<^verbatim>\<open>KL_Prelude\<close>: bytes, strings as lists of code points, exceptions, results
    (\<open>Inl\<close> is a raised exception), searching and splitting, \<^verbatim>\<open>struct.pack('>I')\<close>.
  \<^item> \<^verbatim>\<open>KL_Utf8\<close>: \<^verbatim>\<open>str.encode\<close>, \<^verbatim>\<open>bytes.decode\<close> strict and with
    \<^verbatim>\<open>errors='replace'\<close>, with the round trip between them.
  \<^item> \<^verbatim>\<open>KL_Kludf\<close>: \<^verbatim>\<open>kludf.py\<close>; \<open>serialize\<close>, \<open>deserialize\<close>, \<open>klkv_get\<close>.  The
    insertion-ordered dict is the locale \<open>py_dict\<close>, interpreted on the association list
    of the model.
  \<^item> \<^verbatim>\<open>KL_TcpClient\<close>: \<^verbatim>\<open>tcpclient.py\<close>; the record \<open>tcp_client\<close> has the attributes
    of the class and the pending timers and receive threads, then one definition per
    method.  \<^verbatim>\<open>KL_Framing\<close> holds the reference parser \<open>parse_stream\<close> and the refinement
    of the buffer loop to it; \<^verbatim>\<open>KL_Connection\<close> the histories of a client
    (\<open>client_trace\<close>: every sequence of operations, timer firings and receive passes) and
    their invariants.  \<^verbatim>\<open>KL_Threads\<close> has the same methods as threads: a call or a timer
    that fires is a thread at a program point (\<open>pc\<close>), a step is one access to what the
    threads share, a schedule is a list of events (\<open>conc_exec\<close>, \<open>conc_reach\<close>);
    \<^verbatim>\<open>KL_ThreadRaces\<close> shows what interleavings can and cannot do, and \<^verbatim>\<open>KL_Atomic\<close>
    that calls which do not overlap are the atomic operations.
  \<^item> \<^verbatim>\<open>KL_Message\<close>: topics, the separator \<^verbatim>\<open>&*&\<close> and where it is found in encoded
    text.
  \<^item> \<^verbatim>\<open>KL_SignalSender\<close>, \<^verbatim>\<open>KL_SignalSubscriber\<close>, \<^verbatim>\<open>KL_OpenSocketResponser\<close>,
    \<^verbatim>\<open>KL_OpenSocketQuerier\<close>: the role of the file of the same name; a record with the
    attributes, one definition per method, and the receive thread of the role as the
    client's \<open>receive_data\<close> with the role's own callback.  \<^verbatim>\<open>KL_ResponserLife\<close> has the
    histories of a responser (\<open>resp_reach\<close>), \<^verbatim>\<open>KL_QueryThreads\<close> several threads that call
    \<^verbatim>\<open>query\<close> of one querier (\<open>qt_reach\<close>), \<^verbatim>\<open>KL_SignalPath\<close> the way of a series of signals
    from a sender to a subscriber.  \<^verbatim>\<open>KL_RpcSystem\<close> puts a querier that makes one query after
    the other, a broker and a responser together: a step (\<open>rpc_exec\<close>) is one step of the
    caller, of the broker in either direction, of a receive thread with a piece of the
    stream, or of the worker.  \<^verbatim>\<open>KL_RpcFaults\<close> adds sends that fail, connections that are lost
    and calls of \<^verbatim>\<open>disconnect\<close> to its steps (\<open>fault_exec\<close>).
  \<^item> \<^verbatim>\<open>KL_IntegrationTests\<close>: the looping programs of \<^verbatim>\<open>src/knotlink-sdk-python/tests/integration\<close>
    as instances of these systems.
  \<^item> \<^verbatim>\<open>KL_Examples\<close>: the programs under \<^verbatim>\<open>if __name__ == "__main__"\<close> of all these files;
    \<^verbatim>\<open>KL_Package\<close>: \<^verbatim>\<open>enable_logging\<close> of \<^verbatim>\<open>__init__.py\<close> on the root logger.

  \<^bold>\<open>Theories and sources, PyQt SDK.\<close>  Paths are under
  \<^verbatim>\<open>src/knotlink-sdk-pyqt/knotlink-pyqt/knotlink-pyqt\<close>.
  \<^item> \<^verbatim>\<open>KL_QtTcpClient\<close>: \<^verbatim>\<open>tcpclient.py\<close>; the record \<open>qt_client\<close>, its signals and
    connections, one definition per method.  \<^verbatim>\<open>KL_BufferLoop\<close> states the contract that the
    buffer loops of both SDKs satisfy; \<^verbatim>\<open>KL_QtFraming\<close> interprets it for the PyQt loop
    and compares the two; \<^verbatim>\<open>KL_QtConnection\<close> has the histories of a client
    (\<open>qt_trace\<close>).
  \<^item> \<^verbatim>\<open>KL_QtSignals\<close>: \<^verbatim>\<open>SignalSender.py\<close> and \<^verbatim>\<open>SignalSubscriber.py\<close>;
    \<^verbatim>\<open>KL_QtResponser\<close>: \<^verbatim>\<open>OpenSocketResponser.py\<close>; \<^verbatim>\<open>KL_QtQuerier\<close>:
    \<^verbatim>\<open>OpenSocketQuerier.py\<close> with the blocking query and its local event loop.
  \<^item> \<^verbatim>\<open>KL_Interop\<close>: programs of the two SDKs that talk to each other.

  The names of the sources are kept; methods that every role has carry a prefix
  (\<open>sub_\<close>, \<open>resp_\<close>, \<open>q_\<close>, \<open>sender_\<close>, and \<open>qsub_\<close>, \<open>qr_\<close>, \<open>qq_\<close>, \<open>qs_\<close> for PyQt).

  \<^bold>\<open>How effects are modelled.\<close>  State is passed explicitly.  What the operating system
  decides is an argument: whether a connection succeeds (\<open>bool\<close>), whether a
  \<^verbatim>\<open>sendall\<close> completes or fails after some bytes (\<open>send_result\<close>), what
  \<^verbatim>\<open>recv\<close> returns (\<open>recv_result\<close>), whether an event was set before a timeout.  The theorems
  hold for all of these.  A socket records the bytes handed to it, so what is on the wire
  can be stated.  Application callbacks are parameters that may raise and may change the
  role they are called on; where a theorem needs a callback that leaves the client alone,
  that is a hypothesis (\<open>keeps_buffer\<close>) or the callback is one that updates the
  application's own state.  The broker in the end-to-end theorems is a function in each
  direction, with a stated contract.
  A callback is arbitrary code, so the buffer loop \<open>process_buffer\<close> is a partial function with
  result \<open>option\<close> and \<open>None\<close> means that it never returns; \<open>process_buffer_terminates\<close>
  shows that it does return (\<open>qt_readData_returns\<close> for PyQt).  No definition has fuel.

  Qt is a library outside the repository.  Its sockets and timers are values of type
  variables and the methods the code calls are fields of a record argument (\<open>qt_api\<close>), with
  the signals that a call may emit before it returns.  What is used of them is \<open>qt_laws\<close>,
  a hypothesis of the theorems that need it; \<open>sample_qt\<close> satisfies it.  An exception in a slot
  leaves everything above it, and is the result \<open>Inl\<close>.  The local event loop of a blocking
  query is a list of handlers, arbitrary functions of the querier that may be further
  blocking queries; \<open>None\<close> means that the call never returns.

  \<^bold>\<open>Interfaces.\<close>  The buffer loop runs inside the object that owns the client.  The locale
  \<open>client_lens\<close> is that ownership (reading and changing the client inside the owner), and
  \<open>quiet_owner\<close> extends it by a callback that acts on the application only.  The
  refinement of the loop, its bound and its independence of chunk boundaries are proved
  once there, and interpreted for a bare client, for an application that uses it directly
  and for the three roles that receive.  \<open>buffer_loop\<close> and \<open>quiet_loop\<close> are the contract of
  a loop that takes frames off a buffer, interpreted for the loops of both SDKs;
  \<open>qt_lens\<close> and \<open>qt_quiet_owner\<close> are the owners of a PyQt client, from which the loop
  contracts follow as sublocales, interpreted for an application and the three roles.
  \<open>rpc_run\<close> is a run of the system of \<^verbatim>\<open>KL_RpcSystem\<close> with a broker that keeps to its contract,
  interpreted for the integration test.  \<open>rpc_caller\<close> and \<open>rpc_server\<close> are the two ends of a
  request as either SDK promises them, \<open>rpc_pair\<close> joins them, and it is interpreted for all
  four pairs of SDKs.

  \<^bold>\<open>What is shown.\<close>
  \<^item> Receiving: the loop computes what the reference parser finds, for every way the stream
    is cut; framing round trip; termination; bounded buffer; bad headers disconnect;
    exceptions of callbacks; delivery after a disconnect inside a callback.
  \<^item> Sending: what is on the wire is the accepted messages, whole and in order; a peer reads
    exactly those; a lost connection is never used again; one heartbeat timer.
  \<^item> Threads of a client: under every interleaving there is one timer, a lost connection stays
    lost, and the stream is a shuffle of frames; it is a sequence of whole frames if no two
    threads write at a time.  The code does not ensure that, and there are schedules in which
    a heartbeat corrupts a message and in which \<^verbatim>\<open>disconnect\<close> misses a timer.
  \<^item> Roles: the subscriber delivers every text; the responser answers every request once and
    in order, its queue is well typed and only the application can end its worker; a query
    refines a one-place mailbox and returns the last reply; timeouts, late
    replies and the cases in which a query never returns; the branches of \<^verbatim>\<open>emitt\<close>; when
    topics and keys are unambiguous and when they collide.
  \<^item> Querier and responser together: whatever the order of the steps, the results are the
    answers of the application, in order; and if no part stops for ever, every query
    returns.  Both hold for a caller that makes one query at a time on connections that last.
    On connections that fail at any time, in any way, queries return the answers to the first
    requests and then only \<^verbatim>\<open>None\<close>, and no request is handled twice.
  \<^item> Several queries at a time: answers are never older than their query and \<^verbatim>\<open>disconnect\<close>
    wakes all, but calls can take each other's replies and one can wait for ever.
  \<^item> PyQt: its loop reads every stream as the plain loop does, and its senders put the same
    bytes on the wire; what is on the wire in every history; delivery, answers and the
    result of a blocking query; its responser puts the same answers on the wire, and queriers
    and responsers of the two SDKs work together in all four pairs; where it differs: a bad frame that outlives its connection,
    a disconnect in a slot, strict decoding, separators in requests, nested queries.
  \<^item> \<^verbatim>\<open>KLKVMap\<close>: exactly when a map survives the round trip, and what any input is read as.

  \<^bold>\<open>Not modelled.\<close>  The messages the modules log; packaging; re-exports in \<^verbatim>\<open>__init__.py\<close>;
  the unit test programs (console and tkinter drivers) and the integration tests with a
  single message.  The systems of \<^verbatim>\<open>KL_RpcSystem\<close> and \<^verbatim>\<open>KL_RpcFaults\<close> have no heartbeats, which
  are in the histories of a client, and no timeouts of queries, which are in the histories of
  a querier.  In \<^verbatim>\<open>KL_Threads\<close> the receive thread
  appears with what it does to the flag and the socket; what it does with bytes is in the
  atomic model, since only that thread touches the buffer.  In \<^verbatim>\<open>KL_QueryThreads\<close> the send
  of a query is one step.  \<^verbatim>\<open>readyRead\<close> inside a call into Qt, and the ports to other
  languages, are left out.
\<close>

section \<open>A request and its answer, across the broker\<close>

text \<open>
  A request from the querier to the responser and back.  The
  broker between them is not part of this repository; it is the two functions \<open>to_resp\<close>
  and \<open>to_querier\<close>, of which only this is used: it turns the querier's request into a
  keyed request with the same text, and the keyed answer into the plain answer.  Then the
  querier puts one frame on its connection, the responser's worker calls the application's
  function with the text of the request and puts one frame on its own, and the query
  returns the application's answer.
\<close>

theorem request_reply_end_to_end:
  assumes "online (KLquerier s)" and "buffer (KLquerier s) = []"
    and "received_data_callback (KLquerier s) = Some OpenSocketQuerier_internal_data_recv"
    and "q_sendable s data"
    and "serving p" and "resp_data_queue p = []" and "buffer (KLresponser p) = []"
    and "good_request (data, key)" and "answerable g key" and "g data (resp_app p) = (a, w)"
    and "list_all is_scalar a" and "a \<noteq> []" and "length (utf8_bytes a) \<le> 16777216"
    and "a \<noteq> str_lit ''heartbeat_response''"
    and "to_resp (query_msg s data) = keyed_msg key data"
    and "to_querier (keyed_msg key a) = utf8_bytes a"
  shows "\<exists>m m' s1 p1 p2 s2.
     query_async Send_Ok data (query_begin s) = (Inr (), s1) \<and>
     sk_sent (tcp_socket (KLquerier s1)) = sk_sent (tcp_socket (KLquerier s)) @ frame m \<and>
     resp_receive [Recv_Data (frame (to_resp m))] p = Some (Continue, p1) \<and>
     process_queue (resp_app_user g) [Send_Ok] p1 = (Continue, p2) \<and>
     sk_sent (tcp_socket (KLresponser p2)) = sk_sent (tcp_socket (KLresponser p)) @ frame m' \<and>
     q_receive (q_app_user f) [Recv_Data (frame (to_querier m'))] s1 = Some (Continue, s2) \<and>
     query_event s2 \<and> fst (query_end True s2) = Inr (Some a)"
proof -
  obtain x s1 where s1: "query_async Send_Ok data (query_begin s) = (x, s1)" by fastforce
  have ne: "[] \<notin> set [frame b]" for b by (simp add: frame_def MAGIC_def)
  have cc: "concat [frame b] = frame b" for b by simp
  from query_over_stream [OF assms(1-4) s1 ne assms(11-14) cc, of f]
  obtain s2 where q: "x = Inr ()"
      "sk_sent (tcp_socket (KLquerier s1)) = sk_sent (tcp_socket (KLquerier s)) @ frame (query_msg s data)"
      "q_receive (q_app_user f) [Recv_Data (frame (utf8_bytes a))] s1 = Some (Continue, s2)"
      "query_event s2" "fst (query_end True s2) = Inr (Some a)"
    by auto
  have gr: "list_all good_request [(data, key)]" and an: "list_all (\<lambda>(t, key). answerable g key) [(data, key)]"
    using assms(8,9) by simp_all
  have fr: "concat [frame (keyed_msg key data)] = frames (map (\<lambda>(t, key). keyed_msg key t) [(data, key)])"
    by simp
  have as: "answers g [(data, key)] (resp_app p) = ([keyed_msg key a], w)" using assms(10) by simp
  from responser_serves [OF assms(5-7) ne gr fr an as]
  obtain p1 p2 where r: "resp_receive [Recv_Data (frame (keyed_msg key data))] p = Some (Continue, p1)"
      "process_queue (resp_app_user g) [Send_Ok] p1 = (Continue, p2)"
      "sk_sent (tcp_socket (KLresponser p2)) = sk_sent (tcp_socket (KLresponser p)) @ frame (keyed_msg key a)"
    by auto
  show ?thesis
    using s1 q r assms(15,16)
    by (intro exI [of _ "query_msg s data"] exI [of _ "keyed_msg key a"]) auto
qed

theorem request_reply_end_to_end_witness:
  "\<exists>m m' s1 p1 p2 s2.
     query_async Send_Ok (str_lit ''hi'') (query_begin sample_querier) = (Inr (), s1) \<and>
     sk_sent (tcp_socket (KLquerier s1)) = sk_sent (tcp_socket (KLquerier sample_querier)) @ frame m \<and>
     resp_receive [Recv_Data (frame (sample_to_resp m))] sample_responser = Some (Continue, p1) \<and>
     process_queue (resp_app_user echo) [Send_Ok] p1 = (Continue, p2) \<and>
     sk_sent (tcp_socket (KLresponser p2)) = sk_sent (tcp_socket (KLresponser sample_responser)) @ frame m' \<and>
     q_receive (q_app_user (\<lambda>t w. w @ [t])) [Recv_Data (frame (sample_to_querier m'))] s1 = Some (Continue, s2) \<and>
     query_event s2 \<and> fst (query_end True s2) = Inr (Some (str_lit ''Echo''))"
proof -
  have gr: "good_request (str_lit ''hi'', str_lit ''7'')"
    by (simp add: good_request_def str_lit_def is_scalar_def is_surrogate_def SEP_simps keyed_msg_def
        utf8_char_def)
  have an: "answerable echo (str_lit ''7'')"
    by (simp add: answerable_def echo_def str_lit_def is_surrogate_def keyed_msg_def SEP_simps utf8_char_def)
  have g: "echo (str_lit ''hi'') (resp_app sample_responser) = (str_lit ''Echo'', ())"
    by (simp add: echo_def)
  have a: "list_all is_scalar (str_lit ''Echo'')" "str_lit ''Echo'' \<noteq> []"
      "length (utf8_bytes (str_lit ''Echo'')) \<le> 16777216" "str_lit ''Echo'' \<noteq> str_lit ''heartbeat_response''"
    by (simp_all add: str_lit_def is_scalar_def is_surrogate_def utf8_char_def)
  have b: "sample_to_resp (query_msg sample_querier (str_lit ''hi'')) = keyed_msg (str_lit ''7'') (str_lit ''hi'')"
      "sample_to_querier (keyed_msg (str_lit ''7'') (str_lit ''Echo'')) = utf8_bytes (str_lit ''Echo'')"
    by (simp_all add: sample_to_resp_def sample_to_querier_def keyed_msg_def query_msg_def
        sample_querier_simps fstr_def topic_def str_lit_def SEP_simps utf8_char_def)
  show ?thesis
    by (rule request_reply_end_to_end [where to_resp = sample_to_resp and to_querier = sample_to_querier
          and g = echo, OF sample_querier(1-3,7) sample_responser(1-3) gr an g a b])
qed

end
